(* ===== verification/Prelude.thy ===== *)
theory Prelude
  imports Complex_Main "HOL-Library.Word" "HOL-Library.Multiset"
begin

text \<open>
  Shared vocabulary of the development: the faults that end the process, effectful
  calls, C integers, the \<open>std::string\<close> searches the sources use, \<open>atoi\<close> and the
  \<open>printf\<close> family restricted to the directives that occur under src/, and counting
  lemmas for lists of threads.  Text is a list of \<open>char\<close>, for \<open>std::string\<close> and for
  \<open>tstring\<close> alike; the conversions between the two are arguments where code calls them.
\<close>

section \<open>Lemma collections\<close>

named_theorems eff_simps \<open>unfolding rules of the effect combinators\<close>
named_theorems moves_intros \<open>computations that move a part of the world\<close>
named_theorems str_simps \<open>rewrite rules about searching and cutting strings\<close>
named_theorems task_frame \<open>fields of a task that an operation leaves alone\<close>

section \<open>Faults and effects\<close>

text \<open>
  A fault is behaviour that does not return to the caller: an exception of the C++
  library that nothing catches, the invalid-parameter handler of the secure CRT
  functions, a failed assertion, the use of a null or of a stale pointer, and a call that has
  not returned within the turns the model gives it (\<open>Diverges\<close>).
\<close>

datatype fault =
    LengthError
  | InvalidParameter
  | AssertionFailed
  | NullPointer
  | OutOfRange
  | StalePointer
  | PureVirtualCall
  | Diverges
  | BadAlloc

type_synonym tstring = string
type_synonym 'a outcome = "fault + 'a"
type_synonym ('w, 'a) eff = "'w \<Rightarrow> ('a \<times> 'w) outcome"

definition ret :: "'a \<Rightarrow> ('w, 'a) eff" where
  "ret x w = Inr (x, w)"

definition throw :: "fault \<Rightarrow> ('w, 'a) eff" where
  "throw f w = Inl f"

definition ebind :: "('w, 'a) eff \<Rightarrow> ('a \<Rightarrow> ('w, 'b) eff) \<Rightarrow> ('w, 'b) eff" where
  "ebind m k w = (case m w of Inl f \<Rightarrow> Inl f | Inr (x, w') \<Rightarrow> k x w')"

definition call :: "('w \<Rightarrow> 'a \<times> 'w) \<Rightarrow> ('w, 'a) eff" where
  "call f w = Inr (f w)"

definition lift :: "'a outcome \<Rightarrow> ('w, 'a) eff" where
  "lift r w = (case r of Inl f \<Rightarrow> Inl f | Inr x \<Rightarrow> Inr (x, w))"

definition bind_outcome :: "'a outcome \<Rightarrow> ('a \<Rightarrow> 'b outcome) \<Rightarrow> 'b outcome" where
  "bind_outcome r k = (case r of Inl f \<Rightarrow> Inl f | Inr x \<Rightarrow> k x)"

lemma ebind_ret [simp, eff_simps]: "ebind (ret x) k = k x"
  by (rule ext) (simp add: ebind_def ret_def)

lemma ebind_throw [simp, eff_simps]: "ebind (throw f) k = throw f"
  by (rule ext) (simp add: ebind_def throw_def)

lemma ebind_assoc [eff_simps]: "ebind (ebind m k) h = ebind m (\<lambda>x. ebind (k x) h)"
  by (rule ext) (simp add: ebind_def split: sum.splits prod.splits)

lemma ebind_right_ret [simp]: "ebind m ret = m"
  by (rule ext) (simp add: ebind_def ret_def split: sum.splits prod.splits)

lemma ebind_Inr: "m w = Inr (x, w') \<Longrightarrow> ebind m k w = k x w'"
  by (simp add: ebind_def)

lemma ebind_Inl: "m w = Inl f \<Longrightarrow> ebind m k w = Inl f"
  by (simp add: ebind_def)

lemma ebind_InrE:
  assumes "ebind m k w = Inr r"
  obtains x w' where "m w = Inr (x, w')" and "k x w' = Inr r"
  using assms by (auto simp: ebind_def split: sum.splits)

lemma ret_Inr [simp, eff_simps]: "ret x w = Inr r \<longleftrightarrow> r = (x, w)"
  by (auto simp: ret_def)

lemma ret_not_Inl [simp]: "ret x w \<noteq> Inl f"
  by (simp add: ret_def)

lemma call_ebind [eff_simps]: "ebind (call f) k w = k (fst (f w)) (snd (f w))"
  by (simp add: ebind_def call_def split: prod.splits)

lemma bind_outcome_simps [simp]:
  "bind_outcome (Inl f) k = Inl f"
  "bind_outcome (Inr x) k = k x"
  by (simp_all add: bind_outcome_def)

text \<open>Every value a computation returns satisfies \<open>P\<close>.\<close>

definition yields :: "('w, 'a) eff \<Rightarrow> ('a \<Rightarrow> bool) \<Rightarrow> bool" where
  "yields m P \<longleftrightarrow> (\<forall>w x w'. m w = Inr (x, w') \<longrightarrow> P x)"

lemma yieldsD: "yields m P \<Longrightarrow> m w = Inr (x, w') \<Longrightarrow> P x"
  by (auto simp: yields_def)

lemma yields_ret: "P x \<Longrightarrow> yields (ret x) P"
  by (simp add: yields_def)

lemma yields_ebind: "(\<And>x. yields (k x) P) \<Longrightarrow> yields (ebind m k) P"
  by (auto simp: yields_def elim!: ebind_InrE)

lemma yields_if: "(b \<Longrightarrow> yields m P) \<Longrightarrow> (\<not> b \<Longrightarrow> yields n P) \<Longrightarrow> yields (if b then m else n) P"
  by simp

lemma yields_pair: "(\<And>x y. yields (k x y) P) \<Longrightarrow> yields (case z of (x, y) \<Rightarrow> k x y) P"
  by (cases z) simp

lemma yields_bind:
  assumes "yields m Q" and "\<And>x. Q x \<Longrightarrow> yields (k x) P"
  shows "yields (ebind m k) P"
  unfolding yields_def using assms by (metis ebind_InrE yieldsD)

lemma yields_bind_pair:
  assumes "yields m (\<lambda>(x, y). Q x y)" and "\<And>x y. Q x y \<Longrightarrow> yields (k x y) P"
  shows "yields (ebind m (\<lambda>(x, y). k x y)) P"
  using assms(1) by (rule yields_bind) (use assms(2) in auto)

lemma yields_lift: "(\<And>x. r = Inr x \<Longrightarrow> P x) \<Longrightarrow> yields (lift r) P"
  by (auto simp: yields_def lift_def split: sum.splits)

lemma yields_True: "yields m (\<lambda>_. True)"
  by (simp add: yields_def)

lemma yieldsI: "(\<And>w x w'. m w = Inr (x, w') \<Longrightarrow> P x) \<Longrightarrow> yields m P"
  by (auto simp: yields_def)

lemma yields_mono: "yields m Q \<Longrightarrow> (\<And>x. Q x \<Longrightarrow> P x) \<Longrightarrow> yields m P"
  by (auto simp: yields_def)

text \<open>A computation moves the part \<open>get\<close> of the world along \<open>R\<close> whenever it returns.\<close>

definition moves :: "('w \<Rightarrow> 's) \<Rightarrow> ('s \<Rightarrow> 's \<Rightarrow> bool) \<Rightarrow> ('w, 'a) eff \<Rightarrow> bool" where
  "moves get R m \<longleftrightarrow> (\<forall>w x w'. m w = Inr (x, w') \<longrightarrow> R (get w) (get w'))"

lemma moves_ret [moves_intros]: "reflp R \<Longrightarrow> moves get R (ret x)"
  by (auto simp: moves_def reflp_def)

lemma moves_lift [moves_intros]: "reflp R \<Longrightarrow> moves get R (lift r)"
  by (auto simp: moves_def reflp_def lift_def split: sum.splits)

lemma moves_call: "reflp R \<Longrightarrow> (\<And>w. get (snd (f w)) = get w) \<Longrightarrow> moves get R (call f)"
  by (auto simp: moves_def call_def reflp_def) (metis snd_conv)

lemma moves_ebind:
  assumes "transp R" "moves get R m" "\<And>x. moves get R (k x)"
  shows "moves get R (ebind m k)"
  unfolding moves_def
proof (intro allI impI)
  fix w x w' assume "ebind m k w = Inr (x, w')"
  then obtain y v where y: "m w = Inr (y, v)" "k y v = Inr (x, w')" by (rule ebind_InrE)
  then have "R (get w) (get v)" "R (get v) (get w')" using assms(2,3) by (auto simp: moves_def)
  with assms(1) show "R (get w) (get w')" by (rule transpD)
qed

lemma moves_if [moves_intros]:
  "(b \<Longrightarrow> moves get R m) \<Longrightarrow> (\<not> b \<Longrightarrow> moves get R n) \<Longrightarrow> moves get R (if b then m else n)"
  by simp

lemma moves_option [moves_intros]:
  "moves get R m \<Longrightarrow> (\<And>x. moves get R (k x)) \<Longrightarrow> moves get R (case r of None \<Rightarrow> m | Some x \<Rightarrow> k x)"
  by (cases r) simp_all

lemma moves_pair [moves_intros]: "(\<And>x y. moves get R (k x y)) \<Longrightarrow> moves get R (case z of (x, y) \<Rightarrow> k x y)"
  by (cases z) simp

text \<open>A computation that never ends in the fault \<open>f\<close>.\<close>

definition avoids :: "fault \<Rightarrow> ('w, 'a) eff \<Rightarrow> bool" where
  "avoids f m \<longleftrightarrow> (\<forall>w. m w \<noteq> Inl f)"

lemma avoids_ret: "avoids f (ret x)"
  by (simp add: avoids_def)

lemma avoids_call: "avoids f (call g)"
  by (simp add: avoids_def call_def)

lemma avoids_lift: "r \<noteq> Inl f \<Longrightarrow> avoids f (lift r)"
  by (auto simp: avoids_def lift_def split: sum.splits)

lemma avoids_ebind: "avoids f m \<Longrightarrow> (\<And>x. avoids f (k x)) \<Longrightarrow> avoids f (ebind m k)"
  by (auto simp: avoids_def ebind_def split: sum.splits)

lemma avoids_bind:
  assumes "avoids f m" and "yields m Q" and "\<And>x. Q x \<Longrightarrow> avoids f (k x)"
  shows "avoids f (ebind m k)"
proof -
  have "ebind m k w \<noteq> Inl f" for w
  proof (cases "m w")
    case (Inr r)
    then have "Q (fst r)" using assms(2) by (metis prod.collapse yieldsD)
    with assms(3) Inr show ?thesis by (auto simp: ebind_def avoids_def split: prod.splits)
  qed (use assms(1) in \<open>auto simp: ebind_def avoids_def\<close>)
  then show ?thesis by (simp add: avoids_def)
qed

lemma avoids_if: "(b \<Longrightarrow> avoids f m) \<Longrightarrow> (\<not> b \<Longrightarrow> avoids f n) \<Longrightarrow> avoids f (if b then m else n)"
  by simp

lemma avoids_pair: "(\<And>x y. avoids f (k x y)) \<Longrightarrow> avoids f (case z of (x, y) \<Rightarrow> k x y)"
  by (cases z) simp

lemmas avoids_intros = avoids_ret avoids_call avoids_ebind avoids_if avoids_pair

lemmas yields_intros = yields_ret yields_ebind yields_if yields_pair

section \<open>C integers\<close>

text \<open>A value stored into a 32-bit \<open>int\<close> keeps its low 32 bits, read as two's complement.\<close>

definition int32 :: "int \<Rightarrow> int" where
  "int32 x = (x + 2 ^ 31) mod 2 ^ 32 - 2 ^ 31"

definition is_int32 :: "int \<Rightarrow> bool" where
  "is_int32 x \<longleftrightarrow> - (2 ^ 31) \<le> x \<and> x < 2 ^ 31"

lemma int32_id: "is_int32 x \<Longrightarrow> int32 x = x"
  by (simp add: int32_def is_int32_def)

lemma is_int32_int32 [simp]: "is_int32 (int32 x)"
  by (simp add: int32_def is_int32_def)

section \<open>Searching strings\<close>

fun find_first_of :: "'a \<Rightarrow> 'a list \<Rightarrow> nat option" where
  "find_first_of c [] = None"
| "find_first_of c (x # xs) = (if x = c then Some 0 else map_option Suc (find_first_of c xs))"

fun find_last_of :: "'a \<Rightarrow> 'a list \<Rightarrow> nat option" where
  "find_last_of c [] = None"
| "find_last_of c (x # xs) =
     (case find_last_of c xs of
        Some n \<Rightarrow> Some (Suc n)
      | None \<Rightarrow> if x = c then Some 0 else None)"

lemma find_first_of_None [str_simps]: "find_first_of c xs = None \<longleftrightarrow> c \<notin> set xs"
  by (induction xs) auto

lemma find_first_of_notin [str_simps]: "c \<notin> set xs \<Longrightarrow> find_first_of c xs = None"
  by (simp add: find_first_of_None)

lemma find_last_of_None [str_simps]: "find_last_of c xs = None \<longleftrightarrow> c \<notin> set xs"
  by (induction xs) (auto split: option.splits)

lemma find_first_of_split [str_simps]:
  "c \<notin> set a \<Longrightarrow> find_first_of c (a @ c # b) = Some (length a)"
  by (induction a) auto

lemma find_last_of_split [str_simps]:
  "c \<notin> set b \<Longrightarrow> find_last_of c (a @ c # b) = Some (length a)"
proof (induction a)
  case Nil
  then have "find_last_of c b = None" by (simp add: find_last_of_None)
  then show ?case by simp
qed simp

lemma find_first_of_SomeE:
  assumes "find_first_of c xs = Some n"
  obtains a b where "xs = a @ c # b" and "length a = n" and "c \<notin> set a"
proof -
  from assms have "c \<in> set xs" using find_first_of_None by force
  then obtain a b where "xs = a @ c # b" "c \<notin> set a" by (meson split_list_first)
  with assms show thesis by (auto intro!: that simp: find_first_of_split)
qed

lemma find_last_of_SomeE:
  assumes "find_last_of c xs = Some n"
  obtains a b where "xs = a @ c # b" and "length a = n" and "c \<notin> set b"
proof -
  from assms have "c \<in> set xs" using find_last_of_None by force
  then obtain a b where "xs = a @ c # b" "c \<notin> set b" by (meson split_list_last)
  with assms show thesis by (auto intro!: that simp: find_last_of_split)
qed

lemma find_first_of_nth:
  "find_first_of c xs = Some n \<Longrightarrow> n < length xs \<and> xs ! n = c"
  by (erule find_first_of_SomeE) auto

lemma find_first_of_append [str_simps]:
  "find_first_of c (xs @ ys) =
     (case find_first_of c xs of
        Some i \<Rightarrow> Some i
      | None \<Rightarrow> map_option ((+) (length xs)) (find_first_of c ys))"
  by (induction xs; cases "find_first_of c ys") (auto split: option.splits)

lemma map_option_add_0 [simp]: "map_option ((+) (0::nat)) r = r"
  by (cases r) auto

lemma nat_one_plus_int [simp]: "nat (1 + int n) = Suc n"
  by simp

text \<open>\<open>c_str\<close> hands a string to code that stops at the first NUL.\<close>

definition c_str :: "string \<Rightarrow> string" where
  "c_str = takeWhile (\<lambda>c. c \<noteq> CHR 0x00)"

lemma c_str_id: "CHR 0x00 \<notin> set s \<Longrightarrow> c_str s = s"
  by (induction s) (auto simp: c_str_def)

lemma length_c_str: "length (c_str s) \<le> length s"
  by (simp add: c_str_def length_takeWhile_le)

section \<open>Decimal text: atoi and printf\<close>

definition digit_char :: "nat \<Rightarrow> char" where
  "digit_char d = char_of (48 + d)"

definition is_digit :: "char \<Rightarrow> bool" where
  "is_digit c \<longleftrightarrow> 48 \<le> (of_char c :: nat) \<and> (of_char c :: nat) \<le> 57"

definition digit_val :: "char \<Rightarrow> nat" where
  "digit_val c = of_char c - 48"

definition is_space :: "char \<Rightarrow> bool" where
  "is_space c \<longleftrightarrow> c \<in> {CHR 0x20, CHR 0x09, CHR 0x0A, CHR 0x0B, CHR 0x0C, CHR 0x0D}"

fun show_nat :: "nat \<Rightarrow> string" where
  "show_nat n = (if n < 10 then [digit_char n] else show_nat (n div 10) @ [digit_char (n mod 10)])"

declare show_nat.simps [simp del]

definition show_int :: "int \<Rightarrow> string" where
  "show_int i = (if i < 0 then CHR ''-'' # show_nat (nat (- i)) else show_nat (nat i))"

definition read_digits :: "string \<Rightarrow> nat" where
  "read_digits s = foldl (\<lambda>v c. 10 * v + digit_val c) 0 (takeWhile is_digit s)"

text \<open>\<open>atoi\<close> skips white space, takes a sign and saturates at the ends of \<open>int\<close>.\<close>

definition atoi :: "string \<Rightarrow> int" where
  "atoi s =
     (let t = dropWhile is_space s;
          v = (case t of
                 [] \<Rightarrow> 0
               | c # u \<Rightarrow> if c = CHR ''-'' then - int (read_digits u)
                          else if c = CHR ''+'' then int (read_digits u)
                          else int (read_digits t))
      in max (- (2 ^ 31)) (min (2 ^ 31 - 1) v))"

lemma is_int32_atoi: "is_int32 (atoi s)"
  by (simp add: atoi_def is_int32_def Let_def)

lemma digit_not_special:
  assumes "is_digit c"
  shows "\<not> is_space c" "c \<noteq> CHR ''-''" "c \<noteq> CHR ''+''"
  using assms by (auto simp: is_digit_def is_space_def)

lemma digit_char_simps [simp]:
  assumes "d < 10"
  shows "is_digit (digit_char d)" "digit_val (digit_char d) = d"
proof -
  have "(of_char (digit_char d) :: nat) = 48 + d"
    using assms by (simp add: digit_char_def)
  then show "is_digit (digit_char d)" "digit_val (digit_char d) = d"
    using assms by (simp_all add: is_digit_def digit_val_def)
qed

lemma show_nat_digits: "\<forall>c \<in> set (show_nat n). is_digit c"
proof (induction n rule: show_nat.induct)
  case (1 n)
  then show ?case by (subst show_nat.simps) auto
qed

lemma show_nat_nonempty [simp]: "show_nat n \<noteq> []"
  by (subst show_nat.simps) simp

lemma read_digits_show_nat: "read_digits (show_nat n) = n"
proof -
  have all: "takeWhile is_digit (show_nat n) = show_nat n" for n
    using show_nat_digits by (simp add: takeWhile_eq_all_conv)
  have "foldl (\<lambda>v c. 10 * v + digit_val c) 0 (show_nat n) = n"
  proof (induction n rule: show_nat.induct)
    case (1 n)
    then show ?case by (subst show_nat.simps) auto
  qed
  then show ?thesis by (simp add: read_digits_def all)
qed

lemma hd_show_nat:
  obtains c cs where "show_nat n = c # cs" and "is_digit c"
  using show_nat_digits [of n] show_nat_nonempty [of n] by (cases "show_nat n") auto

lemma atoi_show_int: "is_int32 i \<Longrightarrow> atoi (show_int i) = i"
proof -
  assume r: "is_int32 i"
  obtain c cs where c: "show_nat (nat i) = c # cs" "is_digit c" by (rule hd_show_nat)
  have minus: "\<not> is_space (CHR ''-'')" by (simp add: is_space_def)
  show ?thesis
  proof (cases "i < 0")
    case True
    with r minus show ?thesis
      by (simp add: atoi_def show_int_def Let_def read_digits_show_nat is_int32_def)
  next
    case False
    with c digit_not_special [OF c(2)] have "atoi (show_int i) =
        max (- (2 ^ 31)) (min (2 ^ 31 - 1) (int (read_digits (show_nat (nat i)))))"
      by (simp add: atoi_def show_int_def Let_def)
    with False r show ?thesis by (simp add: read_digits_show_nat is_int32_def)
  qed
qed

lemma length_show_nat: "n < 10 ^ k \<Longrightarrow> 0 < k \<Longrightarrow> length (show_nat n) \<le> k"
proof (induction k arbitrary: n)
  case 0
  then show ?case by simp
next
  case (Suc k)
  show ?case
  proof (cases "n < 10")
    case True
    then show ?thesis by (subst show_nat.simps) simp
  next
    case False
    with Suc.prems have "n div 10 < 10 ^ k" and "0 < k"
      by (auto simp: less_mult_imp_div_less mult.commute intro: gr0I)
    with Suc.IH False show ?thesis by (subst show_nat.simps) simp
  qed
qed

lemma length_show_int: "is_int32 i \<Longrightarrow> length (show_int i) \<le> 11"
proof -
  assume r: "is_int32 i"
  then have "nat i < 10 ^ 10" and "nat (- i) < 10 ^ 10" by (auto simp: is_int32_def)
  then have "length (show_nat (nat i)) \<le> 10" and "length (show_nat (nat (- i))) \<le> 10"
    by (auto intro: length_show_nat)
  then show ?thesis by (simp add: show_int_def)
qed

lemma show_int_chars: "c \<in> set (show_int i) \<Longrightarrow> is_digit c \<or> c = CHR ''-''"
  using show_nat_digits by (auto simp: show_int_def split: if_splits)

text \<open>
  \<open>printf\<close> directives: \<open>%d\<close>, \<open>%s\<close>, \<open>%f\<close> (six decimals) and \<open>%%\<close>.  Any other
  directive, a missing argument or one of another type is a fault.
\<close>

datatype fmt_arg = ArgInt int | ArgStr string | ArgFloat rat

definition pad_zero :: "nat \<Rightarrow> string \<Rightarrow> string" where
  "pad_zero k s = replicate (k - length s) (CHR ''0'') @ s"

definition show_fixed6 :: "rat \<Rightarrow> string" where
  "show_fixed6 r =
     (let m = nat (round (\<bar>r\<bar> * 1000000))
      in (if r < 0 then ''-'' else '''') @ show_nat (m div 1000000) @ ''.'' @
         pad_zero 6 (show_nat (m mod 1000000)))"

definition show_arg :: "char \<Rightarrow> fmt_arg \<Rightarrow> string option" where
  "show_arg d a =
     (case a of
        ArgInt i \<Rightarrow> if d = CHR ''d'' then Some (show_int i) else None
      | ArgStr s \<Rightarrow> if d = CHR ''s'' then Some s else None
      | ArgFloat r \<Rightarrow> if d = CHR ''f'' then Some (show_fixed6 r) else None)"

fun c_format :: "string \<Rightarrow> fmt_arg list \<Rightarrow> string option" where
  "c_format [] args = Some []"
| "c_format [c] args = (if c = CHR ''%'' then None else Some [c])"
| "c_format (c # d # fs) args =
     (if c \<noteq> CHR ''%'' then map_option (Cons c) (c_format (d # fs) args)
      else if d = CHR ''%'' then map_option (Cons d) (c_format fs args)
      else case args of
             [] \<Rightarrow> None
           | a # as \<Rightarrow>
               (case show_arg d a of
                  None \<Rightarrow> None
                | Some s \<Rightarrow> map_option ((@) s) (c_format fs as)))"

text \<open>
  \<open>sprintf_s\<close> and \<open>swprintf_s\<close> call the invalid-parameter handler, which ends the
  process, when the text and its terminator do not fit into \<open>cap\<close> characters.
\<close>

definition sprintf_s :: "nat \<Rightarrow> string \<Rightarrow> fmt_arg list \<Rightarrow> string outcome" where
  "sprintf_s cap fmt args =
     (case c_format fmt args of
        None \<Rightarrow> Inl InvalidParameter
      | Some s \<Rightarrow> if length s < cap then Inr s else Inl InvalidParameter)"

lemma length_pad_zero: "length s \<le> k \<Longrightarrow> length (pad_zero k s) = k"
  by (simp add: pad_zero_def)

lemma pad_digits: "\<forall>d \<in> set (pad_zero k (show_nat n)). is_digit d"
  using show_nat_digits [of n] by (auto simp: pad_zero_def is_digit_def)

lemma read_digits_pad:
  assumes "s = [] \<or> \<not> is_digit (hd s)"
  shows "read_digits (pad_zero k (show_nat n) @ s) = n"
proof -
  have zeros: "foldl (\<lambda>v c. 10 * v + digit_val c) 0 (replicate j (CHR ''0'')) = 0" for j
    by (induction j) (simp_all add: digit_val_def)
  have "takeWhile is_digit (show_nat n) = show_nat n"
    using show_nat_digits by (simp add: takeWhile_eq_all_conv)
  with read_digits_show_nat [of n] have "foldl (\<lambda>v c. 10 * v + digit_val c) 0 (show_nat n) = n"
    by (simp only: read_digits_def)
  moreover have "takeWhile is_digit (pad_zero k (show_nat n) @ s) = pad_zero k (show_nat n)"
    using pad_digits [of k n] assms by (cases s) (simp_all add: takeWhile_append2)
  ultimately show ?thesis by (simp add: read_digits_def zeros pad_zero_def)
qed

lemma c_format_plain: "CHR ''%'' \<notin> set s \<Longrightarrow> c_format s args = Some s"
  by (induction s args rule: c_format.induct) auto

lemma c_format_append:
  "CHR ''%'' \<notin> set s \<Longrightarrow> c_format (s @ fmt) args = map_option ((@) s) (c_format fmt args)"
proof (induction s)
  case Nil
  then show ?case by (simp add: option.map_ident)
next
  case (Cons c s)
  then show ?case
    by (cases "s @ fmt") (auto simp: option.map_comp o_def)
qed

lemma c_format_directive:
  "d \<noteq> CHR ''%'' \<Longrightarrow> c_format (CHR ''%'' # d # fmt) (a # as) =
     (case show_arg d a of None \<Rightarrow> None | Some s \<Rightarrow> map_option ((@) s) (c_format fmt as))"
  by simp

lemma sprintf_s_overflow:
  "c_format fmt args = Some s \<Longrightarrow> cap \<le> length s \<Longrightarrow> sprintf_s cap fmt args = Inl InvalidParameter"
  by (simp add: sprintf_s_def)

lemma sprintf_s_fits:
  "c_format fmt args = Some s \<Longrightarrow> length s < cap \<Longrightarrow> sprintf_s cap fmt args = Inr s"
  by (simp add: sprintf_s_def)

section \<open>Counting the elements of a list that satisfy a predicate\<close>

definition cnt :: "('a \<Rightarrow> bool) \<Rightarrow> 'a list \<Rightarrow> nat" where
  "cnt P xs = length (filter P xs)"

lemma cnt_simps [simp]:
  "cnt P [] = 0"
  "cnt P (x # xs) = (if P x then Suc (cnt P xs) else cnt P xs)"
  "cnt P (xs @ ys) = cnt P xs + cnt P ys"
  by (simp_all add: cnt_def)

lemma cnt_update:
  "i < length xs \<Longrightarrow>
     cnt P (xs[i := v]) + (if P (xs ! i) then 1 else 0) = cnt P xs + (if P v then 1 else 0)"
proof (induction xs arbitrary: i)
  case (Cons x xs)
  then show ?case by (cases i) auto
qed simp

lemma cnt_pos: "i < length xs \<Longrightarrow> P (xs ! i) \<Longrightarrow> 0 < cnt P xs"
  by (auto simp: cnt_def filter_empty_conv)

lemma cnt_le_length: "cnt P xs \<le> length xs"
  by (simp add: cnt_def)

lemma cnt_zero: "cnt P xs = 0 \<longleftrightarrow> (\<forall>x \<in> set xs. \<not> P x)"
  by (simp add: cnt_def filter_empty_conv)

lemma cnt_le_one_unique:
  assumes "cnt P xs \<le> 1" "i < length xs" "j < length xs" "P (xs ! i)" "P (xs ! j)"
  shows "i = j"
proof (rule ccontr)
  assume ne: "i \<noteq> j"
  have "card {i, j} \<le> card {k. k < length xs \<and> P (xs ! k)}"
    using assms by (intro card_mono) auto
  with ne assms(1) show False by (simp add: cnt_def length_filter_conv_card)
qed

end
