(* ===== verification/Matching.thy ===== *)
theory Matching
  imports Prelude
begin

text \<open>
  The output matcher of src/Judger/Excuter.cpp: \<open>Matcher::isWhiteSpace\<close> and the two-cursor
  comparison \<open>Matcher::compare\<close> of the expected output (\<open>srcBuffer\<close>) with the output of the
  submitted program (\<open>dstBuffer\<close>).  The loops are index loops as in the source; the proofs go
  through a comparison of the unread suffixes.  The result is that the verdict is a
  function of two normal forms of the texts: the text without white space, and the text
  without carriage returns in front of a line feed.
\<close>

section \<open>The code\<close>

abbreviation CR :: char where "CR \<equiv> CHR 0x0D"
abbreviation LF :: char where "LF \<equiv> CHR 0x0A"

definition MATCHER_ACCEPT :: int where "MATCHER_ACCEPT = 0"
definition MATCHER_WRONG_ARGS :: int where "MATCHER_WRONG_ARGS = 1"
definition MATCHER_NOT_EXIST_SRC :: int where "MATCHER_NOT_EXIST_SRC = 2"
definition MATCHER_NOT_EXIST_DEST :: int where "MATCHER_NOT_EXIST_DEST = 3"
definition MATCHER_WRONG_ANWSER :: int where "MATCHER_WRONG_ANWSER = 4"
definition MATCHER_PRESENT_ERROR :: int where "MATCHER_PRESENT_ERROR = 5"

lemmas matcher_codes =
  MATCHER_ACCEPT_def MATCHER_WRONG_ARGS_def MATCHER_NOT_EXIST_SRC_def
  MATCHER_NOT_EXIST_DEST_def MATCHER_WRONG_ANWSER_def MATCHER_PRESENT_ERROR_def

definition whiteSpaces :: tstring where
  "whiteSpaces = [CHR 0x20, CHR 0x09, CHR 0x0D, CHR 0x0A]"

definition Matcher_isWhiteSpace :: "char \<Rightarrow> bool" where
  "Matcher_isWhiteSpace ch \<longleftrightarrow> ch = CHR 0x00 \<or> find_first_of ch whiteSpaces \<noteq> None"

text \<open>The two loops that run over what is left of one buffer, and the main loop.\<close>

function compare_dst_tail :: "tstring \<Rightarrow> nat \<Rightarrow> int \<Rightarrow> int" where
  "compare_dst_tail dst k result =
     (if k < length dst
      then if \<not> Matcher_isWhiteSpace (dst ! k) then MATCHER_WRONG_ANWSER
           else compare_dst_tail dst (k + 1) MATCHER_PRESENT_ERROR
      else result)"
  by pat_completeness auto
termination
  by (relation "measure (\<lambda>(dst, k, r). length dst - k)") auto

function compare_src_tail :: "tstring \<Rightarrow> tstring \<Rightarrow> nat \<Rightarrow> nat \<Rightarrow> int \<Rightarrow> int" where
  "compare_src_tail src dst i k result =
     (if i < length src
      then if \<not> Matcher_isWhiteSpace (src ! i) then MATCHER_WRONG_ANWSER
           else compare_src_tail src dst (i + 1) k MATCHER_PRESENT_ERROR
      else compare_dst_tail dst k result)"
  by pat_completeness auto
termination
  by (relation "measure (\<lambda>(src, dst, i, k, r). length src - i)") auto

function compare_loop :: "tstring \<Rightarrow> tstring \<Rightarrow> nat \<Rightarrow> nat \<Rightarrow> int \<Rightarrow> int" where
  "compare_loop src dst i k result =
     (if i < length src \<and> k < length dst
      then let srcChr = src ! i; dstChr = dst ! k
           in if srcChr = dstChr then compare_loop src dst (i + 1) (k + 1) result
              else if srcChr = CR \<and> dstChr = LF then compare_loop src dst (i + 1) k result
              else if dstChr = CR \<and> srcChr = LF then compare_loop src dst i (k + 1) result
              else if Matcher_isWhiteSpace srcChr
                then compare_loop src dst (i + 1) k MATCHER_PRESENT_ERROR
              else if Matcher_isWhiteSpace dstChr
                then compare_loop src dst i (k + 1) MATCHER_PRESENT_ERROR
              else MATCHER_WRONG_ANWSER
      else compare_src_tail src dst i k result)"
  by pat_completeness auto
termination
  by (relation "measure (\<lambda>(src, dst, i, k, r). (length src - i) + (length dst - k))") auto

declare compare_dst_tail.simps [simp del] compare_src_tail.simps [simp del]
  compare_loop.simps [simp del]

definition Matcher_compare :: "tstring \<Rightarrow> tstring \<Rightarrow> int" where
  "Matcher_compare srcBuffer dstBuffer = compare_loop srcBuffer dstBuffer 0 0 MATCHER_ACCEPT"

section \<open>Comparison of the unread suffixes\<close>

fun cmp :: "tstring \<Rightarrow> tstring \<Rightarrow> int \<Rightarrow> int" where
  "cmp [] [] r = r"
| "cmp (x # xs) [] r =
     (if Matcher_isWhiteSpace x then cmp xs [] MATCHER_PRESENT_ERROR else MATCHER_WRONG_ANWSER)"
| "cmp [] (y # ys) r =
     (if Matcher_isWhiteSpace y then cmp [] ys MATCHER_PRESENT_ERROR else MATCHER_WRONG_ANWSER)"
| "cmp (x # xs) (y # ys) r =
     (if x = y then cmp xs ys r
      else if x = CR \<and> y = LF then cmp xs (y # ys) r
      else if y = CR \<and> x = LF then cmp (x # xs) ys r
      else if Matcher_isWhiteSpace x then cmp xs (y # ys) MATCHER_PRESENT_ERROR
      else if Matcher_isWhiteSpace y then cmp (x # xs) ys MATCHER_PRESENT_ERROR
      else MATCHER_WRONG_ANWSER)"

lemma compare_dst_tail_cmp: "compare_dst_tail dst k r = cmp [] (drop k dst) r"
proof (induction dst k r rule: compare_dst_tail.induct)
  case (1 dst k r)
  then show ?case
    by (cases "k < length dst") (auto simp: compare_dst_tail.simps [of dst k r]
        Cons_nth_drop_Suc [symmetric])
qed

lemma compare_src_tail_cmp:
  "i \<ge> length src \<or> k \<ge> length dst \<Longrightarrow>
     compare_src_tail src dst i k r = cmp (drop i src) (drop k dst) r"
proof (induction src dst i k r rule: compare_src_tail.induct)
  case (1 src dst i k r)
  then show ?case
    by (cases "i < length src") (auto simp: compare_src_tail.simps [of src dst i k r]
        Cons_nth_drop_Suc [symmetric] compare_dst_tail_cmp)
qed

lemma compare_loop_cmp: "compare_loop src dst i k r = cmp (drop i src) (drop k dst) r"
proof (induction src dst i k r rule: compare_loop.induct)
  case (1 src dst i k r)
  show ?case
  proof (cases "i < length src \<and> k < length dst")
    case True
    then have "drop i src = src ! i # drop (Suc i) src" "drop k dst = dst ! k # drop (Suc k) dst"
      by (simp_all add: Cons_nth_drop_Suc)
    with 1 True show ?thesis
      by (simp add: compare_loop.simps [of src dst i k r] Let_def)
  next
    case False
    then show ?thesis
      by (subst compare_loop.simps) (auto simp: compare_src_tail_cmp)
  qed
qed

lemma Matcher_compare_cmp: "Matcher_compare s d = cmp s d MATCHER_ACCEPT"
  by (simp add: Matcher_compare_def compare_loop_cmp)

section \<open>The normal forms and the specification of the verdict\<close>

definition nonws :: "tstring \<Rightarrow> tstring" where
  "nonws = filter (\<lambda>c. \<not> Matcher_isWhiteSpace c)"

definition before_LF :: "tstring \<Rightarrow> bool" where
  "before_LF cs = (case dropWhile (\<lambda>c. c = CR) cs of [] \<Rightarrow> False | c # _ \<Rightarrow> c = LF)"

text \<open>\<open>crnorm\<close> drops every carriage return of a run that ends in a line feed.\<close>

fun crnorm :: "tstring \<Rightarrow> tstring" where
  "crnorm [] = []"
| "crnorm (c # cs) = (if c = CR \<and> before_LF cs then crnorm cs else c # crnorm cs)"

definition verdict_spec :: "tstring \<Rightarrow> tstring \<Rightarrow> int" where
  "verdict_spec s d =
     (if nonws s \<noteq> nonws d then MATCHER_WRONG_ANWSER
      else if crnorm s = crnorm d then MATCHER_ACCEPT
      else MATCHER_PRESENT_ERROR)"

lemma ws_CR_LF [simp]: "Matcher_isWhiteSpace CR" "Matcher_isWhiteSpace LF"
  by (simp_all add: Matcher_isWhiteSpace_def whiteSpaces_def)

lemma nonws_simps [simp]:
  "nonws [] = []"
  "nonws (x # xs) = (if Matcher_isWhiteSpace x then nonws xs else x # nonws xs)"
  "nonws (xs @ ys) = nonws xs @ nonws ys"
  by (simp_all add: nonws_def)

lemma before_LF_simps [simp]:
  "\<not> before_LF []"
  "before_LF (c # cs) \<longleftrightarrow> c = LF \<or> c = CR \<and> before_LF cs"
  by (auto simp: before_LF_def)

lemma crnorm_hd: "before_LF cs \<longleftrightarrow> (\<exists>t. crnorm cs = LF # t)"
  by (induction cs) auto

lemma crnorm_CR_eq:
  "crnorm (CR # xs) = crnorm (CR # ys) \<longleftrightarrow> crnorm xs = crnorm ys"
  using crnorm_hd [of xs] crnorm_hd [of ys] by auto

lemma crnorm_CR_LF:
  "crnorm (CR # xs) = crnorm (LF # ys) \<longleftrightarrow> crnorm xs = crnorm (LF # ys)"
  using crnorm_hd [of xs] by auto

lemma crnorm_Cons_cases:
  obtains t where "crnorm (x # xs) = x # t"
  | t where "x = CR" "crnorm (x # xs) = LF # t"
  using crnorm_hd [of xs] by (cases "x = CR \<and> before_LF xs") auto

lemma crnorm_Cons_neq:
  assumes "x \<noteq> y" "\<not> (x = CR \<and> y = LF)" "\<not> (y = CR \<and> x = LF)"
  shows "crnorm (x # xs) \<noteq> crnorm (y # ys)"
  using assms by (cases rule: crnorm_Cons_cases [of x xs]; cases rule: crnorm_Cons_cases [of y ys]) auto

lemma nonws_crnorm: "nonws (crnorm s) = nonws s"
  by (induction s) auto

lemma cmp_present:
  "cmp s d MATCHER_PRESENT_ERROR =
     (if nonws s = nonws d then MATCHER_PRESENT_ERROR else MATCHER_WRONG_ANWSER)"
  by (induction s d MATCHER_PRESENT_ERROR rule: cmp.induct) auto

lemma cmp_accept: "cmp s d MATCHER_ACCEPT = verdict_spec s d"
proof (induction s d MATCHER_ACCEPT rule: cmp.induct)
  case (2 x xs)
  have "crnorm (x # xs) \<noteq> []" by (cases rule: crnorm_Cons_cases [of x xs]) auto
  then show ?case by (simp add: cmp_present verdict_spec_def del: crnorm.simps(2))
next
  case (3 y ys)
  have "crnorm (y # ys) \<noteq> []" by (cases rule: crnorm_Cons_cases [of y ys]) auto
  then show ?case by (simp add: cmp_present verdict_spec_def del: crnorm.simps(2))
next
  case (4 x xs y ys)
  consider (same) "x = y" | (crlf) "x = CR" "y = LF" | (lfcr) "y = CR" "x = LF"
    | (diff) "x \<noteq> y" "\<not> (x = CR \<and> y = LF)" "\<not> (y = CR \<and> x = LF)"
    by blast
  then show ?case
  proof cases
    case same
    have "crnorm (x # xs) = crnorm (x # ys) \<longleftrightarrow> crnorm xs = crnorm ys"
      by (cases "x = CR") (use crnorm_CR_eq in auto)
    with same 4 show ?thesis
      by (simp add: verdict_spec_def del: crnorm.simps(2))
  next
    case crlf
    with 4 show ?thesis
      by (simp add: verdict_spec_def crnorm_CR_LF del: crnorm.simps(2))
  next
    case lfcr
    have "crnorm (LF # xs) = crnorm (CR # ys) \<longleftrightarrow> crnorm (LF # xs) = crnorm ys"
      using crnorm_CR_LF [of ys xs] by metis
    with lfcr 4 show ?thesis
      by (simp add: verdict_spec_def del: crnorm.simps(2))
  next
    case diff
    with crnorm_Cons_neq [OF diff, of xs ys] show ?thesis
      by (auto simp: verdict_spec_def cmp_present simp del: crnorm.simps(2))
  qed
qed (simp_all add: verdict_spec_def)

lemma verdict_spec_sym: "verdict_spec s d = verdict_spec d s"
  by (auto simp: verdict_spec_def)

lemma verdict_spec_refl: "verdict_spec s s = MATCHER_ACCEPT"
  by (simp add: verdict_spec_def)

lemma verdict_spec_trans:
  "verdict_spec s d = MATCHER_ACCEPT \<Longrightarrow> verdict_spec d e = MATCHER_ACCEPT \<Longrightarrow>
     verdict_spec s e = MATCHER_ACCEPT"
  by (auto simp: verdict_spec_def matcher_codes split: if_splits)

lemma compare_is_verdict: "Matcher_compare s d = verdict_spec s d"
  by (simp add: Matcher_compare_cmp cmp_accept)

section \<open>Properties of the matcher\<close>

text \<open>
  C1: the comparison is total and its verdict is the specified one.  It is wrong answer
  exactly when the texts differ outside white space, accept exactly when they are equal up
  to carriage returns before a line feed, and presentation error in the remaining cases.
\<close>

theorem Matcher_compare_spec: "Matcher_compare s d = verdict_spec s d"
  by (rule compare_is_verdict)

end
