(* ===== verification/Platform.thy ===== *)
theory Platform
  imports Prelude
begin

text \<open>
  The operating system as the sources call it.  Win32 and the C++ streams are not part of
  src/, so each call is a field of a record of functions on a world of type \<open>'w\<close>, and every
  definition that makes system calls takes that record as its argument.  The second half holds
  a small in-memory file system with the documented behaviour, on which the statements about
  files are instantiated.
\<close>

section \<open>Handles, codes and data of the calls\<close>

type_synonym HANDLE = int
type_synonym DWORD = "32 word"

definition NULL_HANDLE :: HANDLE where "NULL_HANDLE = 0"
definition INVALID_HANDLE_VALUE :: HANDLE where "INVALID_HANDLE_VALUE = - 1"
definition ERROR_FILE_NOT_FOUND :: DWORD where "ERROR_FILE_NOT_FOUND = 2"
definition FILE_ATTRIBUTE_DEVICE :: DWORD where "FILE_ATTRIBUTE_DEVICE = 0x40"
definition FILE_ATTRIBUTE_DIRECTORY :: DWORD where "FILE_ATTRIBUTE_DIRECTORY = 0x10"
definition STILL_ACTIVE :: DWORD where "STILL_ACTIVE = 259"
definition INFINITE :: int where "INFINITE = - 1"

record find_data =
  dwFileAttributes :: DWORD
  cFileName :: tstring

datatype access = GENERIC_READ | GENERIC_WRITE

section \<open>File calls\<close>

text \<open>
  \<open>FindFirstFile\<close> yields the entries that match a pattern, in the order the later
  \<open>FindNextFile\<close> calls deliver them.  \<open>open_text\<close> and \<open>open_binary\<close> open an input
  stream and yield the characters it delivers together with the position of its end;
  \<open>write_file\<close> opens an output stream, and answers whether that succeeded.
\<close>

record 'w file_api =
  GetFileAttributes :: "tstring \<Rightarrow> 'w \<Rightarrow> int \<times> 'w"
  DeleteFile :: "tstring \<Rightarrow> 'w \<Rightarrow> bool \<times> 'w"
  CreateDirectory :: "tstring \<Rightarrow> 'w \<Rightarrow> bool \<times> 'w"
  GetLastError :: "'w \<Rightarrow> DWORD \<times> 'w"
  Sleep :: "int \<Rightarrow> 'w \<Rightarrow> unit \<times> 'w"
  FindFirstFile :: "tstring \<Rightarrow> 'w \<Rightarrow> find_data list \<times> 'w"
  open_text :: "tstring \<Rightarrow> 'w \<Rightarrow> (tstring \<times> int) option \<times> 'w"
  open_binary :: "tstring \<Rightarrow> 'w \<Rightarrow> (tstring \<times> int) option \<times> 'w"
  write_file :: "tstring \<Rightarrow> string \<Rightarrow> 'w \<Rightarrow> bool \<times> 'w"
  SetCurrentDirectory :: "tstring \<Rightarrow> 'w \<Rightarrow> bool \<times> 'w"
  GetModuleFileName :: "'w \<Rightarrow> tstring \<times> 'w"

section \<open>Process calls\<close>

record startup_info =
  hStdInput :: HANDLE
  hStdOutput :: HANDLE
  hStdError :: HANDLE

datatype debug_event =
    CREATE_PROCESS_DEBUG_EVENT HANDLE
  | EXCEPTION_DEBUG_EVENT DWORD bool
  | EXIT_PROCESS_DEBUG_EVENT DWORD
  | OTHER_DEBUG_EVENT

datatype job_info =
    ExtendedLimitInformation int int
  | EndOfJobTimeInformation
  | BasicUIRestrictions
  | AssociateCompletionPort int HANDLE

text \<open>The identifier that the system creates.\<close>

record GUID =
  Data1 :: "32 word"
  Data2 :: "16 word"
  Data3 :: "16 word"
  Data4 :: "8 word list"

record 'w process_api = "'w file_api" +
  CreateFile :: "tstring \<Rightarrow> access \<Rightarrow> 'w \<Rightarrow> HANDLE \<times> 'w"
  CloseHandle :: "HANDLE \<Rightarrow> 'w \<Rightarrow> bool \<times> 'w"
  CreateProcess :: "string \<Rightarrow> bool \<Rightarrow> DWORD \<Rightarrow> startup_info \<Rightarrow> 'w \<Rightarrow> (HANDLE \<times> HANDLE) option \<times> 'w"
  ResumeThread :: "HANDLE \<Rightarrow> 'w \<Rightarrow> DWORD \<times> 'w"
  TerminateProcess :: "HANDLE \<Rightarrow> DWORD \<Rightarrow> 'w \<Rightarrow> bool \<times> 'w"
  GetExitCodeProcess :: "HANDLE \<Rightarrow> 'w \<Rightarrow> DWORD option \<times> 'w"
  WaitForSingleObject :: "HANDLE \<Rightarrow> DWORD \<Rightarrow> 'w \<Rightarrow> DWORD \<times> 'w"
  GetProcessTimes :: "HANDLE \<Rightarrow> 'w \<Rightarrow> (DWORD \<times> DWORD) \<times> 'w"
  GetProcessMemoryInfo :: "HANDLE \<Rightarrow> 'w \<Rightarrow> 64 word option \<times> 'w"
  WaitForDebugEvent :: "'w \<Rightarrow> debug_event option \<times> 'w"
  ContinueDebugEvent :: "DWORD \<Rightarrow> 'w \<Rightarrow> bool \<times> 'w"
  DebugSetProcessKillOnExit :: "bool \<Rightarrow> 'w \<Rightarrow> bool \<times> 'w"
  DebugActiveProcessStop :: "'w \<Rightarrow> bool \<times> 'w"
  CreateJobObject :: "tstring \<Rightarrow> 'w \<Rightarrow> HANDLE \<times> 'w"
  CoCreateGuid :: "'w \<Rightarrow> GUID option \<times> 'w"
  SetInformationJobObject :: "HANDLE \<Rightarrow> job_info \<Rightarrow> 'w \<Rightarrow> bool \<times> 'w"
  AssignProcessToJobObject :: "HANDLE \<Rightarrow> HANDLE \<Rightarrow> 'w \<Rightarrow> bool \<times> 'w"
  TerminateJobObject :: "HANDLE \<Rightarrow> DWORD \<Rightarrow> 'w \<Rightarrow> bool \<times> 'w"
  CreateIoCompletionPort :: "'w \<Rightarrow> HANDLE \<times> 'w"
  GetQueuedCompletionStatus :: "HANDLE \<Rightarrow> 'w \<Rightarrow> DWORD option \<times> 'w"
  QueryJobTime :: "HANDLE \<Rightarrow> 'w \<Rightarrow> DWORD \<times> 'w"
  QueryJobMemory :: "HANDLE \<Rightarrow> 'w \<Rightarrow> DWORD \<times> 'w"

text \<open>\<open>SAFE_CLOSE_HANDLE\<close> of Comm.h closes a handle that is not null and clears the variable.\<close>

definition SAFE_CLOSE_HANDLE :: "('w, 'x) process_api_scheme \<Rightarrow> HANDLE \<Rightarrow> 'w \<Rightarrow> HANDLE \<times> 'w" where
  "SAFE_CLOSE_HANDLE api h w =
     (if h \<noteq> NULL_HANDLE then (NULL_HANDLE, snd (CloseHandle api h w)) else (h, w))"

lemma SAFE_CLOSE_HANDLE_null [simp]: "fst (SAFE_CLOSE_HANDLE api h w) = NULL_HANDLE"
  by (simp add: SAFE_CLOSE_HANDLE_def)

section \<open>An in-memory file system\<close>

text \<open>
  Files by name, directories, the names another process holds open (these cannot be
  deleted), the last error code, and the time slept so far in milliseconds.
\<close>

record mem_fs =
  fs_files :: "(tstring \<times> string) list"
  fs_dirs :: "tstring list"
  fs_locked :: "tstring list"
  fs_error :: DWORD
  fs_clock :: int

definition fs_names :: "'a mem_fs_scheme \<Rightarrow> tstring list" where
  "fs_names w = map fst (fs_files w) @ fs_dirs w"

definition fs_delete :: "tstring \<Rightarrow> 'a mem_fs_scheme \<Rightarrow> bool \<times> 'a mem_fs_scheme" where
  "fs_delete n w =
     (if map_of (fs_files w) n = None then (False, w\<lparr>fs_error := ERROR_FILE_NOT_FOUND\<rparr>)
      else if n \<in> set (fs_locked w) then (False, w\<lparr>fs_error := 32\<rparr>)
      else (True, w\<lparr>fs_files := filter (\<lambda>p. fst p \<noteq> n) (fs_files w)\<rparr>))"

definition fs_open :: "tstring \<Rightarrow> 'a mem_fs_scheme \<Rightarrow> (tstring \<times> int) option \<times> 'a mem_fs_scheme" where
  "fs_open n w =
     (map_option (\<lambda>s. (s, int (length s))) (map_of (fs_files w) n), w)"

text \<open>A pattern is a directory, one star and a suffix; the search delivers names in that directory.\<close>

definition fs_match :: "tstring \<Rightarrow> tstring \<Rightarrow> tstring option" where
  "fs_match p n =
     (case find_first_of (CHR ''*'') p of
        None \<Rightarrow> if n = p then Some n else None
      | Some i \<Rightarrow>
          (let d = take i p; s = drop (i + 1) p; k = length n - length s
           in if length d + length s \<le> length n \<and> take i n = d \<and> drop k n = s
              then Some (drop i n) else None))"

fun fs_matches :: "DWORD \<Rightarrow> tstring \<Rightarrow> tstring list \<Rightarrow> find_data list" where
  "fs_matches a p [] = []"
| "fs_matches a p (n # ns) =
     (case fs_match p n of
        None \<Rightarrow> fs_matches a p ns
      | Some m \<Rightarrow> \<lparr>dwFileAttributes = a, cFileName = m\<rparr> # fs_matches a p ns)"

definition fs_find :: "tstring \<Rightarrow> 'a mem_fs_scheme \<Rightarrow> find_data list" where
  "fs_find p w = fs_matches FILE_ATTRIBUTE_DIRECTORY p (fs_dirs w) @
     fs_matches 0x20 p (map fst (fs_files w))"

definition mem_files :: "'a mem_fs_scheme file_api" where
  "mem_files =
     \<lparr>GetFileAttributes = \<lambda>n w. (if n \<in> set (fs_names w) then 0x20 else - 1, w),
      DeleteFile = fs_delete,
      CreateDirectory = \<lambda>n w. (n \<notin> set (fs_names w), w\<lparr>fs_dirs := n # fs_dirs w\<rparr>),
      GetLastError = \<lambda>w. (fs_error w, w),
      Sleep = \<lambda>t w. ((), w\<lparr>fs_clock := fs_clock w + t\<rparr>),
      FindFirstFile = \<lambda>p w. (fs_find p w, w),
      open_text = fs_open,
      open_binary = fs_open,
      write_file = \<lambda>n s w. (True, w\<lparr>fs_files := (n, s) # fs_files w\<rparr>),
      SetCurrentDirectory = \<lambda>n w. (True, w),
      GetModuleFileName = \<lambda>w. (''judger.exe'', w)\<rparr>"

definition mem_fs_new :: "(tstring \<times> string) list \<Rightarrow> mem_fs" where
  "mem_fs_new fs = \<lparr>fs_files = fs, fs_dirs = [], fs_locked = [], fs_error = 0, fs_clock = 0\<rparr>"

section \<open>A scripted process\<close>

text \<open>
  One process whose observable behaviour is a script: the debug events, the messages of the
  job, and the answers to consecutive queries of exit code, time and memory.  The last answer of
  a query list is repeated.
\<close>

record mem_os = mem_fs +
  os_events :: "debug_event list"
  os_messages :: "DWORD list"
  os_codes :: "DWORD list"
  os_times :: "DWORD list"
  os_memory :: "64 word list"
  os_killed :: bool

definition script_rest :: "'b list \<Rightarrow> 'b list" where
  "script_rest xs = (if tl xs = [] then xs else tl xs)"

definition mem_processes :: "'a mem_os_scheme process_api" where
  "mem_processes = file_api.extend mem_files
     \<lparr>CreateFile = \<lambda>n a w.
        (case a of
           GENERIC_READ \<Rightarrow> (if map_of (fs_files w) n = None then INVALID_HANDLE_VALUE else 10, w)
         | GENERIC_WRITE \<Rightarrow> (11, w\<lparr>fs_files := (n, []) # filter (\<lambda>p. fst p \<noteq> n) (fs_files w)\<rparr>)),
      CloseHandle = \<lambda>h w. (True, w),
      CreateProcess = \<lambda>c i f si w. (Some (20, 21), w),
      ResumeThread = \<lambda>h w. (1, w),
      TerminateProcess = \<lambda>h c w. (True, w\<lparr>os_killed := True, os_codes := [c]\<rparr>),
      GetExitCodeProcess = \<lambda>h w. (Some (hd (os_codes w)), w\<lparr>os_codes := script_rest (os_codes w)\<rparr>),
      WaitForSingleObject = \<lambda>h t w. (0, w),
      GetProcessTimes = \<lambda>h w. ((0, hd (os_times w)), w\<lparr>os_times := script_rest (os_times w)\<rparr>),
      GetProcessMemoryInfo = \<lambda>h w.
        (Some (hd (os_memory w)), w\<lparr>os_memory := script_rest (os_memory w)\<rparr>),
      WaitForDebugEvent = \<lambda>w.
        (case os_events w of [] \<Rightarrow> (None, w) | e # es \<Rightarrow> (Some e, w\<lparr>os_events := es\<rparr>)),
      ContinueDebugEvent = \<lambda>s w. (True, w),
      DebugSetProcessKillOnExit = \<lambda>b w. (True, w),
      DebugActiveProcessStop = \<lambda>w. (True, w),
      CreateJobObject = \<lambda>n w. (30, w),
      CoCreateGuid = \<lambda>w. (Some \<lparr>Data1 = 1, Data2 = 2, Data3 = 3, Data4 = replicate 8 4\<rparr>, w),
      SetInformationJobObject = \<lambda>h i w. (True, w),
      AssignProcessToJobObject = \<lambda>j h w. (True, w),
      TerminateJobObject = \<lambda>j c w. (True, w),
      CreateIoCompletionPort = \<lambda>w. (31, w),
      GetQueuedCompletionStatus = \<lambda>h w.
        (case os_messages w of [] \<Rightarrow> (None, w) | m # ms \<Rightarrow> (Some m, w\<lparr>os_messages := ms\<rparr>)),
      QueryJobTime = \<lambda>h w. (hd (os_times w), w),
      QueryJobMemory = \<lambda>h w. (ucast (hd (os_memory w)), w)\<rparr>"

definition mem_os_new ::
    "(tstring \<times> string) list \<Rightarrow> debug_event list \<Rightarrow> DWORD list \<Rightarrow> DWORD list \<Rightarrow> 64 word list \<Rightarrow> mem_os" where
  "mem_os_new fs es cs ts ms = mem_fs.extend (mem_fs_new fs)
     \<lparr>os_events = es, os_messages = [], os_codes = cs, os_times = ts, os_memory = ms,
      os_killed = False\<rparr>"

end
