(* ===== verification/Paths.thy ===== *)
theory Paths
  imports Platform
begin

text \<open>
  File names and directories: src/acm/FileTool.cpp and Commen/FileTool.h.  Names are texts in
  which both slashes occur; \<open>formatSlash\<close> makes them backslashes.
\<close>

section \<open>Names\<close>

definition SLASH_USE :: char where "SLASH_USE = CHR 0x5C"
definition SLASH_OLD :: char where "SLASH_OLD = CHR ''/''"

definition formatSlash :: "tstring \<Rightarrow> tstring" where
  "formatSlash name = map (\<lambda>c. if c = SLASH_OLD then SLASH_USE else c) name"

definition formatDirName :: "tstring \<Rightarrow> bool \<Rightarrow> tstring" where
  "formatDirName dirName appendSlash =
     (if dirName = [] then dirName
      else let d = formatSlash dirName; lastIndex = length d - 1
           in if appendSlash then (if d ! lastIndex \<noteq> SLASH_USE then d @ [SLASH_USE] else d)
              else (if d ! lastIndex = SLASH_USE then take lastIndex d else d))"

definition getPathFile :: "tstring \<Rightarrow> tstring" where
  "getPathFile filename =
     (let tempName = formatSlash filename
      in case find_last_of SLASH_USE tempName of
           None \<Rightarrow> tempName | Some pos \<Rightarrow> drop (pos + 1) tempName)"

definition getFilePath :: "tstring \<Rightarrow> tstring" where
  "getFilePath filename =
     (let tempName = formatSlash filename
      in case find_last_of SLASH_USE tempName of
           None \<Rightarrow> '''' | Some pos \<Rightarrow> take pos tempName)"

definition getFileName :: "tstring \<Rightarrow> tstring" where
  "getFileName filename =
     (case find_last_of (CHR ''.'') filename of
        None \<Rightarrow> filename | Some pos \<Rightarrow> take pos filename)"

definition getFileExt :: "tstring \<Rightarrow> tstring" where
  "getFileExt filename =
     (case find_last_of (CHR ''.'') filename of
        None \<Rightarrow> '''' | Some pos \<Rightarrow> drop (pos + 1) filename)"

lemma length_formatSlash [simp]: "length (formatSlash n) = length n"
  by (simp add: formatSlash_def)

lemma formatSlash_idem [simp]: "formatSlash (formatSlash n) = formatSlash n"
  by (simp add: formatSlash_def SLASH_USE_def SLASH_OLD_def)

lemma formatSlash_append [simp]: "formatSlash (a @ b) = formatSlash a @ formatSlash b"
  by (simp add: formatSlash_def)

lemma formatSlash_Nil [simp]: "formatSlash [] = []" "formatSlash n = [] \<longleftrightarrow> n = []"
  by (simp_all add: formatSlash_def)

lemma formatSlash_id: "SLASH_OLD \<notin> set n \<Longrightarrow> formatSlash n = n"
  by (induction n) (auto simp: formatSlash_def)

lemma length_formatDirName_strip: "length (formatDirName d False) \<le> length d"
  by (simp add: formatDirName_def Let_def)

lemma length_getFilePath: "n \<noteq> [] \<Longrightarrow> length (getFilePath n) < length n"
proof (cases "find_last_of SLASH_USE (formatSlash n)")
  case (Some pos)
  then obtain a b where "formatSlash n = a @ SLASH_USE # b" "length a = pos"
    by (rule find_last_of_SomeE)
  then have "pos < length n" by (metis length_formatSlash length_append length_Cons
    less_add_Suc1 add_Suc_right)
  with Some show ?thesis by (simp add: getFilePath_def)
qed (simp add: getFilePath_def)

lemma formatDirName_append:
  "formatDirName d True = (if d = [] then [] else if last (formatSlash d) = SLASH_USE
     then formatSlash d else formatSlash d @ [SLASH_USE])"
  by (simp add: formatDirName_def Let_def last_conv_nth)

lemma formatDirName_ends: "d \<noteq> [] \<Longrightarrow> last (formatDirName d True) = SLASH_USE"
  by (simp add: formatDirName_append)

section \<open>File system calls\<close>

definition fileExist :: "('w, 'x) file_api_scheme \<Rightarrow> tstring \<Rightarrow> 'w \<Rightarrow> bool \<times> 'w" where
  "fileExist api name w = (let (a, w1) = GetFileAttributes api name w in (a \<noteq> - 1, w1))"

definition removeFile :: "('w, 'x) file_api_scheme \<Rightarrow> tstring \<Rightarrow> 'w \<Rightarrow> bool \<times> 'w" where
  "removeFile api name w = DeleteFile api name w"

definition makeDirDirect :: "('w, 'x) file_api_scheme \<Rightarrow> tstring \<Rightarrow> 'w \<Rightarrow> bool \<times> 'w" where
  "makeDirDirect api dir w = CreateDirectory api dir w"

text \<open>\<open>makeDir\<close> makes the missing parents first; every call is on a shorter path.\<close>

function makeDir :: "('w, 'x) file_api_scheme \<Rightarrow> tstring \<Rightarrow> 'w \<Rightarrow> bool \<times> 'w" where
  "makeDir api dir w =
     (let (found, w1) = fileExist api dir w
      in if found then (True, w1)
         else
           let tempPath = formatDirName dir False; parentPath = getFilePath tempPath
           in if parentPath = [] then makeDirDirect api tempPath w1
              else
                let (ok, w2) = makeDir api parentPath w1
                in if \<not> ok then (False, w2) else makeDirDirect api tempPath w2)"
  by pat_completeness auto
termination
proof (relation "measure (\<lambda>(api, dir, w). length dir)", goal_cases)
  case (2 api dir w p found w1 tempPath parentPath)
  then have "tempPath \<noteq> []"
    by (auto simp: getFilePath_def)
  then have "length parentPath < length tempPath"
    using 2 length_getFilePath by simp
  also have "\<dots> \<le> length dir"
    using 2 length_formatDirName_strip by simp
  finally show ?case by simp
qed simp

declare makeDir.simps [simp del]

section \<open>Searching a directory\<close>

record cFindFile =
  m_data :: find_data
  m_handle :: "find_data list option"

definition findFirst :: "('w, 'x) file_api_scheme \<Rightarrow> tstring \<Rightarrow> 'w \<Rightarrow> (bool \<times> cFindFile) \<times> 'w" where
  "findFirst api name w =
     (let (found, w1) = FindFirstFile api name w
      in case found of
           [] \<Rightarrow> ((False, \<lparr>m_data = \<lparr>dwFileAttributes = 0, cFileName = ''''\<rparr>, m_handle = None\<rparr>), w1)
         | d # ds \<Rightarrow> ((True, \<lparr>m_data = d, m_handle = Some ds\<rparr>), w1))"

definition findNext :: "cFindFile \<Rightarrow> bool \<times> cFindFile" where
  "findNext f =
     (case m_handle f of
        None \<Rightarrow> (False, f)
      | Some [] \<Rightarrow> (False, f)
      | Some (d # ds) \<Rightarrow> (True, f\<lparr>m_data := d, m_handle := Some ds\<rparr>))"

definition cFindFile_valid :: "cFindFile \<Rightarrow> bool" where
  "cFindFile_valid f \<longleftrightarrow> m_handle f \<noteq> None"

definition cFindFile_reset :: "cFindFile \<Rightarrow> cFindFile" where
  "cFindFile_reset f = (if cFindFile_valid f then f\<lparr>m_handle := None\<rparr> else f)"

lemma reset_ends: "findNext (cFindFile_reset f) = (False, cFindFile_reset f)"
  by (simp add: findNext_def cFindFile_reset_def cFindFile_valid_def)

definition isDot :: "cFindFile \<Rightarrow> bool" where
  "isDot f \<longleftrightarrow> cFileName (m_data f) = ''.'' \<or> cFileName (m_data f) = ''..''"

definition isDir :: "cFindFile \<Rightarrow> bool" where
  "isDir f \<longleftrightarrow> (and (dwFileAttributes (m_data f)) FILE_ATTRIBUTE_DEVICE) \<noteq> 0"

function findFiles_loop :: "tstring \<Rightarrow> bool \<Rightarrow> cFindFile \<Rightarrow> tstring list \<Rightarrow> tstring list" where
  "findFiles_loop path unionPath f vect =
     (let vect1 =
            (if isDot f \<or> isDir f then vect
             else if unionPath then vect @ [path @ cFileName (m_data f)]
             else vect @ [cFileName (m_data f)]);
          (goOn, f1) = findNext f
      in if goOn then findFiles_loop path unionPath f1 vect1 else vect1)"
  by pat_completeness auto
termination
  by (relation "measure (\<lambda>(p, u, f, v). case m_handle f of None \<Rightarrow> 0 | Some ds \<Rightarrow> length ds)")
    (auto simp: findNext_def split: option.splits list.splits)

declare findFiles_loop.simps [simp del]

definition findFiles ::
    "('w, 'x) file_api_scheme \<Rightarrow> tstring \<Rightarrow> tstring \<Rightarrow> bool \<Rightarrow> 'w \<Rightarrow> (bool \<times> tstring list) \<times> 'w" where
  "findFiles api path ext unionPath w =
     (let formatedPath = formatDirName path True;
          ((ok, finder), w1) = findFirst api (formatedPath @ ext) w
      in if \<not> ok then ((False, []), w1)
         else let vect = findFiles_loop formatedPath unionPath finder [] in ((vect \<noteq> [], vect), w1))"

text \<open>
  \<open>readFileBuffer\<close> of FileTool.cpp sizes the buffer by the end position and cuts it to the
  number of characters the stream delivered.
\<close>

definition readFileBuffer ::
    "('w, 'x) file_api_scheme \<Rightarrow> tstring \<Rightarrow> bool \<Rightarrow> ('w, tstring option) eff" where
  "readFileBuffer api fname isBinary w =
     (let (r, w1) = (if isBinary then open_binary api fname w else open_text api fname w)
      in case r of
           None \<Rightarrow> Inr (None, w1)
         | Some (chars, len) \<Rightarrow>
             if len + 1 \<le> 0 then Inl OutOfRange else Inr (Some (take (nat len) chars), w1))"

section \<open>What a search delivers\<close>

definition wanted :: "find_data \<Rightarrow> bool" where
  "wanted d \<longleftrightarrow> cFileName d \<noteq> ''.'' \<and> cFileName d \<noteq> ''..'' \<and>
     and (dwFileAttributes d) FILE_ATTRIBUTE_DEVICE = 0"

lemma wanted_found: "wanted (m_data f) \<longleftrightarrow> \<not> isDot f \<and> \<not> isDir f"
  by (simp add: wanted_def isDot_def isDir_def)

lemma findFiles_loop_spec:
  "m_handle f = Some ds \<Longrightarrow> findFiles_loop p u f v =
     v @ map (\<lambda>d. (if u then p else []) @ cFileName d) (filter wanted (m_data f # ds))"
proof (induction ds arbitrary: f v)
  case Nil
  then show ?case
    by (subst findFiles_loop.simps) (simp add: findNext_def wanted_found)
next
  case (Cons d ds)
  then have "findNext f = (True, f\<lparr>m_data := d, m_handle := Some ds\<rparr>)"
    by (simp add: findNext_def)
  then show ?case
    by (subst findFiles_loop.simps)
      (simp add: Cons.IH wanted_found)
qed

lemma findFiles_spec:
  assumes "FindFirstFile api (formatDirName path True @ ext) w = (ds, w1)"
  shows "findFiles api path ext u w =
     (let v = map (\<lambda>d. (if u then formatDirName path True else []) @ cFileName d) (filter wanted ds)
      in ((v \<noteq> [], v), w1))"
  using assms
  by (cases ds) (simp_all add: findFiles_def findFirst_def findFiles_loop_spec Let_def)

section \<open>Properties\<close>

lemma getFilePath_getPathFile:
  assumes "SLASH_USE \<in> set (formatSlash f)"
  shows "getFilePath f @ SLASH_USE # getPathFile f = formatSlash f \<and> SLASH_USE \<notin> set (getPathFile f)"
proof (cases "find_last_of SLASH_USE (formatSlash f)")
  case None
  with assms show ?thesis by (simp add: find_last_of_None)
next
  case (Some pos)
  then obtain a b where "formatSlash f = a @ SLASH_USE # b" "length a = pos" "SLASH_USE \<notin> set b"
    by (rule find_last_of_SomeE)
  with Some show ?thesis by (simp add: getFilePath_def getPathFile_def)
qed

lemma getFileName_getFileExt:
  assumes "CHR ''.'' \<in> set f"
  shows "getFileName f @ CHR ''.'' # getFileExt f = f \<and> CHR ''.'' \<notin> set (getFileExt f)"
proof (cases "find_last_of (CHR ''.'') f")
  case None
  with assms show ?thesis by (simp add: find_last_of_None)
next
  case (Some pos)
  then obtain a b where "f = a @ CHR ''.'' # b" "length a = pos" "CHR ''.'' \<notin> set b"
    by (rule find_last_of_SomeE)
  with Some show ?thesis by (simp add: getFileName_def getFileExt_def)
qed

lemma getFileName_dot:
  "CHR ''.'' \<notin> set e \<Longrightarrow> getFileName (n @ CHR ''.'' # e) = n"
  by (simp add: getFileName_def find_last_of_split)

text \<open>
  A name is its directory, a backslash and its last component; and it is its stem, a dot
  and its extension: cutting a name loses nothing but the kind of slash.
\<close>

theorem path_parts:
  assumes "SLASH_USE \<in> set (formatSlash f)" and "CHR ''.'' \<in> set f"
  shows "getFilePath f @ SLASH_USE # getPathFile f = formatSlash f \<and>
    getFileName f @ CHR ''.'' # getFileExt f = f \<and> SLASH_USE \<notin> set (getPathFile f)"
  using assms getFilePath_getPathFile getFileName_getFileExt by blast

theorem path_parts_witness:
  "getFilePath ''data/1000/1.out'' @ SLASH_USE # getPathFile ''data/1000/1.out''
     = formatSlash ''data/1000/1.out'' \<and>
   getFileName ''data/1000/1.out'' @ CHR ''.'' # getFileExt ''data/1000/1.out'' = ''data/1000/1.out'' \<and>
   SLASH_USE \<notin> set (getPathFile ''data/1000/1.out'')"
  by (rule path_parts) (simp_all add: formatSlash_def SLASH_USE_def SLASH_OLD_def)

text \<open>
  \<open>getFileName\<close> cuts at the last dot of the whole path: for a file without an extension in a
  directory with a dot it gives a cut directory name.
\<close>

theorem getFileName_cuts_directory:
  assumes "CHR ''.'' \<notin> set e" and "CHR ''.'' \<notin> set base"
  shows "getFileName (d @ CHR ''.'' # e @ SLASH_USE # base) = d"
  using assms by (intro getFileName_dot) (auto simp: SLASH_USE_def)

theorem getFileName_cuts_directory_witness:
  "getFileName (''data'' @ CHR ''.'' # ''d'' @ SLASH_USE # ''test'') = ''data''"
  by (rule getFileName_cuts_directory) simp_all

end
