(* ===== verification/Directories.thy ===== *)
theory Directories
  imports Paths
begin

text \<open>
  What \<open>makeDir\<close> of src/acm/FileTool.cpp achieves, over the documented behaviour of the two calls it
  makes.  Names are those the judge uses: components with one slash of either kind between them.
\<close>

section \<open>Names of directories\<close>

text \<open>The name that a directory is known by: backslashes, and none at the end.\<close>

definition dir_key :: "tstring \<Rightarrow> tstring" where
  "dir_key d = formatDirName d False"

text \<open>A name of components, each but the last followed by one slash; a slash may follow the last.\<close>

definition plain_name :: "tstring \<Rightarrow> bool" where
  "plain_name n \<longleftrightarrow> n \<noteq> [] \<and> hd n \<noteq> SLASH_USE \<and> last n \<noteq> SLASH_USE \<and> SLASH_OLD \<notin> set n \<and>
     (\<forall>a b. n \<noteq> a @ SLASH_USE # SLASH_USE # b)"

text \<open>A directory and the directories it lies in.\<close>

function parents :: "tstring \<Rightarrow> tstring list" where
  "parents n = (if n = [] then [] else n # parents (getFilePath n))"
  by pat_completeness auto
termination
  by (relation "measure length") (auto simp: length_getFilePath)

declare parents.simps [simp del]

lemma parents_step: "n \<noteq> [] \<Longrightarrow> set (parents n) = insert n (set (parents (getFilePath n)))"
  by (subst parents.simps) simp

lemma parents_Nil [simp]: "parents [] = []"
  by (subst parents.simps) simp

lemma parents_shorter: "m \<in> set (parents n) \<Longrightarrow> length m \<le> length n"
proof (induction n rule: parents.induct)
  case (1 n)
  show ?case
  proof (cases "n = []")
    case False
    with 1 length_getFilePath [OF False] show ?thesis by (force simp: parents_step)
  qed (use 1 in simp)
qed

lemma getFilePath_plain:
  assumes "plain_name n" and "getFilePath n \<noteq> []"
  shows "plain_name (getFilePath n)"
proof -
  from assms(1) have f: "formatSlash n = n" by (simp add: plain_name_def formatSlash_id)
  show ?thesis
  proof (cases "find_last_of SLASH_USE n")
    case None
    with f assms(2) show ?thesis by (simp add: getFilePath_def)
  next
    case (Some pos)
    then obtain a b where n: "n = a @ SLASH_USE # b" "length a = pos" by (rule find_last_of_SomeE)
    with Some f have g: "getFilePath n = a" by (simp add: getFilePath_def)
    from assms(2) g have a: "a \<noteq> []" by simp
    have "last a \<noteq> SLASH_USE"
    proof
      assume "last a = SLASH_USE"
      with a n(1) have "n = butlast a @ SLASH_USE # SLASH_USE # b"
        by (metis append_butlast_last_id append.assoc append_Cons append_Nil)
      with assms(1) show False by (auto simp: plain_name_def)
    qed
    moreover have "a \<noteq> x @ SLASH_USE # SLASH_USE # y" for x y
    proof
      assume "a = x @ SLASH_USE # SLASH_USE # y"
      with n(1) have "n = x @ SLASH_USE # SLASH_USE # y @ SLASH_USE # b" by simp
      with assms(1) show False by (auto simp: plain_name_def)
    qed
    moreover have "hd a \<noteq> SLASH_USE" "SLASH_OLD \<notin> set a"
      using assms(1) n(1) a by (auto simp: plain_name_def)
    ultimately show ?thesis using a by (simp add: g plain_name_def)
  qed
qed

lemma dir_key_plain: "plain_name n \<Longrightarrow> dir_key n = n"
  by (auto simp: plain_name_def dir_key_def formatDirName_def formatSlash_id last_conv_nth Let_def)

section \<open>Making a directory\<close>

text \<open>
  What the two calls are documented to do, for the set \<open>dirs w\<close> of the names that exist: the
  attributes tell whether a name exists, with or without a slash at its end; a directory can be
  created only if it does not exist and the directory it lies in does, and then exists; a call that
  fails changes nothing.
\<close>

definition dir_calls :: "('w, 'x) file_api_scheme \<Rightarrow> ('w \<Rightarrow> tstring set) \<Rightarrow> bool" where
  "dir_calls api dirs \<longleftrightarrow>
     (\<forall>n w a w'. plain_name (dir_key n) \<longrightarrow> GetFileAttributes api n w = (a, w') \<longrightarrow>
        dirs w' = dirs w \<and> (a \<noteq> - 1 \<longleftrightarrow> dir_key n \<in> dirs w)) \<and>
     (\<forall>n w w'. plain_name n \<longrightarrow> CreateDirectory api n w = (True, w') \<longrightarrow>
        n \<notin> dirs w \<and> (getFilePath n = [] \<or> getFilePath n \<in> dirs w) \<and> dirs w' = insert n (dirs w)) \<and>
     (\<forall>n w w'. plain_name n \<longrightarrow> CreateDirectory api n w = (False, w') \<longrightarrow> dirs w' = dirs w)"

text \<open>Every directory lies in one that exists.\<close>

definition rooted :: "tstring set \<Rightarrow> bool" where
  "rooted ds \<longleftrightarrow> (\<forall>n \<in> ds. getFilePath n = [] \<or> getFilePath n \<in> ds)"

lemma rooted_parents: "rooted ds \<Longrightarrow> n \<in> ds \<Longrightarrow> set (parents n) \<subseteq> ds"
proof (induction n rule: parents.induct)
  case (1 n)
  show ?case
  proof (cases "n = []")
    case False
    from 1(2,3) have "getFilePath n = [] \<or> getFilePath n \<in> ds" by (auto simp: rooted_def)
    then have "set (parents (getFilePath n)) \<subseteq> ds" using 1(1) [OF False 1(2)] by auto
    with False 1 show ?thesis by (auto simp: parents_step)
  qed simp
qed

text \<open>No directory is refused that can be made.\<close>

definition dir_grants :: "('w, 'x) file_api_scheme \<Rightarrow> ('w \<Rightarrow> tstring set) \<Rightarrow> bool" where
  "dir_grants api dirs \<longleftrightarrow>
     (\<forall>n w. plain_name n \<longrightarrow> n \<notin> dirs w \<longrightarrow> getFilePath n = [] \<or> getFilePath n \<in> dirs w \<longrightarrow>
        fst (CreateDirectory api n w))"

definition made :: "tstring set \<Rightarrow> tstring \<Rightarrow> bool \<Rightarrow> tstring set \<Rightarrow> bool" where
  "made ds n ok ds' \<longleftrightarrow>
     (if ok then ds' = ds \<union> set (parents n)
      else ds \<subseteq> ds' \<and> ds' \<subseteq> ds \<union> set (parents n) \<and> n \<notin> ds')"

lemma not_own_parent: "n \<noteq> [] \<Longrightarrow> n \<notin> set (parents (getFilePath n))"
  using parents_shorter [of n "getFilePath n"] length_getFilePath [of n] by auto

lemma CreateDirectory_made:
  assumes calls: "dir_calls api dirs" and n: "plain_name n" and new: "n \<notin> dirs w"
    and c: "CreateDirectory api n v = (ok, w')" and v: "dirs v = dirs w \<union> set (parents (getFilePath n))"
  shows "made (dirs w) n ok (dirs w') \<and> (dir_grants api dirs \<longrightarrow> ok)"
proof -
  from n have ne: "n \<noteq> []" by (simp add: plain_name_def)
  show ?thesis
  proof (cases ok)
    case True
    with c calls n have "dirs w' = insert n (dirs v)" by (auto simp: dir_calls_def)
    with v ne True show ?thesis by (auto simp: made_def parents_step [of n])
  next
    case False
    with c calls n have w': "dirs w' = dirs v" by (auto simp: dir_calls_def)
    have "n \<notin> dirs v" using v new not_own_parent [OF ne] by simp
    moreover have "getFilePath n = [] \<or> getFilePath n \<in> dirs v"
      using v by (auto simp: parents_step [of "getFilePath n"])
    ultimately have "\<not> dir_grants api dirs"
      using c False n unfolding dir_grants_def by (metis fst_conv)
    moreover have "made (dirs w) n False (dirs w')"
      using v w' ne new not_own_parent [OF ne] by (auto simp: made_def parents_step [of n])
    ultimately show ?thesis using False by simp
  qed
qed

lemma makeDir_made:
  assumes "dir_calls api dirs" and "plain_name (dir_key d)" and "rooted (dirs w)"
    and "makeDir api d w = (ok, w')"
  shows "made (dirs w) (dir_key d) ok (dirs w') \<and> (dir_grants api dirs \<longrightarrow> ok)"
  using assms
proof (induction api d w arbitrary: ok w' rule: makeDir.induct)
  case (1 api d w)
  let ?n = "dir_key d"
  obtain a w1 where a: "GetFileAttributes api d w = (a, w1)" by (cases "GetFileAttributes api d w")
  with "1.prems" have w1: "dirs w1 = dirs w" and there: "a \<noteq> - 1 \<longleftrightarrow> ?n \<in> dirs w"
    by (auto simp: dir_calls_def)
  have n: "?n \<noteq> []" "dir_key ?n = ?n" using "1.prems"(2) by (simp_all add: plain_name_def dir_key_plain)
  show ?case
  proof (cases "?n \<in> dirs w")
    case True
    with "1.prems"(4) a there have ok "w' = w1" by (subst (asm) makeDir.simps; simp add: fileExist_def)+
    with w1 True rooted_parents [OF "1.prems"(3)] show ?thesis by (auto simp: made_def)
  next
    case False
    have make: "made (dirs w) ?n ok (dirs w') \<and> (dir_grants api dirs \<longrightarrow> ok)"
      if "CreateDirectory api ?n v = (ok, w')" and "dirs v = dirs w \<union> set (parents (getFilePath ?n))" for v
      using "1.prems"(1,2) False that by (rule CreateDirectory_made)
    show ?thesis
    proof (cases "getFilePath ?n = []")
      case True
      with "1.prems"(4) a there False have "CreateDirectory api ?n w1 = (ok, w')"
        by (subst (asm) makeDir.simps)
          (simp add: fileExist_def makeDirDirect_def dir_key_def)
      with make [of w1] w1 True show ?thesis by simp
    next
      case par: False
      have p: "plain_name (getFilePath ?n)" using "1.prems"(2) par by (rule getFilePath_plain)
      obtain ok2 w2 where m: "makeDir api (getFilePath ?n) w1 = (ok2, w2)"
        by (cases "makeDir api (getFilePath ?n) w1")
      have "made (dirs w1) (dir_key (getFilePath ?n)) ok2 (dirs w2) \<and> (dir_grants api dirs \<longrightarrow> ok2)"
        using "1.IH" [of "(False, w1)" False w1 ?n "getFilePath ?n" ok2 w2] a there False par p m w1 "1.prems"
        by (simp add: fileExist_def dir_key_def dir_key_plain [unfolded dir_key_def])
      with w1 dir_key_plain [OF p] have ih: "made (dirs w) (getFilePath ?n) ok2 (dirs w2)"
        and ok2: "dir_grants api dirs \<longrightarrow> ok2" by simp_all
      from "1.prems"(4) a there False par m have
        r: "(if \<not> ok2 then (False, w2) else CreateDirectory api ?n w2) = (ok, w')"
        by (subst (asm) makeDir.simps)
          (simp add: fileExist_def makeDirDirect_def dir_key_def split: if_splits)
      show ?thesis
      proof (cases ok2)
        case True
        with ih r make [of w2] show ?thesis by (simp add: made_def)
      next
        case fails: False
        with r have "ok = False" "w' = w2" by simp_all
        with ih ok2 n False fails not_own_parent [OF n(1)] show ?thesis
          by (auto simp: made_def parents_step [of ?n])
      qed
    qed
  qed
qed

section \<open>Property\<close>

text \<open>
  C36: \<open>makeDir\<close> makes a directory with all the directories it lies in.  When it answers true,
  exactly these were added; when it answers false the directory does not exist, and nothing but some
  of them was added; and it answers true whenever the system refuses no directory that can be made.
\<close>

theorem makeDir_makes:
  assumes "dir_calls api dirs" and "plain_name (dir_key d)" and "rooted (dirs w)"
    and "makeDir api d w = (ok, w')"
  shows "(ok \<longrightarrow> dirs w' = dirs w \<union> set (parents (dir_key d))) \<and>
    (\<not> ok \<longrightarrow> dirs w \<subseteq> dirs w' \<and> dirs w' \<subseteq> dirs w \<union> set (parents (dir_key d)) \<and>
       dir_key d \<notin> dirs w') \<and>
    (dir_grants api dirs \<longrightarrow> ok)"
  using makeDir_made [OF assms] by (auto simp: made_def)

text \<open>The in-memory file system with directories that lie in others.\<close>

definition mem_dirs :: "'a mem_fs_scheme file_api" where
  "mem_dirs = mem_files
     \<lparr>GetFileAttributes := \<lambda>n w. (if dir_key n \<in> set (fs_names w) then 0x10 else - 1, w),
      CreateDirectory := \<lambda>n w.
        (if n \<notin> set (fs_names w) \<and> (getFilePath n = [] \<or> getFilePath n \<in> set (fs_names w))
         then (True, w\<lparr>fs_dirs := n # fs_dirs w\<rparr>) else (False, w))\<rparr>"

lemma mem_dir_calls: "dir_calls mem_dirs (\<lambda>w. set (fs_names w))"
  by (auto simp: dir_calls_def mem_dirs_def fs_names_def split: if_splits)

lemma mem_dir_grants: "dir_grants mem_dirs (\<lambda>w. set (fs_names w))"
  by (auto simp: dir_grants_def mem_dirs_def)

definition one_dir :: mem_fs where
  "one_dir = (mem_fs_new [])\<lparr>fs_dirs := [''data'']\<rparr>"

theorem makeDir_makes_witness:
  "\<exists>w'. makeDir mem_dirs ''data/1000/old/'' one_dir = (True, w') \<and>
     set (fs_names w') = set (fs_names one_dir) \<union> set (parents (dir_key ''data/1000/old/''))"
proof -
  obtain ok w' where m: "makeDir mem_dirs ''data/1000/old/'' one_dir = (ok, w')"
    by (cases "makeDir mem_dirs ''data/1000/old/'' one_dir")
  have key: "dir_key ''data/1000/old/'' = ''data'' @ SLASH_USE # ''1000'' @ SLASH_USE # ''old''"
    by code_simp
  have "plain_name (dir_key ''data/1000/old/'')"
    unfolding key by (auto simp: plain_name_def SLASH_USE_def SLASH_OLD_def Cons_eq_append_conv)
  moreover have "getFilePath ''data'' = []" by code_simp
  then have "rooted (set (fs_names one_dir))"
    by (simp add: rooted_def one_dir_def fs_names_def mem_fs_new_def)
  ultimately show ?thesis
    using makeDir_makes [where dirs = "\<lambda>w. set (fs_names w)", OF mem_dir_calls _ _ m] mem_dir_grants m by auto
qed

end
