(* ===== verification/DataTree.thy ===== *)
theory DataTree
  imports Prelude "HOL-Library.Sublist"
begin

text \<open>
  The configuration tree of src/LZData/LZData.cpp and LZData.h: nodes with a tag, a value and
  an ordered list of children, read and written by paths \<open>a/b/c\<close>.  A node carries the class it
  was built as (\<open>lzd\<close> or \<open>xml\<close>), which is what the virtual \<open>newOne\<close> depends on.  Nodes are
  shared only between a parent's child list and the pointer a call returns, so the tree is a
  value; the pointer that \<open>write\<close> returns is the address of the node, a list of child indices.
\<close>

section \<open>Nodes\<close>

datatype LzDataType = LZD_LZD | LZD_XML

datatype lzdata =
  LZNode (m_class: LzDataType) (m_tag: string) (m_value: string) (m_children: "lzdata list")

instantiation LzDataType :: linorder
begin

definition less_eq_LzDataType :: "LzDataType \<Rightarrow> LzDataType \<Rightarrow> bool" where
  "less_eq_LzDataType a b \<longleftrightarrow> a = LZD_LZD \<or> b = LZD_XML"

definition less_LzDataType :: "LzDataType \<Rightarrow> LzDataType \<Rightarrow> bool" where
  "less_LzDataType a b \<longleftrightarrow> a = LZD_LZD \<and> b = LZD_XML"

instance
proof
  fix x y z :: LzDataType
  show "x < y \<longleftrightarrow> x \<le> y \<and> \<not> y \<le> x"
    by (cases x; cases y) (auto simp: less_eq_LzDataType_def less_LzDataType_def)
  show "x \<le> x" by (cases x) (auto simp: less_eq_LzDataType_def)
  show "x \<le> y \<Longrightarrow> y \<le> z \<Longrightarrow> x \<le> z" by (auto simp: less_eq_LzDataType_def)
  show "x \<le> y \<Longrightarrow> y \<le> x \<Longrightarrow> x = y" by (auto simp: less_eq_LzDataType_def)
  show "x \<le> y \<or> y \<le> x" by (cases x; cases y) (auto simp: less_eq_LzDataType_def)
qed

end

definition lzd_newOne :: "string \<Rightarrow> string \<Rightarrow> lzdata" where
  "lzd_newOne tag val = LZNode LZD_LZD tag val []"

definition xml_newOne :: "string \<Rightarrow> string \<Rightarrow> lzdata" where
  "xml_newOne tag val = LZNode LZD_XML tag val []"

definition LZData_newOne :: "lzdata \<Rightarrow> string \<Rightarrow> string \<Rightarrow> lzdata" where
  "LZData_newOne this tag val =
     (case m_class this of LZD_LZD \<Rightarrow> lzd_newOne tag val | LZD_XML \<Rightarrow> xml_newOne tag val)"

section \<open>Values\<close>

definition setValue :: "string \<Rightarrow> lzdata \<Rightarrow> lzdata" where
  "setValue v n = LZNode (m_class n) (m_tag n) v (m_children n)"

definition setTag :: "string \<Rightarrow> lzdata \<Rightarrow> lzdata" where
  "setTag t n = LZNode (m_class n) t (m_value n) (m_children n)"

definition LZData_asInt :: "lzdata \<Rightarrow> int" where
  "LZData_asInt n = atoi (c_str (m_value n))"

definition LZData_asBool :: "lzdata \<Rightarrow> bool" where
  "LZData_asBool n =
     (if m_value n = ''true'' then True
      else if m_value n = ''false'' then False
      else LZData_asInt n \<noteq> 0)"

definition LZData_asString :: "lzdata \<Rightarrow> string" where
  "LZData_asString n = m_value n"

definition LZData_setInt :: "int \<Rightarrow> lzdata \<Rightarrow> lzdata" where
  "LZData_setInt data n = setValue (show_int data) n"

text \<open>The specialisation of \<open>convertToString\<close> for \<open>bool\<close> ignores the format.\<close>

definition LZData_convertToString_bool :: "bool \<Rightarrow> string \<Rightarrow> string" where
  [simp]: "LZData_convertToString_bool data format = (if data then ''true'' else ''false'')"

definition LZData_setBool :: "bool \<Rightarrow> lzdata \<Rightarrow> lzdata" where
  "LZData_setBool data n = setValue (LZData_convertToString_bool data '''') n"

definition LZData_setString :: "string \<Rightarrow> lzdata \<Rightarrow> lzdata" where
  "LZData_setString data n = setValue data n"

section \<open>Children\<close>

definition countChildren :: "lzdata \<Rightarrow> nat" where
  "countChildren n = length (m_children n)"

definition addChild :: "lzdata \<Rightarrow> lzdata \<Rightarrow> lzdata \<times> nat" where
  "addChild n ptr =
     (LZNode (m_class n) (m_tag n) (m_value n) (m_children n @ [ptr]), countChildren n)"

definition getChild :: "lzdata \<Rightarrow> nat \<Rightarrow> lzdata" where
  "getChild n index = m_children n ! index"

definition set_child :: "lzdata \<Rightarrow> nat \<Rightarrow> lzdata \<Rightarrow> lzdata" where
  "set_child n i c = LZNode (m_class n) (m_tag n) (m_value n) ((m_children n)[i := c])"

function find_child_from :: "lzdata \<Rightarrow> nat \<Rightarrow> string \<Rightarrow> int" where
  "find_child_from n i tag =
     (if i < length (m_children n)
      then if m_tag (m_children n ! i) = tag then int i else find_child_from n (i + 1) tag
      else - 1)"
  by pat_completeness auto
termination
  by (relation "measure (\<lambda>(n, i, tag). length (m_children n) - i)") auto

declare find_child_from.simps [simp del]

definition findNextChild :: "lzdata \<Rightarrow> int \<Rightarrow> string \<Rightarrow> int" where
  "findNextChild n index0 tag =
     (let index = index0 + 1
      in if index < 0 \<or> index \<ge> int (countChildren n) then - 1
         else find_child_from n (nat index) tag)"

definition findChild :: "lzdata \<Rightarrow> string \<Rightarrow> int" where
  "findChild n name = findNextChild n (- 1) name"

section \<open>Paths: read and write\<close>

abbreviation SLASH :: char where "SLASH \<equiv> CHR ''/''"

lemma find_first_of_less: "find_first_of c xs = Some p \<Longrightarrow> p < length xs"
  by (erule find_first_of_SomeE) auto

function LZData_read :: "lzdata \<Rightarrow> string \<Rightarrow> lzdata option" where
  "LZData_read n tag =
     (case find_first_of SLASH tag of
        None \<Rightarrow>
          let i = findChild n tag in if i < 0 then None else Some (getChild n (nat i))
      | Some pos \<Rightarrow>
          let i = findChild n (take pos tag)
          in if i < 0 then None else LZData_read (getChild n (nat i)) (drop (pos + 1) tag))"
  by pat_completeness auto
termination
  by (relation "measure (\<lambda>(n, tag). length tag)") (auto dest: find_first_of_less)

function LZData_write :: "lzdata \<Rightarrow> string \<Rightarrow> string \<Rightarrow> lzdata \<times> nat list" where
  "LZData_write n tag val =
     (case find_first_of SLASH tag of
        None \<Rightarrow>
          let i = findChild n tag
          in if i > 0
             then (set_child n (nat i) (LZData_setString val (getChild n (nat i))), [nat i])
             else (let (n', i') = addChild n (LZData_newOne n tag val) in (n', [i']))
      | Some pos \<Rightarrow>
          let lName = take pos tag; rName = drop (pos + 1) tag; i = findChild n lName;
              (n1, j) = (if i < 0 then addChild n (LZData_newOne n lName '''') else (n, nat i));
              (c, p) = LZData_write (getChild n1 j) rName val
          in (set_child n1 j c, j # p))"
  by pat_completeness auto
termination
  by (relation "measure (\<lambda>(n, tag, v). length tag)") (auto dest: find_first_of_less)

declare LZData_read.simps [simp del] LZData_write.simps [simp del]

text \<open>The node at an address, and the change a caller makes through a returned pointer.\<close>

fun node_at :: "lzdata \<Rightarrow> nat list \<Rightarrow> lzdata option" where
  "node_at n [] = Some n"
| "node_at n (i # p) = (if i < length (m_children n) then node_at (m_children n ! i) p else None)"

fun update_at :: "lzdata \<Rightarrow> nat list \<Rightarrow> (lzdata \<Rightarrow> lzdata) \<Rightarrow> lzdata" where
  "update_at n [] f = f n"
| "update_at n (i # p) f =
     (if i < length (m_children n) then set_child n i (update_at (m_children n ! i) p f) else n)"

definition LZData_readInt :: "lzdata \<Rightarrow> string \<Rightarrow> int \<Rightarrow> int" where
  "LZData_readInt n tag def =
     (case LZData_read n tag of None \<Rightarrow> def | Some ptr \<Rightarrow> LZData_asInt ptr)"

definition LZData_readBool :: "lzdata \<Rightarrow> string \<Rightarrow> bool \<Rightarrow> bool" where
  "LZData_readBool n tag def =
     (case LZData_read n tag of None \<Rightarrow> def | Some ptr \<Rightarrow> LZData_asBool ptr)"

definition LZData_readString :: "lzdata \<Rightarrow> string \<Rightarrow> string \<Rightarrow> string" where
  "LZData_readString n tag def =
     (case LZData_read n tag of None \<Rightarrow> def | Some ptr \<Rightarrow> LZData_asString ptr)"

definition LZData_writeInt :: "lzdata \<Rightarrow> string \<Rightarrow> int \<Rightarrow> lzdata" where
  "LZData_writeInt n tag data =
     (let (n', p) = LZData_write n tag '''' in update_at n' p (LZData_setInt data))"

definition LZData_writeBool :: "lzdata \<Rightarrow> string \<Rightarrow> bool \<Rightarrow> lzdata" where
  "LZData_writeBool n tag data =
     (let (n', p) = LZData_write n tag '''' in update_at n' p (LZData_setBool data))"

definition LZData_writeString :: "lzdata \<Rightarrow> string \<Rightarrow> string \<Rightarrow> lzdata" where
  "LZData_writeString n tag data = fst (LZData_write n tag data)"

section \<open>The interface of a node class\<close>

text \<open>
  What \<open>LZData::write\<close> relies on from the virtual \<open>newOne\<close> of its class: a leaf with the given
  tag and value, of the class of the node it is called on.
\<close>

locale node_class =
  fixes newOne :: "lzdata \<Rightarrow> string \<Rightarrow> string \<Rightarrow> lzdata"
  assumes newOne_tag: "m_tag (newOne n t v) = t"
    and newOne_value: "m_value (newOne n t v) = v"
    and newOne_children: "m_children (newOne n t v) = []"
    and newOne_class: "m_class (newOne n t v) = m_class n"
begin

lemma newOne_eq: "newOne n t v = LZNode (m_class n) t v []"
  by (metis lzdata.collapse newOne_tag newOne_value newOne_children newOne_class)

lemma addChild_newOne_last:
  "getChild (fst (addChild n (newOne n t v))) (snd (addChild n (newOne n t v))) = newOne n t v"
  by (simp add: addChild_def getChild_def countChildren_def)

end

interpretation node: node_class LZData_newOne
  by unfold_locales
    (simp_all add: LZData_newOne_def lzd_newOne_def xml_newOne_def split: LzDataType.splits)

section \<open>findChild is the first child with the tag\<close>

abbreviation child_tags :: "lzdata \<Rightarrow> string list" where
  "child_tags n \<equiv> map m_tag (m_children n)"

definition index_of :: "nat option \<Rightarrow> int" where
  "index_of r = (case r of None \<Rightarrow> - 1 | Some i \<Rightarrow> int i)"

lemma find_child_from_spec:
  "find_child_from n i tag = index_of (map_option ((+) i) (find_first_of tag (drop i (child_tags n))))"
proof (induction n i tag rule: find_child_from.induct)
  case (1 n i tag)
  show ?case
  proof (cases "i < length (m_children n)")
    case True
    then have "drop i (child_tags n) = m_tag (m_children n ! i) # drop (Suc i) (child_tags n)"
      by (simp add: Cons_nth_drop_Suc [symmetric])
    with 1 True show ?thesis
      by (auto simp: find_child_from.simps [of n i tag] index_of_def option.map_comp o_def
          split: option.splits)
  qed (simp add: find_child_from.simps [of n i tag] index_of_def)
qed

lemma findChild_spec: "findChild n tag = index_of (find_first_of tag (child_tags n))"
  by (auto simp: findChild_def findNextChild_def find_child_from_spec countChildren_def Let_def
      index_of_def)

lemma index_of_simps [simp]:
  "index_of None = - 1" "index_of (Some i) = int i"
  "index_of r < 0 \<longleftrightarrow> r = None" "index_of r = - 1 \<longleftrightarrow> r = None"
  "index_of r = int i \<longleftrightarrow> r = Some i" "index_of r = 0 \<longleftrightarrow> r = Some 0"
  by (auto simp: index_of_def split: option.splits)

lemma findChild_neg: "findChild n tag < 0 \<longleftrightarrow> tag \<notin> m_tag ` set (m_children n)"
  by (simp add: findChild_spec find_first_of_None)

lemma findChild_found:
  "findChild n tag = int i \<Longrightarrow> i < length (m_children n) \<and> m_tag (m_children n ! i) = tag"
  by (auto simp: findChild_spec dest!: find_first_of_nth)

section \<open>Paths as lists of names\<close>

function path_names :: "string \<Rightarrow> string list" where
  "path_names tag =
     (case find_first_of SLASH tag of
        None \<Rightarrow> [tag]
      | Some pos \<Rightarrow> take pos tag # path_names (drop (pos + 1) tag))"
  by pat_completeness auto
termination
  by (relation "measure length") (auto dest: find_first_of_less)

declare path_names.simps [simp del]

lemma path_names_plain: "SLASH \<notin> set t \<Longrightarrow> path_names t = [t]"
  by (subst path_names.simps) (simp add: find_first_of_notin)

fun lookup :: "lzdata \<Rightarrow> string list \<Rightarrow> lzdata option" where
  "lookup n [] = Some n"
| "lookup n (x # xs) =
     (case find_first_of x (child_tags n) of
        None \<Rightarrow> None
      | Some i \<Rightarrow> lookup (m_children n ! i) xs)"

fun store :: "lzdata \<Rightarrow> string list \<Rightarrow> string \<Rightarrow> lzdata \<times> nat list" where
  "store n [] v = (n, [])"
| "store n [x] v =
     (case find_first_of x (child_tags n) of
        Some (Suc i) \<Rightarrow> (set_child n (Suc i) (setValue v (m_children n ! Suc i)), [Suc i])
      | _ \<Rightarrow> (fst (addChild n (LZNode (m_class n) x v [])), [length (m_children n)]))"
| "store n (x # y # ys) v =
     (case find_first_of x (child_tags n) of
        Some i \<Rightarrow>
          (let (c, p) = store (m_children n ! i) (y # ys) v in (set_child n i c, i # p))
      | None \<Rightarrow>
          (let (c, p) = store (LZNode (m_class n) x '''' []) (y # ys) v
           in (fst (addChild n c), length (m_children n) # p)))"

text \<open>The child index at which the last name of a path is found, if its parent exists.\<close>

fun slot :: "lzdata \<Rightarrow> string list \<Rightarrow> nat option" where
  "slot n [] = None"
| "slot n [x] = find_first_of x (child_tags n)"
| "slot n (x # y # ys) =
     (case find_first_of x (child_tags n) of
        None \<Rightarrow> None | Some i \<Rightarrow> slot (m_children n ! i) (y # ys))"

lemma path_names_nonempty [simp]: "path_names tag \<noteq> []"
  by (subst path_names.simps) (simp split: option.splits)

lemma LZData_read_lookup: "LZData_read n tag = lookup n (path_names tag)"
proof (induction n tag rule: LZData_read.induct)
  case (1 n tag)
  then show ?case
    by (subst LZData_read.simps, subst path_names.simps)
      (auto simp: findChild_spec getChild_def Let_def split: option.splits)
qed

lemma addChild_simps [simp]:
  "m_children (fst (addChild n c)) = m_children n @ [c]"
  "m_class (fst (addChild n c)) = m_class n"
  "m_tag (fst (addChild n c)) = m_tag n"
  "m_value (fst (addChild n c)) = m_value n"
  "snd (addChild n c) = length (m_children n)"
  by (simp_all add: addChild_def countChildren_def)

lemma set_child_simps [simp]:
  "m_children (set_child n i c) = (m_children n)[i := c]"
  "m_class (set_child n i c) = m_class n"
  "m_tag (set_child n i c) = m_tag n"
  "m_value (set_child n i c) = m_value n"
  "set_child (set_child n i c) i d = set_child n i d"
  by (simp_all add: set_child_def)

lemma setValue_simps [simp]:
  "m_children (setValue v n) = m_children n" "m_class (setValue v n) = m_class n"
  "m_tag (setValue v n) = m_tag n" "m_value (setValue v n) = v"
  by (simp_all add: setValue_def)

lemma set_child_last: "set_child (fst (addChild n c)) (length (m_children n)) d = fst (addChild n d)"
  by (simp add: set_child_def addChild_def)

lemma LZData_write_store: "LZData_write n tag v = store n (path_names tag) v"
proof (induction n tag v rule: LZData_write.induct)
  case (1 n tag v)
  show ?case
  proof (cases "find_first_of SLASH tag")
    case None
    have names: "path_names tag = [tag]"
      by (subst path_names.simps) (simp add: None)
    show ?thesis
    proof (cases "find_first_of tag (child_tags n)")
      case None': None
      then show ?thesis
        by (simp add: LZData_write.simps [of n tag v] None names findChild_spec node.newOne_eq
            Let_def case_prod_beta)
    next
      case (Some i)
      then show ?thesis
        by (cases i) (simp_all add: LZData_write.simps [of n tag v] None names findChild_spec
            node.newOne_eq Let_def case_prod_beta getChild_def LZData_setString_def)
    qed
  next
    case (Some pos)
    obtain y ys where ys: "path_names (drop (pos + 1) tag) = y # ys"
      using path_names_nonempty by (metis list.exhaust)
    have names: "path_names tag = take pos tag # y # ys"
      by (subst path_names.simps) (use Some ys in simp)
    have IH: "LZData_write (getChild m j) (drop (pos + 1) tag) v = store (getChild m j) (y # ys) v"
      if "(m, j) = (if findChild n (take pos tag) < 0
        then addChild n (LZData_newOne n (take pos tag) []) else (n, nat (findChild n (take pos tag))))"
      for m j
      using "1.IH" [OF Some refl refl refl refl that] ys by simp
    show ?thesis
    proof (cases "find_first_of (take pos tag) (child_tags n)")
      case None
      then show ?thesis
        using IH [OF prod.collapse [THEN trans]]
        by (simp add: LZData_write.simps [of n tag v] Some names findChild_spec node.newOne_eq
            Let_def case_prod_beta getChild_def set_child_last)
    next
      case Some': (Some i)
      then show ?thesis
        using IH [of n i]
        by (simp add: LZData_write.simps [of n tag v] Some names findChild_spec
            Let_def case_prod_beta getChild_def)
    qed
  qed
qed

section \<open>What write leaves behind\<close>

lemma find_tag_update:
  "i < length (m_children n) \<Longrightarrow> m_tag c = m_tag (m_children n ! i) \<Longrightarrow>
     map m_tag ((m_children n)[i := c]) = child_tags n"
  by (metis list_update_id map_update nth_map)

lemma store_tag [simp]:
  "m_tag (fst (store n xs v)) = m_tag n" "m_class (fst (store n xs v)) = m_class n"
  by (induction n xs v rule: store.induct) (auto simp: case_prod_beta split: option.splits nat.splits)

lemma find_child_tag:
  "find_first_of x (child_tags n) = Some i \<Longrightarrow> i < length (m_children n) \<and> m_tag (m_children n ! i) = x"
  by (auto dest!: find_first_of_nth)

text \<open>The address \<open>write\<close> returns is that of a node with the written tag and value.\<close>

lemma store_address:
  "xs \<noteq> [] \<Longrightarrow> \<exists>m. node_at (fst (store n xs v)) (snd (store n xs v)) = Some m
     \<and> m_tag m = last xs \<and> m_value m = v"
proof (induction n xs v rule: store.induct)
  case (2 n x v)
  then show ?case
    by (auto split: option.splits nat.splits dest: find_child_tag)
next
  case (3 n x y ys v)
  show ?case
  proof (cases "find_first_of x (child_tags n)")
    case None
    then show ?thesis using "3.IH"(1) [OF None] by (simp add: case_prod_beta nth_append)
  next
    case (Some i)
    then show ?thesis
      using "3.IH"(2) [OF Some] find_child_tag [OF Some] by (simp add: case_prod_beta)
  qed
qed simp

lemma lookup_Cons_set_child:
  assumes "find_first_of x (child_tags n) = Some i" and "m_tag c = x"
  shows "lookup (set_child n i c) (x # xs) = lookup c xs"
proof -
  have "child_tags (set_child n i c) = child_tags n"
    using assms find_child_tag [OF assms(1)] by (simp add: find_tag_update)
  with assms find_child_tag [OF assms(1)] show ?thesis by simp
qed

lemma lookup_Cons_addChild:
  assumes "find_first_of x (child_tags n) = None" and "m_tag c = x"
  shows "lookup (fst (addChild n c)) (x # xs) = lookup c xs"
  using assms by (simp add: find_first_of_append)

text \<open>
  Reading through the path and then changing the node through the returned pointer agree,
  unless the last name is found at index 0.
\<close>

lemma store_update_lookup:
  assumes "xs \<noteq> []" and "slot n xs \<noteq> Some 0"
    and "\<And>m. m_tag (f m) = m_tag m"
  shows "\<exists>m. node_at (fst (store n xs v)) (snd (store n xs v)) = Some m \<and> m_value m = v \<and>
     lookup (update_at (fst (store n xs v)) (snd (store n xs v)) f) xs = Some (f m)"
  using assms
proof (induction n xs v rule: store.induct)
  case (2 n x v)
  show ?case
  proof (cases "find_first_of x (child_tags n)")
    case None
    with 2 show ?thesis
      by (simp add: set_child_last lookup_Cons_addChild del: lookup.simps(2))
  next
    case (Some i)
    with 2 obtain j where j: "i = Suc j" by (cases i) auto
    with 2 Some find_child_tag [OF Some] show ?thesis
      by (simp add: lookup_Cons_set_child del: lookup.simps(2))
  qed
next
  case (3 n x y ys v)
  show ?case
  proof (cases "find_first_of x (child_tags n)")
    case None
    have slot: "slot (LZNode (m_class n) x '''' []) (y # ys) \<noteq> Some 0"
      by (cases ys) auto
    have upd: "\<And>t p. m_tag (update_at t p f) = m_tag t"
      using "3.prems"(3) by (metis set_child_simps(3) update_at.elims)
    from "3.IH"(1) [OF None _ slot "3.prems"(3)] None show ?thesis
      by (auto simp: case_prod_beta nth_append set_child_last lookup_Cons_addChild upd
          simp del: lookup.simps(2))
  next
    case (Some i)
    have upd: "\<And>t p. m_tag (update_at t p f) = m_tag t"
      using "3.prems"(3) by (metis set_child_simps(3) update_at.elims)
    from "3.prems"(2) Some have "slot (m_children n ! i) (y # ys) \<noteq> Some 0" by simp
    from "3.IH"(2) [OF Some _ this "3.prems"(3)] find_child_tag [OF Some] Some show ?thesis
      by (auto simp: case_prod_beta lookup_Cons_set_child upd simp del: lookup.simps(2))
  qed
qed simp

lemma store_slot_0_lookup:
  "slot n xs = Some 0 \<Longrightarrow> lookup (fst (store n xs v)) xs = lookup n xs"
proof (induction n xs v rule: store.induct)
  case (2 n x v)
  then show ?case by (auto simp: find_first_of_append nth_append dest: find_child_tag)
next
  case (3 n x y ys v)
  then obtain i where i: "find_first_of x (child_tags n) = Some i"
    and s: "slot (m_children n ! i) (y # ys) = Some 0"
    by (auto split: option.splits)
  from "3.IH"(2) [OF i s] i find_child_tag [OF i] show ?case
    by (simp add: case_prod_beta lookup_Cons_set_child del: lookup.simps(2)) simp
qed simp

lemma find_first_of_append_other:
  "y \<noteq> x \<Longrightarrow> find_first_of y (xs @ [x]) = find_first_of y xs"
  by (cases "find_first_of y xs") (auto simp: find_first_of_append)

lemma lookup_set_child_other:
  assumes "i < length (m_children n)" "m_tag c = m_tag (m_children n ! i)" "y \<noteq> m_tag c"
  shows "lookup (set_child n i c) (y # ys) = lookup n (y # ys)"
proof -
  have "child_tags (set_child n i c) = child_tags n"
    using assms by (simp add: find_tag_update)
  moreover have "j \<noteq> i" if "find_first_of y (child_tags n) = Some j" for j
    using find_child_tag [OF that] assms by auto
  ultimately show ?thesis by (auto split: option.splits)
qed

lemma lookup_addChild_other:
  "y \<noteq> m_tag c \<or> find_first_of y (child_tags n) \<noteq> None \<Longrightarrow>
     lookup (fst (addChild n c)) (y # ys) = lookup n (y # ys)"
  by (auto simp: find_first_of_append find_first_of_append_other nth_append
      dest: find_child_tag split: option.splits)

lemma lookup_setValue [simp]: "zs \<noteq> [] \<Longrightarrow> lookup (setValue v m) zs = lookup m zs"
  by (cases zs) (auto split: option.splits)

lemma lookup_leaf: "zs \<noteq> [] \<Longrightarrow> lookup (LZNode k t v []) zs = None"
  by (cases zs) auto

lemma store_value [simp]: "xs \<noteq> [] \<Longrightarrow> m_value (fst (store n xs v)) = m_value n"
  by (induction n xs v rule: store.induct) (auto simp: case_prod_beta split: option.splits nat.splits)

lemma store_lookup_other:
  assumes "xs \<noteq> []" "ys \<noteq> xs" "lookup n ys \<noteq> None \<or> \<not> prefix ys xs"
  shows "map_option m_value (lookup (fst (store n xs v)) ys) = map_option m_value (lookup n ys)"
  using assms
proof (induction n xs v arbitrary: ys rule: store.induct)
  case (2 n x v)
  show ?case
  proof (cases ys)
    case (Cons y zs)
    show ?thesis
    proof (cases "y = x")
      case True
      with 2 Cons have "zs \<noteq> []" by auto
      show ?thesis
      proof (cases "find_first_of x (child_tags n)")
        case None
        with True Cons \<open>zs \<noteq> []\<close> have "lookup n ys = None" by simp
        with None True Cons \<open>zs \<noteq> []\<close> show ?thesis
          by (simp add: lookup_Cons_addChild lookup_leaf del: lookup.simps(2))
      next
        case (Some i)
        with True Cons \<open>zs \<noteq> []\<close> find_child_tag [OF Some] show ?thesis
          by (cases i) (auto simp: lookup_Cons_set_child lookup_addChild_other
              simp del: lookup.simps(2), simp)
      qed
    next
      case False
      with Cons show ?thesis
        by (auto simp: lookup_addChild_other lookup_set_child_other simp del: lookup.simps(2)
            split: option.splits nat.splits dest: find_child_tag)
    qed
  qed (use 2 store_value [of "[x]" n v] in simp)
next
  case (3 n x y' ys' v)
  show ?case
  proof (cases ys)
    case (Cons y zs)
    show ?thesis
    proof (cases "y = x")
      case True
      with 3 Cons have ne: "zs \<noteq> y' # ys'" by auto
      show ?thesis
      proof (cases "find_first_of x (child_tags n)")
        case None
        with True Cons have none: "lookup n ys = None" by simp
        with "3.prems" True Cons have np: "\<not> prefix zs (y' # ys')" by auto
        then have "zs \<noteq> []" by auto
        with "3.IH"(1) [OF None _ ne] np None True Cons none show ?thesis
          by (simp add: case_prod_beta lookup_Cons_addChild lookup_leaf del: lookup.simps(2))
      next
        case (Some i)
        with True Cons "3.prems" have
          "lookup (m_children n ! i) zs \<noteq> None \<or> \<not> prefix zs (y' # ys')" by auto
        from "3.IH"(2) [OF Some _ ne this] Some True Cons find_child_tag [OF Some]
        show ?thesis
          by (simp add: case_prod_beta lookup_Cons_set_child del: lookup.simps(2)) simp
      qed
    next
      case False
      with Cons show ?thesis
        by (auto simp: case_prod_beta lookup_addChild_other lookup_set_child_other
            simp del: lookup.simps(2) split: option.splits dest: find_child_tag)
    qed
  qed (use 3 store_value [of "x # y' # ys'" n v] in simp)
qed simp

lemma update_at_id: "update_at t p (\<lambda>m. m) = t"
  by (induction t p "\<lambda>m :: lzdata. m" rule: update_at.induct) (simp_all add: set_child_def)

section \<open>Properties of the tree\<close>

definition at_first_slot :: "lzdata \<Rightarrow> string \<Rightarrow> bool" where
  "at_first_slot n tag \<longleftrightarrow> slot n (path_names tag) = Some 0"

text \<open>C23: a string written to a path is read back from it, unless the entry is a first child.\<close>

theorem write_then_read:
  "\<not> at_first_slot n tag \<Longrightarrow> LZData_readString (LZData_writeString n tag v) tag d = v"
  using store_update_lookup [of "path_names tag" n "\<lambda>m. m" v]
  by (auto simp: at_first_slot_def LZData_readString_def LZData_writeString_def
      LZData_read_lookup LZData_write_store LZData_asString_def update_at_id)

definition sample_tree :: lzdata where
  "sample_tree = LZNode LZD_XML ''root'' ''''
     [LZNode LZD_XML ''cores'' ''4'' [], LZNode LZD_XML ''mysql'' ''''
        [LZNode LZD_XML ''ip'' ''127.0.0.1'' [], LZNode LZD_XML ''port'' ''3306'' []]]"

theorem write_then_read_witness:
  "LZData_readString (LZData_writeString sample_tree ''mysql/port'' ''80'') ''mysql/port'' ''3307'' = ''80''"
proof (rule write_then_read)
  show "\<not> at_first_slot sample_tree ''mysql/port''"
    by (simp add: at_first_slot_def sample_tree_def path_names.simps)
qed

text \<open>
  C26: \<open>LZData::write\<close> tests \<open>i > 0\<close> where the index 0 is a hit.  A write to an entry that is
  the first child of its parent appends a second entry, and reading still gives the old node.
\<close>

theorem write_first_child_is_lost:
  "at_first_slot n tag \<Longrightarrow> LZData_read (LZData_writeString n tag v) tag = LZData_read n tag"
  by (simp add: at_first_slot_def LZData_writeString_def LZData_read_lookup LZData_write_store
      store_slot_0_lookup)

theorem write_first_child_is_lost_witness:
  "LZData_read (LZData_writeString sample_tree ''mysql/ip'' ''::1'') ''mysql/ip''
     = LZData_read sample_tree ''mysql/ip''"
proof (rule write_first_child_is_lost)
  show "at_first_slot sample_tree ''mysql/ip''"
    by (simp add: at_first_slot_def sample_tree_def path_names.simps)
qed

text \<open>
  An integer written through \<open>writeInt\<close> (decimal text, then \<open>atoi\<close>) is read back exactly,
  for the whole range of \<open>int\<close>, unless the entry is a first child.
\<close>

theorem writeInt_then_readInt:
  assumes "is_int32 i" and "\<not> at_first_slot n tag"
  shows "LZData_readInt (LZData_writeInt n tag i) tag d = i"
proof -
  have "CHR 0x00 \<notin> set (show_int i)"
    using show_int_chars [of "CHR 0x00" i] by (auto simp: is_digit_def)
  with assms(1) have "LZData_asInt (LZData_setInt i m) = i" for m
    by (simp add: LZData_asInt_def LZData_setInt_def c_str_id atoi_show_int)
  then show ?thesis
    using assms(2) store_update_lookup [of "path_names tag" n "LZData_setInt i" "''''"]
    by (auto simp: at_first_slot_def LZData_readInt_def LZData_writeInt_def case_prod_beta
        LZData_read_lookup LZData_write_store LZData_setInt_def)
qed

theorem writeInt_then_readInt_witness:
  "LZData_readInt (LZData_writeInt sample_tree ''mysql/port'' (- 2147483648)) ''mysql/port'' 0
     = - 2147483648"
proof (rule writeInt_then_readInt)
  show "is_int32 (- 2147483648)" by (simp add: is_int32_def)
  show "\<not> at_first_slot sample_tree ''mysql/port''"
    by (simp add: at_first_slot_def sample_tree_def path_names.simps)
qed

text \<open>
  C24: a write changes no value at any other path; only missing intermediate nodes come into
  being, with an empty value.
\<close>

theorem write_frame:
  assumes "path_names other \<noteq> path_names tag"
    and "LZData_read n other \<noteq> None \<or> \<not> prefix (path_names other) (path_names tag)"
  shows "map_option m_value (LZData_read (LZData_writeString n tag v) other) =
     map_option m_value (LZData_read n other)"
  using store_lookup_other [of "path_names tag" "path_names other" n v] assms
  by (simp add: LZData_writeString_def LZData_read_lookup LZData_write_store)

theorem write_frame_witness:
  "map_option m_value
     (LZData_read (LZData_writeString sample_tree ''mysql/ip'' ''::1'') ''mysql/port'') =
   map_option m_value (LZData_read sample_tree ''mysql/port'')"
proof (rule write_frame)
  show "path_names ''mysql/port'' \<noteq> path_names ''mysql/ip''"
    by (simp add: path_names.simps)
  show "LZData_read sample_tree ''mysql/port'' \<noteq> None \<or>
     \<not> prefix (path_names ''mysql/port'') (path_names ''mysql/ip'')"
    by (simp add: path_names.simps)
qed

end
