(* ===== verification/TreeText.thy ===== *)
theory TreeText
  imports DataTree
begin

text \<open>
  Text helpers of the LZData library (src/LZData/LZData.cpp, lzd.cpp, xml.cpp): trimming,
  escaping of values, and the printers of the two file formats.  \<open>print\<close> is virtual: the layout
  of an entry is that of the class of the node it belongs to, and the nested call is
  dispatched on the class of the child.
\<close>

section \<open>Trimming\<close>

definition isWhiteSpace :: "char \<Rightarrow> bool" where
  "isWhiteSpace ch \<longleftrightarrow>
     ch = CHR 0x20 \<or> ch = CHR 0x09 \<or> ch = CHR 0x0A \<or> ch = CHR 0x0D"

fun ltrimString :: "string \<Rightarrow> string" where
  "ltrimString [] = []"
| "ltrimString (c # str) = (if \<not> isWhiteSpace c then c # str else ltrimString str)"

fun rtrim_loop :: "string \<Rightarrow> nat \<Rightarrow> string" where
  "rtrim_loop str 0 = []"
| "rtrim_loop str (Suc i) =
     (if \<not> isWhiteSpace (str ! i)
      then if Suc i \<noteq> length str then take (Suc i) str else str
      else rtrim_loop str i)"

definition rtrimString :: "string \<Rightarrow> string" where
  "rtrimString str = rtrim_loop str (length str)"

definition trimString :: "string \<Rightarrow> string" where
  "trimString str = rtrimString (ltrimString str)"

lemma ltrimString_dropWhile: "ltrimString s = dropWhile isWhiteSpace s"
  by (induction s) auto

lemma rtrim_loop_spec:
  "i \<le> length s \<Longrightarrow> rtrim_loop s i = rev (dropWhile isWhiteSpace (rev (take i s)))"
proof (induction i)
  case (Suc i)
  then have take: "take (Suc i) s = take i s @ [s ! i]"
    by (simp add: take_Suc_conv_app_nth)
  have whole: "Suc i = length s \<Longrightarrow> s = take i s @ [s ! i]"
    by (metis take take_all order_refl)
  show ?case
  proof (cases "isWhiteSpace (s ! i)")
    case True
    with Suc show ?thesis by (simp add: take del: rev_take)
  next
    case False
    with whole show ?thesis by (auto simp: take simp del: rev_take)
  qed
qed simp

lemma rtrimString_spec: "rtrimString s = rev (dropWhile isWhiteSpace (rev s))"
  by (simp add: rtrimString_def rtrim_loop_spec)

definition trimmed :: "string \<Rightarrow> bool" where
  "trimmed s \<longleftrightarrow> s = [] \<or> \<not> isWhiteSpace (hd s) \<and> \<not> isWhiteSpace (last s)"

lemma ltrimString_ws [simp]: "\<forall>c \<in> set w. isWhiteSpace c \<Longrightarrow> ltrimString (w @ s) = ltrimString s"
  by (induction w) auto

lemma rtrimString_ws [simp]: "\<forall>c \<in> set w. isWhiteSpace c \<Longrightarrow> rtrimString (s @ w) = rtrimString s"
  by (simp add: rtrimString_spec) (induction w rule: rev_induct, auto)

lemma ltrimString_id: "s = [] \<or> \<not> isWhiteSpace (hd s) \<Longrightarrow> ltrimString s = s"
  by (cases s) auto

lemma rtrimString_id: "s = [] \<or> \<not> isWhiteSpace (last s) \<Longrightarrow> rtrimString s = s"
  by (cases s rule: rev_cases) (auto simp: rtrimString_spec)

lemma trimString_ws:
  assumes "\<forall>c \<in> set w. isWhiteSpace c" "\<forall>c \<in> set u. isWhiteSpace c" "trimmed s"
  shows "trimString (w @ s @ u) = s"
proof (cases "s = []")
  case True
  with assms have "ltrimString (w @ u) = []"
    by (auto simp: ltrimString_dropWhile)
  with True show ?thesis by (simp add: trimString_def rtrimString_def)
next
  case False
  with assms have "ltrimString (s @ u) = s @ u"
    by (intro ltrimString_id) (auto simp: trimmed_def hd_append)
  with assms show ?thesis
    by (auto simp: trimString_def trimmed_def intro: rtrimString_id)
qed

lemma trimString_id: "trimmed s \<Longrightarrow> trimString s = s"
  using trimString_ws [of "[]" "[]" s] by simp

lemma trimString_all_ws: "\<forall>c \<in> set w. isWhiteSpace c \<Longrightarrow> trimString w = []"
  using trimString_ws [of w "[]" "[]"] by (simp add: trimmed_def)

lemma trimmed_trimString: "trimmed (trimString s)"
proof -
  have l: "ltrimString s = [] \<or> \<not> isWhiteSpace (hd (ltrimString s))"
    using hd_dropWhile [of isWhiteSpace s] by (auto simp: ltrimString_dropWhile)
  define t where "t = ltrimString s"
  have "rtrimString t = [] \<or> (hd (rtrimString t) = hd t \<and> \<not> isWhiteSpace (last (rtrimString t)))"
  proof (cases "rtrimString t = []")
    case False
    then have ne: "dropWhile isWhiteSpace (rev t) \<noteq> []" by (simp add: rtrimString_spec)
    have "t = rtrimString t @ rev (takeWhile isWhiteSpace (rev t))"
      by (metis rtrimString_spec rev_append rev_rev_ident takeWhile_dropWhile_id)
    with False have "hd (rtrimString t) = hd t" by (metis hd_append2)
    with hd_dropWhile [OF ne] ne show ?thesis by (simp add: rtrimString_spec last_rev)
  qed simp
  with l show ?thesis
    by (auto simp: trimString_def t_def trimmed_def rtrimString_def)
qed

lemma length_trimString: "length (trimString s) \<le> length s"
proof -
  have "length (rtrimString t) \<le> length t" for t
    using length_dropWhile_le [of isWhiteSpace "rev t"] by (simp add: rtrimString_spec)
  moreover have "length (ltrimString s) \<le> length s"
    by (simp add: ltrimString_dropWhile length_dropWhile_le)
  ultimately show ?thesis by (simp add: trimString_def) (meson le_trans)
qed

section \<open>Printing\<close>

definition printTable :: "nat \<Rightarrow> string" where
  "printTable n = replicate n (CHR 0x09)"

text \<open>\<open>convertValue\<close> of lzd.cpp puts a backslash before \<open>#\<close>, the closing brace and \<open>;\<close>.\<close>

fun convertValue :: "string \<Rightarrow> string" where
  "convertValue [] = []"
| "convertValue (ch # src) =
     (if ch = CHR ''#'' \<or> ch = CHR 0x7D \<or> ch = CHR '';''
      then CHR 0x5C # ch # convertValue src else ch # convertValue src)"

definition lzd_open :: "nat \<Rightarrow> string \<Rightarrow> string" where
  "lzd_open depth tag =
     printTable depth @ tag @ [CHR 0x0A] @ printTable depth @ [CHR 0x7B, CHR 0x0A]"

definition lzd_close :: "nat \<Rightarrow> string \<Rightarrow> string" where
  "lzd_close depth tag = printTable depth @ [CHR 0x7D, CHR 0x0A]"

definition lzd_leaf :: "nat \<Rightarrow> string \<Rightarrow> string \<Rightarrow> string" where
  "lzd_leaf depth tag v = printTable depth @ tag @ '' = '' @ convertValue v @ [CHR 0x0A]"

definition xml_open :: "nat \<Rightarrow> string \<Rightarrow> string" where
  "xml_open depth tag = printTable depth @ ''<'' @ tag @ ''>'' @ [CHR 0x0A]"

definition xml_close :: "nat \<Rightarrow> string \<Rightarrow> string" where
  "xml_close depth tag = printTable depth @ ''</'' @ tag @ ''>'' @ [CHR 0x0A]"

definition xml_leaf :: "nat \<Rightarrow> string \<Rightarrow> string \<Rightarrow> string" where
  "xml_leaf depth tag v =
     printTable depth @ ''<'' @ tag @ ''>'' @ [CHR 0x09] @ v @
     [CHR 0x09] @ ''</'' @ tag @ ''>'' @ [CHR 0x0A]"

fun entry_open :: "LzDataType \<Rightarrow> nat \<Rightarrow> string \<Rightarrow> string" where
  "entry_open LZD_LZD = lzd_open"
| "entry_open LZD_XML = xml_open"

fun entry_close :: "LzDataType \<Rightarrow> nat \<Rightarrow> string \<Rightarrow> string" where
  "entry_close LZD_LZD = lzd_close"
| "entry_close LZD_XML = xml_close"

fun entry_leaf :: "LzDataType \<Rightarrow> nat \<Rightarrow> string \<Rightarrow> string \<Rightarrow> string" where
  "entry_leaf LZD_LZD = lzd_leaf"
| "entry_leaf LZD_XML = xml_leaf"

fun LZData_print :: "nat \<Rightarrow> lzdata \<Rightarrow> string" where
  "LZData_print depth (LZNode k t v cs) =
     concat (map (\<lambda>ptr.
       if countChildren ptr > 0
       then entry_open k depth (m_tag ptr) @ LZData_print (depth + 1) ptr @
            entry_close k depth (m_tag ptr)
       else entry_leaf k depth (m_tag ptr) (LZData_asString ptr)) cs)"

section \<open>Children added one after the other, and the margin of a line\<close>

definition add_children :: "lzdata \<Rightarrow> lzdata list \<Rightarrow> lzdata" where
  "add_children p cs = LZNode (m_class p) (m_tag p) (m_value p) (m_children p @ cs)"

lemma add_children_simps [simp]:
  "add_children p [] = p" "fst (addChild p c) = add_children p [c]"
  "add_children (add_children p cs) ds = add_children p (cs @ ds)"
  "m_tag (add_children p cs) = m_tag p"
  by (simp_all add: add_children_def addChild_def)

lemma ws_table [simp]:
  "CHR ''<'' \<notin> set (printTable d)" "CHR ''>'' \<notin> set (printTable d)"
  "c \<in> set (printTable d) \<Longrightarrow> isWhiteSpace c"
  by (auto simp: printTable_def isWhiteSpace_def)

section \<open>Line breaks in files\<close>

text \<open>A stream in text mode writes a line end as two characters.\<close>

fun text_mode :: "string \<Rightarrow> string" where
  "text_mode [] = []"
| "text_mode (c # s) = (if c = CHR 0x0A then CHR 0x0D # c # text_mode s else c # text_mode s)"

lemma text_mode_append [simp]: "text_mode (s @ t) = text_mode s @ text_mode t"
  by (induction s) auto

lemma text_mode_id: "CHR 0x0A \<notin> set s \<Longrightarrow> text_mode s = s"
  by (induction s) auto

lemma set_text_mode: "set (text_mode s) \<subseteq> insert (CHR 0x0D) (set s)"
  by (induction s) auto

lemma text_mode_table [simp]: "text_mode (printTable d) = printTable d"
  by (rule text_mode_id) (simp add: printTable_def)

section \<open>What a file format promises\<close>

text \<open>A format is a reader that recovers every document the format can represent from its printed text.\<close>

locale document_format =
  fixes representable :: "lzdata \<Rightarrow> bool"
    and parse :: "string \<Rightarrow> lzdata outcome"
  assumes parse_print: "representable d \<Longrightarrow> parse (LZData_print 0 d) = Inr d"
begin

lemma print_inj:
  "representable d \<Longrightarrow> representable e \<Longrightarrow> LZData_print 0 d = LZData_print 0 e \<longleftrightarrow> d = e"
  by (metis parse_print sum.inject(2))

text \<open>A file that was read once is rewritten as it was.\<close>

lemma rewrite_same:
  "representable d \<Longrightarrow> text = LZData_print 0 d \<Longrightarrow> parse text = Inr e \<Longrightarrow> LZData_print 0 e = text"
  by (metis parse_print sum.inject(2))

end

end
