(* ===== verification/XmlFormat.thy ===== *)
theory XmlFormat
  imports TreeText
begin

text \<open>
  The XML subset reader of src/LZData/xmlParser.cpp and xmlParser.h (\<open>WrapperStream\<close>,
  \<open>xmlParser::parse\<close>, \<open>xmlParser::parseReal\<close>) and the printer of xml.cpp.  \<open>parseReal\<close> calls
  itself inside its loop and continues from wherever the nested call stopped; that it
  terminates rests on the cursor never moving back.  \<open>getRange\<close> with an end before its begin
  makes \<open>std::string::assign\<close> throw, which nothing catches: the outcome is a fault.
  The text of \<open>printf\<close> messages is not modelled.
\<close>

section \<open>WrapperStream\<close>

record WrapperStream =
  m_buffer :: string
  m_size :: nat
  m_index :: nat

definition ws_new :: "string \<Rightarrow> nat \<Rightarrow> WrapperStream" where
  "ws_new buffer n = \<lparr>m_buffer = buffer, m_size = n, m_index = 0\<rparr>"

definition ws_empty :: "WrapperStream \<Rightarrow> bool" where
  "ws_empty s \<longleftrightarrow> m_index s \<ge> m_size s"

definition ws_curchar :: "WrapperStream \<Rightarrow> char" where
  "ws_curchar s = (if ws_empty s then CHR 0x00 else m_buffer s ! m_index s)"

definition ws_getchar :: "WrapperStream \<Rightarrow> char \<times> WrapperStream" where
  "ws_getchar s =
     (if ws_empty s then (CHR 0x00, s)
      else (m_buffer s ! m_index s, s\<lparr>m_index := m_index s + 1\<rparr>))"

definition ws_ignore :: "nat \<Rightarrow> WrapperStream \<Rightarrow> WrapperStream" where
  "ws_ignore n s = s\<lparr>m_index := m_index s + n\<rparr>"

definition ws_seek :: "nat \<Rightarrow> WrapperStream \<Rightarrow> WrapperStream" where
  "ws_seek i s = s\<lparr>m_index := i\<rparr>"

text \<open>\<open>find\<close> answers -1 when the character does not occur; here that is \<open>None\<close>.\<close>

function ws_find_from :: "string \<Rightarrow> nat \<Rightarrow> nat \<Rightarrow> char \<Rightarrow> nat option" where
  "ws_find_from buffer n i ch =
     (if i < n then if buffer ! i = ch then Some i else ws_find_from buffer n (i + 1) ch
      else None)"
  by pat_completeness auto
termination
  by (relation "measure (\<lambda>(buffer, n, i, ch). n - i)") auto

declare ws_find_from.simps [simp del]

definition ws_find :: "WrapperStream \<Rightarrow> char \<Rightarrow> nat option" where
  "ws_find s ch = ws_find_from (m_buffer s) (m_size s) (m_index s) ch"

definition ws_getRange :: "WrapperStream \<Rightarrow> string \<Rightarrow> nat \<Rightarrow> nat \<Rightarrow> (bool \<times> string) outcome" where
  "ws_getRange s out b e =
     (if e > m_size s then Inr (False, out)
      else if e < b then Inl LengthError
      else Inr (True, take (e - b) (drop b (m_buffer s))))"

lemma ws_find_from_bounds:
  "ws_find_from buffer n i ch = Some p \<Longrightarrow> i \<le> p \<and> p < n"
proof (induction buffer n i ch rule: ws_find_from.induct)
  case (1 buffer n i ch)
  then show ?case
    by (auto simp: ws_find_from.simps [of buffer n i ch] split: if_splits)
qed

lemma ws_find_bounds: "ws_find s ch = Some p \<Longrightarrow> m_index s \<le> p \<and> p < m_size s"
  by (simp add: ws_find_def ws_find_from_bounds)

section \<open>The parser\<close>

text \<open>
  \<open>tag[0]\<close> and the attribute form \<open><tag ... />\<close>.  The first character of an empty string is
  the terminator.
\<close>

definition char_at0 :: "string \<Rightarrow> char" where
  "char_at0 s = (case s of [] \<Rightarrow> CHR 0x00 | c # cs \<Rightarrow> c)"

definition tag_isAttr :: "string \<Rightarrow> bool" where
  "tag_isAttr tag \<longleftrightarrow> length tag > 1 \<and> last tag = CHR ''/''"

definition tag_eraseAttr :: "string \<Rightarrow> string" where
  "tag_eraseAttr tag =
     (case find_first_of (CHR 0x20) tag of
        None \<Rightarrow> take (length tag - 1) tag
      | Some pos \<Rightarrow> take pos tag)"

text \<open>
  The head of the loop body: up to the trimmed text between the next \<open><\<close> and the next \<open>></\<close>,
  with the cursor behind the latter; and the value in front of the next \<open><\<close>, with the cursor on
  that character.
\<close>

datatype tag_scan = NoMark | NoEndMark | ScanFault fault | Tag string WrapperStream

definition scan_tag :: "WrapperStream \<Rightarrow> tag_scan" where
  "scan_tag s =
     (case ws_find s (CHR ''<'') of
        None \<Rightarrow> NoMark
      | Some begin \<Rightarrow>
          (case ws_find s (CHR ''>'') of
             None \<Rightarrow> NoEndMark
           | Some end0 \<Rightarrow>
               let s1 = ws_seek (end0 + 1) s
               in case ws_getRange s1 [] (begin + 1) end0 of
                    Inl f \<Rightarrow> ScanFault f
                  | Inr (b, tag) \<Rightarrow> Tag (trimString tag) s1))"

definition scan_value :: "WrapperStream \<Rightarrow> tag_scan" where
  "scan_value s =
     (case ws_find s (CHR ''<'') of
        None \<Rightarrow> NoMark
      | Some end0 \<Rightarrow>
          let s2 = ws_seek end0 s
          in case ws_getRange s2 [] (m_index s) end0 of
               Inl f \<Rightarrow> ScanFault f
             | Inr (b, v) \<Rightarrow> Tag (trimString v) s2)"

text \<open>
  The result of \<open>parseReal\<close>: its return value, the parent with the children added so far, and
  the stream.  \<open>is_root\<close> is the pointer test \<open>parent == m_root\<close>.
\<close>

function parseReal ::
    "bool \<Rightarrow> lzdata \<Rightarrow> WrapperStream \<Rightarrow> (bool \<times> lzdata \<times> WrapperStream) outcome" where
  "parseReal is_root parent s =
     (if ws_empty s then Inr (is_root, parent, s)
      else
        case scan_tag s of
          NoMark \<Rightarrow> Inr (is_root, parent, s)
        | NoEndMark \<Rightarrow> Inr (False, parent, s)
        | ScanFault f \<Rightarrow> Inl f
        | Tag tag s1 \<Rightarrow>
            if char_at0 tag = CHR ''/''
            then Inr (rtrimString (drop 1 tag) = m_tag parent, parent, s1)
            else if tag_isAttr tag
            then parseReal is_root (fst (addChild parent (xml_newOne (tag_eraseAttr tag) []))) s1
            else
              case scan_value s1 of
                Tag v s2 \<Rightarrow>
                  (case parseReal False (LZData_setString v (xml_newOne tag [])) s2 of
                     Inl f \<Rightarrow> Inl f
                   | Inr (ok, child, s3) \<Rightarrow>
                       if \<not> ok then Inr (False, fst (addChild parent child), s3)
                       else parseReal is_root (fst (addChild parent child)) s3)
              | ScanFault f \<Rightarrow> Inl f
              | _ \<Rightarrow> Inr (False, fst (addChild parent (xml_newOne tag [])), s1))"
  by pat_completeness auto

definition forward :: "WrapperStream \<Rightarrow> WrapperStream \<Rightarrow> bool" where
  "forward s s' \<longleftrightarrow> m_index s \<le> m_index s' \<and> m_size s' = m_size s \<and> m_buffer s' = m_buffer s"

lemma forward_refl [simp]: "forward s s"
  by (simp add: forward_def)

lemma forward_trans: "forward s t \<Longrightarrow> forward t u \<Longrightarrow> forward s u"
  by (simp add: forward_def)

lemma scan_tag_forward:
  "scan_tag s = Tag tag s1 \<Longrightarrow> forward s s1 \<and> m_index s < m_index s1 \<and> m_index s1 \<le> m_size s"
  by (auto simp: scan_tag_def forward_def ws_seek_def Let_def dest!: ws_find_bounds
      split: option.splits sum.splits prod.splits)

lemma scan_value_forward: "scan_value s = Tag v s2 \<Longrightarrow> forward s s2"
  by (auto simp: scan_value_def forward_def ws_seek_def Let_def dest!: ws_find_bounds
      split: option.splits sum.splits prod.splits)

lemma parseReal_forward:
  "parseReal_dom (r, p, s) \<Longrightarrow> parseReal r p s = Inr (ok, n, s') \<Longrightarrow> forward s s'"
proof (induction r p s arbitrary: ok n s' rule: parseReal.pinduct)
  case (1 r p s)
  note eq = parseReal.psimps [OF "1.hyps"]
  show ?case
  proof (cases "\<not> ws_empty s \<and> (\<exists>tag s1. scan_tag s = Tag tag s1 \<and> char_at0 tag \<noteq> CHR ''/'')")
    case False
    with "1.prems" show ?thesis
      by (auto simp: eq dest: scan_tag_forward split: tag_scan.splits if_splits)
  next
    case True
    then obtain tag s1 where ne: "\<not> ws_empty s" and tag: "scan_tag s = Tag tag s1"
      and open_tag: "char_at0 tag \<noteq> CHR ''/''" by auto
    from scan_tag_forward [OF tag] have f1: "forward s s1" by simp
    show ?thesis
    proof (cases "tag_isAttr tag")
      case True
      with "1.IH"(1) [OF ne tag open_tag True] "1.prems" ne tag open_tag f1 show ?thesis
        by (auto simp: eq intro: forward_trans)
    next
      case False
      show ?thesis
      proof (cases "scan_value s1")
        case (Tag v s2)
        then have f2: "forward s1 s2" by (rule scan_value_forward)
        with f1 have f: "forward s s2" by (blast intro: forward_trans)
        let ?inner = "parseReal False (LZData_setString v (xml_newOne tag [])) s2"
        from "1.prems" ne tag open_tag False Tag obtain ok' child s3
          where inner: "?inner = Inr (ok', child, s3)"
          by (auto simp: eq split: sum.splits)
        have f3: "forward s s3"
          using "1.IH"(2) [OF ne tag open_tag False Tag inner] f by (blast intro: forward_trans)
        show ?thesis
        proof (cases ok')
          case True
          then have "forward s3 s'"
            using "1.IH"(3) [OF ne tag open_tag False Tag inner refl refl] "1.prems"
              ne tag open_tag False Tag inner by (simp add: eq)
          with f3 show ?thesis by (blast intro: forward_trans)
        qed (use f3 "1.prems" ne tag open_tag False Tag inner in \<open>auto simp: eq\<close>)
      qed (use "1.prems" ne tag open_tag False f1 in \<open>auto simp: eq\<close>)
    qed
  qed
qed

termination parseReal
proof (relation "measure (\<lambda>(r, p, s). m_size s - m_index s)", goal_cases)
  case 1
  show ?case by simp
next
  case (2 r p s tag s1)
  then show ?case
    using scan_tag_forward [of s tag s1] by (auto simp: forward_def)
next
  case (3 r p s tag s1 v s2)
  then show ?case
    using scan_tag_forward [of s tag s1] scan_value_forward [of s1 v s2]
    by (auto simp: forward_def)
next
  case (4 r p s tag s1 v s2 x ok y child s3)
  then show ?case
    using scan_tag_forward [of s tag s1] scan_value_forward [of s1 v s2]
      parseReal_forward [of False "LZData_setString v (xml_newOne tag [])" s2 ok child s3]
    by (auto simp: forward_def)
qed

declare parseReal.simps [simp del]

definition xmlParser_parse ::
    "string \<Rightarrow> nat \<Rightarrow> lzdata option \<Rightarrow> (bool \<times> lzdata) outcome" where
  "xmlParser_parse buffer n parent =
     (let m_root = (case parent of None \<Rightarrow> xml_newOne ''root'' [] | Some p \<Rightarrow> p)
      in case parseReal True m_root (ws_new buffer n) of
           Inl f \<Rightarrow> Inl f
         | Inr (ok, doc, s) \<Rightarrow> Inr (ok, doc))"

text \<open>\<open>createFromBuffer\<close> drops the return value of \<open>parse\<close> and hands out the root.\<close>

definition xml_createFromBuffer :: "string \<Rightarrow> nat \<Rightarrow> lzdata outcome" where
  "xml_createFromBuffer buffer n =
     (case xmlParser_parse buffer n None of Inl f \<Rightarrow> Inl f | Inr (ok, doc) \<Rightarrow> Inr doc)"

text \<open>
  \<open>readFileBuffer\<close> of LZData.cpp: the whole file in one \<open>fread_s\<close> of one element, which reads
  no element from an empty file.  \<open>fopen\<close> maps a name to the bytes of the file.
\<close>

definition LZ_readFileBuffer :: "(string \<Rightarrow> string option) \<Rightarrow> string \<Rightarrow> string option" where
  "LZ_readFileBuffer fopen fname =
     (case fopen fname of
        None \<Rightarrow> None
      | Some bytes \<Rightarrow> if length bytes = 0 then None else Some bytes)"

definition xml_createFromFile ::
    "(string \<Rightarrow> string option) \<Rightarrow> string \<Rightarrow> lzdata option outcome" where
  "xml_createFromFile fopen fname =
     (case LZ_readFileBuffer fopen fname of
        None \<Rightarrow> Inr None
      | Some buffer \<Rightarrow>
          (case xml_createFromBuffer buffer (length buffer) of
             Inl f \<Rightarrow> Inl f | Inr doc \<Rightarrow> Inr (Some doc)))"

section \<open>The stream seen as read and unread text\<close>

definition cursor :: "string \<Rightarrow> string \<Rightarrow> WrapperStream" where
  "cursor pre suf = \<lparr>m_buffer = pre @ suf, m_size = length (pre @ suf), m_index = length pre\<rparr>"

lemma cursor_sel [simp]:
  "m_buffer (cursor pre suf) = pre @ suf" "m_size (cursor pre suf) = length pre + length suf"
  "m_index (cursor pre suf) = length pre"
  by (simp_all add: cursor_def)

lemma ws_new_at: "ws_new buf (length buf) = cursor [] buf"
  by (simp add: ws_new_def cursor_def)

lemma ws_seek_at: "ws_seek (length pre + length a) (cursor pre (a @ b)) = cursor (pre @ a) b"
  by (simp add: ws_seek_def cursor_def)

lemma ws_empty_at [simp]: "ws_empty (cursor pre suf) \<longleftrightarrow> suf = []"
  by (simp add: ws_empty_def)

lemma ws_find_from_spec:
  "ws_find_from buffer (length buffer) i ch = map_option ((+) i) (find_first_of ch (drop i buffer))"
proof (induction "length buffer - i" arbitrary: i)
  case 0
  then show ?case by (subst ws_find_from.simps) simp
next
  case (Suc d)
  then have "i < length buffer" and "d = length buffer - Suc i" by auto
  with Suc(1) [OF this(2)] show ?case
    by (subst ws_find_from.simps; cases "find_first_of ch (drop (Suc i) buffer)")
      (auto simp: Cons_nth_drop_Suc [symmetric])
qed

lemma ws_find_at: "ws_find (cursor pre suf) ch = map_option ((+) (length pre)) (find_first_of ch suf)"
  using ws_find_from_spec [of "pre @ suf" "length pre" ch] by (simp add: ws_find_def)

lemma scan_tag_at:
  assumes "CHR ''<'' \<notin> set w" "CHR ''>'' \<notin> set w" "CHR ''>'' \<notin> set t"
  shows "scan_tag (cursor pre (w @ CHR ''<'' # t @ CHR ''>'' # rest)) =
     Tag (trimString t) (cursor (pre @ w @ CHR ''<'' # t @ [CHR ''>'']) rest)"
proof -
  let ?s = "cursor pre (w @ CHR ''<'' # t @ CHR ''>'' # rest)"
  have b: "ws_find ?s (CHR ''<'') = Some (length pre + length w)"
    using assms by (simp add: ws_find_at find_first_of_split)
  have "find_first_of (CHR ''>'') ((w @ CHR ''<'' # t) @ CHR ''>'' # rest)
      = Some (length (w @ CHR ''<'' # t))"
    using assms by (intro find_first_of_split) auto
  then have e: "ws_find ?s (CHR ''>'') = Some (length pre + length (w @ CHR ''<'' # t))"
    by (simp add: ws_find_at)
  have k: "ws_seek (length pre + length (w @ CHR ''<'' # t) + 1) ?s =
      cursor (pre @ w @ CHR ''<'' # t @ [CHR ''>'']) rest"
    using ws_seek_at [of pre "w @ CHR ''<'' # t @ [CHR ''>'']" rest] by simp
  show ?thesis
    unfolding scan_tag_def b e option.case Let_def k
    by (simp add: ws_getRange_def)
qed

lemma scan_value_at:
  assumes "CHR ''<'' \<notin> set v"
  shows "scan_value (cursor pre (v @ CHR ''<'' # rest)) =
     Tag (trimString v) (cursor (pre @ v) (CHR ''<'' # rest))"
  using assms ws_seek_at [of pre v "CHR ''<'' # rest"]
  by (simp add: scan_value_def ws_find_at find_first_of_split ws_getRange_def)

lemma scan_tag_at_none: "CHR ''<'' \<notin> set w \<Longrightarrow> scan_tag (cursor pre w) = NoMark"
  by (simp add: scan_tag_def ws_find_at find_first_of_notin)

lemma find_first_of_skip:
  "c \<notin> set w \<Longrightarrow> find_first_of c (w @ suf) = map_option ((+) (length w)) (find_first_of c suf)"
  by (simp add: find_first_of_append find_first_of_None [THEN iffD2])

lemma parseReal_skip:
  assumes "CHR ''<'' \<notin> set w" "CHR ''>'' \<notin> set w"
    and mark: "CHR ''<'' \<in> set suf" "CHR ''>'' \<in> set suf"
  shows "parseReal r p (cursor pre (w @ suf)) = parseReal r p (cursor (pre @ w) suf)"
proof -
  have "ws_find (cursor pre (w @ suf)) c = ws_find (cursor (pre @ w) suf) c" if "c \<notin> set w" for c
    using that
    by (cases "find_first_of c suf") (simp_all add: ws_find_at find_first_of_skip)
  moreover have "ws_seek i (cursor pre (w @ suf)) = ws_seek i (cursor (pre @ w) suf)" for i
    by (simp add: ws_seek_def cursor_def)
  ultimately have "scan_tag (cursor pre (w @ suf)) = scan_tag (cursor (pre @ w) suf)"
    using assms by (simp add: scan_tag_def cong: option.case_cong)
  moreover obtain b where "ws_find (cursor (pre @ w) suf) (CHR ''<'') = Some b"
    using mark(1)
    by (cases "find_first_of (CHR ''<'') suf") (auto simp: ws_find_at find_first_of_None)
  moreover obtain e where "ws_find (cursor (pre @ w) suf) (CHR ''>'') = Some e"
    using mark(2)
    by (cases "find_first_of (CHR ''>'') suf") (auto simp: ws_find_at find_first_of_None)
  ultimately have "scan_tag (cursor (pre @ w) suf) \<noteq> NoMark"
    "scan_tag (cursor (pre @ w) suf) \<noteq> NoEndMark"
    "scan_tag (cursor pre (w @ suf)) = scan_tag (cursor (pre @ w) suf)"
    by (auto simp: scan_tag_def Let_def split: option.splits sum.splits)
  moreover have "suf \<noteq> []" using mark by auto
  ultimately show ?thesis
    by (cases "scan_tag (cursor (pre @ w) suf)"; subst (1 2) parseReal.simps) auto
qed

section \<open>Round trip\<close>

definition tag_ok :: "string \<Rightarrow> bool" where
  "tag_ok t \<longleftrightarrow> t \<noteq> [] \<and> trimmed t \<and> CHR ''>'' \<notin> set t \<and> hd t \<noteq> CHR ''/'' \<and> \<not> tag_isAttr t"

text \<open>
  The trees the format can hold: entries of class \<open>xml\<close> with a well-formed tag; an entry
  without children has a trimmed value without \<open><\<close>, an entry with children has no value.
\<close>

fun wf_xml :: "lzdata \<Rightarrow> bool" where
  "wf_xml (LZNode k t v cs) \<longleftrightarrow>
     k = LZD_XML \<and> tag_ok t \<and>
     (if cs = [] then trimmed v \<and> CHR ''<'' \<notin> set v else v = []) \<and> (\<forall>c \<in> set cs. wf_xml c)"

text \<open>
  The text of an entry without its final line break.  The line break is the one character the printer
  writes or the two that a file in text mode holds.
\<close>

definition line_break :: "string \<Rightarrow> bool" where
  "line_break eol \<longleftrightarrow> set eol \<subseteq> {CHR 0x0A, CHR 0x0D}"

fun xml_core :: "string \<Rightarrow> nat \<Rightarrow> lzdata \<Rightarrow> string" where
  "xml_core eol d (LZNode k t v cs) =
     printTable d @ CHR ''<'' # t @ CHR ''>'' #
     (if cs = [] then CHR 0x09 # v @ CHR 0x09 # CHR ''<'' # CHR ''/'' # t @ [CHR ''>'']
      else eol @ concat (map (\<lambda>c. xml_core eol (d + 1) c @ eol) cs) @
           printTable d @ CHR ''<'' # CHR ''/'' # t @ [CHR ''>''])"

abbreviation xml_items :: "string \<Rightarrow> nat \<Rightarrow> lzdata list \<Rightarrow> string" where
  "xml_items eol d cs \<equiv> concat (map (\<lambda>c. xml_core eol d c @ eol) cs)"

lemma xml_print_items:
  "m_class n = LZD_XML \<Longrightarrow> \<forall>c \<in> set (m_children n). wf_xml c \<Longrightarrow>
     LZData_print d n = xml_items [CHR 0x0A] d (m_children n)"
proof (induction n arbitrary: d)
  case (LZNode k t v cs)
  have "entry_open k d (m_tag c) @ LZData_print (Suc d) c @ entry_close k d (m_tag c)
      = xml_core [CHR 0x0A] d c @ [CHR 0x0A]" if "c \<in> set cs" "m_children c \<noteq> []" for c
    using LZNode.IH [OF that(1)] LZNode.prems that
    by (cases c) (auto simp: xml_open_def xml_close_def)
  moreover have "entry_leaf k d (m_tag c) (LZData_asString c) = xml_core [CHR 0x0A] d c @ [CHR 0x0A]"
    if "c \<in> set cs" "m_children c = []" for c
    using LZNode.prems that by (cases c) (auto simp: xml_leaf_def LZData_asString_def)
  ultimately show ?case
    by (auto simp: countChildren_def intro!: arg_cong [where f = concat] map_cong)
qed

lemma char_at0_ok: "tag_ok t \<Longrightarrow> char_at0 t \<noteq> CHR ''/''"
  by (cases t) (auto simp: tag_ok_def char_at0_def)

lemma parse_close:
  assumes "CHR ''<'' \<notin> set w" "CHR ''>'' \<notin> set w" "tag_ok t"
  shows "parseReal r p (cursor pre (w @ CHR ''<'' # CHR ''/'' # t @ CHR ''>'' # rest)) =
     Inr (t = m_tag p, p, cursor (pre @ w @ CHR ''<'' # CHR ''/'' # t @ [CHR ''>'']) rest)"
proof -
  have trim: "trimString (CHR ''/'' # t) = CHR ''/'' # t"
    using assms(3) by (intro trimString_id) (auto simp: tag_ok_def trimmed_def isWhiteSpace_def)
  have tag: "scan_tag (cursor pre (w @ CHR ''<'' # (CHR ''/'' # t) @ CHR ''>'' # rest)) =
      Tag (CHR ''/'' # t) (cursor (pre @ w @ CHR ''<'' # (CHR ''/'' # t) @ [CHR ''>'']) rest)"
    using assms trim by (subst scan_tag_at) (auto simp: tag_ok_def)
  have "rtrimString t = t"
    using assms(3) by (intro rtrimString_id) (auto simp: tag_ok_def trimmed_def)
  with tag show ?thesis
    by (subst parseReal.simps) (simp add: char_at0_def)
qed

lemma parse_open:
  assumes "CHR ''<'' \<notin> set w" "CHR ''>'' \<notin> set w" "tag_ok t" "CHR ''<'' \<notin> set v"
  shows "parseReal r p (cursor pre (w @ CHR ''<'' # t @ CHR ''>'' # v @ CHR ''<'' # rest)) =
     (case parseReal False (LZNode LZD_XML t (trimString v) [])
             (cursor (pre @ w @ CHR ''<'' # t @ CHR ''>'' # v) (CHR ''<'' # rest)) of
        Inl f \<Rightarrow> Inl f
      | Inr (ok, child, s3) \<Rightarrow>
          if \<not> ok then Inr (False, add_children p [child], s3)
          else parseReal r (add_children p [child]) s3)"
proof -
  let ?s1 = "cursor (pre @ w @ CHR ''<'' # t @ [CHR ''>'']) (v @ CHR ''<'' # rest)"
  have tag: "scan_tag (cursor pre (w @ CHR ''<'' # t @ CHR ''>'' # v @ CHR ''<'' # rest)) = Tag t ?s1"
    using assms by (subst scan_tag_at) (auto simp: tag_ok_def trimString_id)
  have val: "scan_value ?s1 =
      Tag (trimString v) (cursor (pre @ w @ CHR ''<'' # t @ CHR ''>'' # v) (CHR ''<'' # rest))"
    using assms by (simp add: scan_value_at)
  show ?thesis
    using assms(3) tag val char_at0_ok [OF assms(3)]
    by (subst parseReal.simps)
      (simp add: tag_ok_def LZData_setString_def xml_newOne_def setValue_def
        split: sum.split prod.split)
qed

definition parses_item :: "string \<Rightarrow> lzdata \<Rightarrow> bool" where
  "parses_item eol n \<longleftrightarrow> (\<forall>r p pre d rest.
     parseReal r p (cursor pre (xml_core eol d n @ rest)) =
     parseReal r (add_children p [n]) (cursor (pre @ xml_core eol d n) rest))"

lemma xml_core_form:
  obtains u where "xml_core eol d n = printTable d @ CHR ''<'' # m_tag n @ CHR ''>'' # u"
  by (cases n) auto

lemma xml_items_marks:
  assumes "cs \<noteq> []"
  shows "CHR ''<'' \<in> set (xml_items eol d cs)" "CHR ''>'' \<in> set (xml_items eol d cs)"
proof -
  obtain c cs' where cs: "cs = c # cs'" using assms by (cases cs) auto
  obtain u where "xml_core eol d c = printTable d @ CHR ''<'' # m_tag c @ CHR ''>'' # u"
    by (rule xml_core_form)
  with cs show "CHR ''<'' \<in> set (xml_items eol d cs)" "CHR ''>'' \<in> set (xml_items eol d cs)" by auto
qed

lemma parse_items:
  assumes "\<forall>c \<in> set cs. parses_item eol c" and eol: "line_break eol"
  shows "\<exists>pre' w. pre' @ w = pre @ xml_items eol d cs \<and> set w \<subseteq> {CHR 0x0A, CHR 0x0D} \<and>
     parseReal r p (cursor pre (xml_items eol d cs @ rest)) =
     parseReal r (add_children p cs) (cursor pre' (w @ rest))"
  using assms(1)
proof (induction cs arbitrary: pre p)
  case Nil
  show ?case by (intro exI [of _ pre] exI [of _ "[]"]) simp
next
  case (Cons c cs)
  then have c: "parses_item eol c" and cs: "\<forall>c \<in> set cs. parses_item eol c" by auto
  let ?pre = "pre @ xml_core eol d c"
  from c have step: "parseReal r p (cursor pre (xml_items eol d (c # cs) @ rest)) =
      parseReal r (add_children p [c]) (cursor ?pre (eol @ xml_items eol d cs @ rest))"
    by (simp add: parses_item_def)
  show ?case
  proof (cases "cs = []")
    case True
    with step show ?thesis
      using eol by (intro exI [of _ ?pre] exI [of _ eol]) (simp add: line_break_def)
  next
    case False
    have "parseReal r (add_children p [c]) (cursor ?pre (eol @ xml_items eol d cs @ rest)) =
        parseReal r (add_children p [c]) (cursor (?pre @ eol) (xml_items eol d cs @ rest))"
      using xml_items_marks [OF False, of eol d] eol by (intro parseReal_skip) (auto simp: line_break_def)
    with step Cons.IH [OF cs, of "?pre @ eol" "add_children p [c]"] show ?thesis
      by auto
  qed
qed

lemma parse_item_leaf:
  assumes "wf_xml (LZNode k t v [])"
  shows "parses_item eol (LZNode k t v [])"
  unfolding parses_item_def
proof (intro allI)
  fix r p pre d rest
  let ?n = "LZNode k t v []"
  from assms have t: "tag_ok t" and v: "trimmed v" "CHR ''<'' \<notin> set v" and k: "k = LZD_XML"
    by auto
  have trim: "trimString (CHR 0x09 # v @ [CHR 0x09]) = v"
    using trimString_ws [of "[CHR 0x09]" "[CHR 0x09]" v] v by (simp add: isWhiteSpace_def)
  have close: "parseReal False (LZNode LZD_XML t v [])
      (cursor (pre @ printTable d @ CHR ''<'' # t @ CHR ''>'' # CHR 0x09 # v @ [CHR 0x09])
        (CHR ''<'' # CHR ''/'' # t @ CHR ''>'' # rest)) =
      Inr (True, LZNode LZD_XML t v [], cursor (pre @ xml_core eol d ?n) rest)"
    using parse_close [of "[]" t False "LZNode LZD_XML t v []"] t by simp
  show "parseReal r p (cursor pre (xml_core eol d ?n @ rest)) =
      parseReal r (add_children p [?n]) (cursor (pre @ xml_core eol d ?n) rest)"
    using parse_open [of "printTable d" t "CHR 0x09 # v @ [CHR 0x09]" r p pre
        "CHR ''/'' # t @ CHR ''>'' # rest"] t v trim close k
    by simp
qed

lemma parse_item_inner:
  assumes wf: "wf_xml (LZNode k t v cs)" and ne: "cs \<noteq> []" and items: "\<forall>c \<in> set cs. parses_item eol c"
    and eol: "line_break eol"
  shows "parses_item eol (LZNode k t v cs)"
  unfolding parses_item_def
proof (intro allI)
  fix r p pre d rest
  let ?n = "LZNode k t v cs" and ?leaf = "LZNode LZD_XML t [] []"
  let ?tail = "printTable d @ CHR ''<'' # CHR ''/'' # t @ CHR ''>'' # rest"
  let ?head = "pre @ printTable d @ CHR ''<'' # t @ [CHR ''>''] @ eol"
  from wf ne have t: "tag_ok t" and v: "v = []" and k: "k = LZD_XML" by auto
  obtain c cs' where cs: "cs = c # cs'" using ne by (cases cs) auto
  obtain u where u: "xml_core eol (Suc d) c = printTable (Suc d) @ CHR ''<'' # m_tag c @ CHR ''>'' # u"
    by (rule xml_core_form)
  let ?rest = "m_tag c @ CHR ''>'' # u @ eol @ xml_items eol (Suc d) cs' @ ?tail"
  have body: "xml_items eol (Suc d) cs @ ?tail = printTable (Suc d) @ CHR ''<'' # ?rest"
    by (simp add: cs u)
  have blank: "trimString (eol @ printTable (Suc d)) = []"
    using eol by (intro trimString_all_ws) (auto simp: isWhiteSpace_def printTable_def line_break_def)
  from parse_items [OF items eol, of ?head "Suc d" False ?leaf ?tail] obtain pre' w where
    pre': "pre' @ w = ?head @ xml_items eol (Suc d) cs" "set w \<subseteq> {CHR 0x0A, CHR 0x0D}" and
    steps: "parseReal False ?leaf (cursor ?head (xml_items eol (Suc d) cs @ ?tail)) =
      parseReal False (add_children ?leaf cs) (cursor pre' (w @ ?tail))"
    by blast
  have "parseReal False (add_children ?leaf cs) (cursor pre' ((w @ printTable d) @
      CHR ''<'' # CHR ''/'' # t @ CHR ''>'' # rest)) =
      Inr (True, ?n, cursor (pre' @ (w @ printTable d) @ CHR ''<'' # CHR ''/'' # t @ [CHR ''>'']) rest)"
    using pre'(2) t v k by (subst parse_close) (auto simp: add_children_def)
  moreover have "pre' @ (w @ printTable d) @ CHR ''<'' # CHR ''/'' # t @ [CHR ''>''] =
      pre @ xml_core eol d ?n"
    using pre'(1) ne by (simp flip: append_assoc)
  moreover have "parseReal False ?leaf (cursor ?head (printTable (Suc d) @ CHR ''<'' # ?rest)) =
      parseReal False ?leaf (cursor (?head @ printTable (Suc d)) (CHR ''<'' # ?rest))"
    by (rule parseReal_skip) auto
  ultimately have inner: "parseReal False ?leaf
      (cursor (?head @ printTable (Suc d)) (CHR ''<'' # ?rest)) =
      Inr (True, ?n, cursor (pre @ xml_core eol d ?n) rest)"
    using steps body by simp
  have layout: "xml_core eol d ?n @ rest = printTable d @ CHR ''<'' # t @ CHR ''>'' #
      (eol @ printTable (Suc d)) @ CHR ''<'' # ?rest"
    using body ne by simp
  have head: "pre @ printTable d @ CHR ''<'' # t @ CHR ''>'' # (eol @ printTable (Suc d)) =
      ?head @ printTable (Suc d)" by simp
  have plain: "CHR ''<'' \<notin> set (printTable d)" "CHR ''>'' \<notin> set (printTable d)"
    "CHR ''<'' \<notin> set (eol @ printTable (Suc d))"
    using eol by (auto simp: printTable_def line_break_def)
  show "parseReal r p (cursor pre (xml_core eol d ?n @ rest)) =
      parseReal r (add_children p [?n]) (cursor (pre @ xml_core eol d ?n) rest)"
    by (simp only: layout parse_open [OF plain(1,2) t plain(3)] blank head inner sum.case prod.case
        not_True_eq_False if_False)
qed

lemma parse_item: "wf_xml n \<Longrightarrow> line_break eol \<Longrightarrow> parses_item eol n"
proof (induction n)
  case (LZNode k t v cs)
  then show ?case
    by (cases "cs = []") (auto intro: parse_item_leaf parse_item_inner)
qed

definition wf_xml_doc :: "lzdata \<Rightarrow> bool" where
  "wf_xml_doc n \<longleftrightarrow> n = add_children (xml_newOne ''root'' []) (m_children n) \<and>
     (\<forall>c \<in> set (m_children n). wf_xml c)"

lemma xml_text_parse:
  assumes "wf_xml_doc n" and eol: "line_break eol"
  shows "xml_createFromBuffer (xml_items eol 0 (m_children n)) (length (xml_items eol 0 (m_children n))) = Inr n"
proof -
  let ?root = "xml_newOne ''root'' []" and ?text = "xml_items eol 0 (m_children n)"
  from assms have root: "add_children ?root (m_children n) = n"
    and items: "\<forall>c \<in> set (m_children n). parses_item eol c"
    by (auto simp: wf_xml_doc_def intro: parse_item)
  from parse_items [OF items eol, of "[]" 0 True ?root "[]"] obtain pre w where
    w: "set w \<subseteq> {CHR 0x0A, CHR 0x0D}" and
    eq: "parseReal True ?root (cursor [] ?text) = parseReal True n (cursor pre w)"
    by (auto simp: root)
  from w have nw: "CHR ''<'' \<notin> set w" by auto
  have "parseReal True n (cursor pre w) = Inr (True, n, cursor pre w)"
    using scan_tag_at_none [of w pre, OF nw] by (subst parseReal.simps) auto
  then show ?thesis
    by (simp add: xml_createFromBuffer_def xmlParser_parse_def ws_new_at eq)
qed

lemma xml_doc_text: "wf_xml_doc n \<Longrightarrow> LZData_print 0 n = xml_items [CHR 0x0A] 0 (m_children n)"
  unfolding wf_xml_doc_def
  by (rule xml_print_items) (metis add_children_def lzdata.sel(1) xml_newOne_def, blast)

lemma xml_print_parse:
  assumes "wf_xml_doc n"
  shows "xml_createFromBuffer (LZData_print 0 n) (length (LZData_print 0 n)) = Inr n"
  using xml_text_parse [OF assms, of "[CHR 0x0A]"] by (simp only: xml_doc_text [OF assms]) (simp add: line_break_def)

lemma xml_file:
  assumes "wf_xml_doc d" "line_break eol" "m_children d \<noteq> []"
    and "fopen f = Some (xml_items eol 0 (m_children d))"
  shows "xml_createFromFile fopen f = Inr (Some d)"
proof -
  let ?s = "xml_items eol 0 (m_children d)"
  have "?s \<noteq> []" using xml_items_marks [OF assms(3)] by (metis empty_iff list.set(1))
  then show ?thesis
    using assms(4) by (simp only: xml_text_parse [OF assms(1,2)] xml_createFromFile_def LZ_readFileBuffer_def
        option.case length_0_conv if_False sum.case)
qed

interpretation xml: document_format wf_xml_doc "\<lambda>s. xml_createFromBuffer s (length s)"
  by unfold_locales (rule xml_print_parse)

text \<open>C2: parsing the printed text of a representable document gives the document back.\<close>

theorem xml_roundtrip:
  assumes "wf_xml_doc n"
  shows "xml_createFromBuffer (LZData_print 0 n) (length (LZData_print 0 n)) = Inr n"
  using assms by (rule xml_print_parse)

theorem xml_roundtrip_witness:
  "xml_createFromBuffer
     (LZData_print 0 (add_children (xml_newOne ''root'' [])
        [LZNode LZD_XML ''cores'' ''4'' [],
         LZNode LZD_XML ''mysql'' [] [LZNode LZD_XML ''ip'' ''127.0.0.1'' []]]))
     (length (LZData_print 0 (add_children (xml_newOne ''root'' [])
        [LZNode LZD_XML ''cores'' ''4'' [],
         LZNode LZD_XML ''mysql'' [] [LZNode LZD_XML ''ip'' ''127.0.0.1'' []]]))) =
   Inr (add_children (xml_newOne ''root'' [])
        [LZNode LZD_XML ''cores'' ''4'' [],
         LZNode LZD_XML ''mysql'' [] [LZNode LZD_XML ''ip'' ''127.0.0.1'' []]])"
  by (rule xml_roundtrip)
    (simp add: wf_xml_doc_def add_children_def xml_newOne_def tag_ok_def trimmed_def
      isWhiteSpace_def tag_isAttr_def)

section \<open>Malformed text\<close>

text \<open>
  A \<open>></\<close> in front of the first \<open><\<close> makes the range of the tag negative and the parser
  throws \<open>std::length_error\<close> instead of returning false.
\<close>

theorem stray_end_mark_throws:
  assumes "CHR ''<'' \<notin> set a" "CHR ''>'' \<notin> set a" "CHR ''<'' \<notin> set b"
  shows "xml_createFromBuffer (a @ CHR ''>'' # b @ CHR ''<'' # c)
     (length (a @ CHR ''>'' # b @ CHR ''<'' # c)) = Inl LengthError"
proof -
  let ?s = "cursor [] (a @ CHR ''>'' # b @ CHR ''<'' # c)"
  have "find_first_of (CHR ''<'') ((a @ CHR ''>'' # b) @ CHR ''<'' # c) = Some (length (a @ CHR ''>'' # b))"
    using assms by (intro find_first_of_split) auto
  then have "scan_tag ?s = ScanFault LengthError"
    using assms by (simp add: scan_tag_def ws_find_at find_first_of_split ws_getRange_def ws_seek_def Let_def)
  then have "parseReal True p ?s = Inl LengthError" for p
    by (subst parseReal.simps) simp
  then show ?thesis
    unfolding xml_createFromBuffer_def xmlParser_parse_def ws_new_at by simp
qed

theorem stray_end_mark_throws_witness:
  "xml_createFromBuffer ''a > b <cores>4</cores>'' (length ''a > b <cores>4</cores>'') = Inl LengthError"
  using stray_end_mark_throws [of "''a ''" "'' b ''" "''cores>4</cores>''"] by simp

lemma parseReal_within:
  "parseReal r p s = Inr (ok, n, s') \<Longrightarrow> m_index s \<le> m_size s \<Longrightarrow>
     forward s s' \<and> m_index s' \<le> m_size s'"
proof (induction r p s arbitrary: ok n s' rule: parseReal.induct)
  case (1 r p s)
  show ?case
  proof (cases "\<not> ws_empty s \<and> (\<exists>tag s1. scan_tag s = Tag tag s1 \<and> char_at0 tag \<noteq> CHR ''/'')")
    case False
    with "1.prems" show ?thesis
      by (auto simp: parseReal.simps [of r p s] forward_def dest: scan_tag_forward
          split: tag_scan.splits if_splits)
  next
    case True
    then obtain tag s1 where ne: "\<not> ws_empty s" and tag: "scan_tag s = Tag tag s1"
      and open_tag: "char_at0 tag \<noteq> CHR ''/''" by auto
    from scan_tag_forward [OF tag] have f1: "forward s s1" and s1: "m_index s1 \<le> m_size s1"
      by (simp_all add: forward_def)
    note eq = parseReal.simps [of r p s]
    show ?thesis
    proof (cases "tag_isAttr tag")
      case True
      with "1.IH"(1) [OF ne tag open_tag True _ s1] "1.prems" ne tag open_tag f1 show ?thesis
        by (auto simp: eq intro: forward_trans)
    next
      case False
      show ?thesis
      proof (cases "scan_value s1")
        case (Tag v s2)
        from scan_value_forward [OF Tag] f1 have f2: "forward s s2" by (blast intro: forward_trans)
        from Tag have s2: "m_index s2 \<le> m_size s2"
          by (auto simp: scan_value_def ws_seek_def Let_def dest!: ws_find_bounds
              split: option.splits sum.splits prod.splits)
        let ?inner = "parseReal False (LZData_setString v (xml_newOne tag [])) s2"
        from "1.prems" ne tag open_tag False Tag obtain ok' child s3
          where inner: "?inner = Inr (ok', child, s3)"
          by (auto simp: eq split: sum.splits)
        have s3: "forward s s3 \<and> m_index s3 \<le> m_size s3"
          using "1.IH"(2) [OF ne tag open_tag False Tag inner s2] f2 by (blast intro: forward_trans)
        show ?thesis
        proof (cases ok')
          case True
          then show ?thesis
            using "1.IH"(3) [OF ne tag open_tag False Tag inner refl refl] "1.prems" s3
              ne tag open_tag False Tag inner by (auto simp: eq intro: forward_trans)
        qed (use s3 "1.prems" ne tag open_tag False Tag inner in \<open>auto simp: eq\<close>)
      qed (use "1.prems" ne tag open_tag False s1 f1 in \<open>auto simp: eq\<close>)
    qed
  qed
qed

text \<open>
  C27: the cursor stays inside the buffer and the buffer is not replaced, whatever the input;
  the parser is total, so it stops on every text.
\<close>

theorem parse_cursor_in_bounds:
  assumes "parseReal r p (ws_new txt (length txt)) = Inr (ok, n, s)"
  shows "m_index s \<le> length txt \<and> m_buffer s = txt"
  using parseReal_within [OF assms] by (simp add: forward_def ws_new_def)

theorem parse_cursor_in_bounds_witness:
  "\<exists>n s. parseReal True (xml_newOne ''root'' []) (ws_new ''<a/> x'' (length ''<a/> x'')) = Inr (True, n, s) \<and>
     m_index s \<le> length ''<a/> x''"
proof -
  have run: "parseReal True (xml_newOne ''root'' []) (ws_new ''<a/> x'' (length ''<a/> x'')) =
      Inr (True, add_children (xml_newOne ''root'' []) [xml_newOne ''a'' []], cursor ''<a/>'' '' x'')"
    by code_simp
  show ?thesis using run parse_cursor_in_bounds [OF run] by blast
qed

end
