(* ===== verification/LzdFormat.thy ===== *)
theory LzdFormat
  imports XmlFormat
begin

text \<open>
  The reader of the lzd format: \<open>cParser\<close> of src/LZData/lzdParser.cpp and lzdParser.h, and the
  factory functions of lzd.cpp.  The parser eats its text character by character; an opening brace
  starts a parser of its own on a copy of the rest of the text, which hands back what it left.  The
  node a nested parser fills is shared with its parent, and is therefore appended when it is done.
  The error texts are the GBK bytes of the source.
\<close>

section \<open>The parser's state\<close>

record cParser =
  m_strText :: string
  m_pCurNode :: lzdata
  m_bEnd :: bool
  m_errorID :: int
  m_errorDesc :: string
  m_variable :: string
  m_varLine :: int
  m_curVariable :: string
  m_curLine :: int

definition cParser_new :: "string \<Rightarrow> lzdata \<Rightarrow> cParser" where
  "cParser_new txt curNode =
     \<lparr>m_strText = txt, m_pCurNode = curNode, m_bEnd = False, m_errorID = 0, m_errorDesc = '''',
      m_variable = '''', m_varLine = 0, m_curVariable = '''', m_curLine = 0\<rparr>"

definition parse_reset :: "cParser \<Rightarrow> cParser" where
  "parse_reset p = p\<lparr>m_bEnd := False, m_varLine := 0, m_curLine := 0, m_errorID := 0\<rparr>"

definition cParser_error :: "cParser \<Rightarrow> bool" where
  "cParser_error p \<longleftrightarrow> m_errorID p \<noteq> 0"

definition setError :: "int \<Rightarrow> cParser \<Rightarrow> cParser" where
  "setError i p = p\<lparr>m_errorID := i\<rparr>"

text \<open>Without its second argument \<open>setVar\<close> takes the current line.\<close>

definition setVar :: "string \<Rightarrow> cParser \<Rightarrow> cParser" where
  "setVar name p = p\<lparr>m_variable := name, m_varLine := m_curLine p\<rparr>"

section \<open>Moving over the text\<close>

definition skipSpace :: "cParser \<Rightarrow> cParser" where
  "skipSpace p = p\<lparr>m_strText := dropWhile (\<lambda>c. c = CHR 0x20 \<or> c = CHR 0x09) (m_strText p)\<rparr>"

definition skipToEnd :: "cParser \<Rightarrow> cParser" where
  "skipToEnd p = p\<lparr>m_strText := dropWhile (\<lambda>c. \<not> (c = CHR 0x0A \<or> c = CHR 0x7D)) (m_strText p)\<rparr>"

definition skipToReturn :: "cParser \<Rightarrow> cParser" where
  "skipToReturn p = p\<lparr>m_strText := dropWhile (\<lambda>c. c \<noteq> CHR 0x0A) (m_strText p)\<rparr>"

text \<open>The loop of \<open>getAStr\<close>: the text of a value, and what is left in front of its end mark.\<close>

definition is_escaped :: "char \<Rightarrow> bool" where
  "is_escaped c \<longleftrightarrow> c = CHR 0x7D \<or> c = CHR ''#'' \<or> c = CHR '';'' \<or> c = CHR 0x5C"

fun AStr_scan :: "string \<Rightarrow> string \<times> string" where
  "AStr_scan [] = ([], [])"
| "AStr_scan (ch # xs) =
     (if ch \<noteq> CHR 0x7D \<and> ch \<noteq> CHR ''#'' \<and> ch \<noteq> CHR 0x0A \<and> ch \<noteq> CHR '';''
      then
        case xs of
          next # ys \<Rightarrow>
            if ch = CHR 0x5C \<and> is_escaped next
            then (let (str, rest) = AStr_scan ys in (next # str, rest))
            else (let (str, rest) = AStr_scan xs in (ch # str, rest))
        | [] \<Rightarrow> ([ch], [])
      else ([], ch # xs))"

definition getAStr :: "cParser \<Rightarrow> string \<times> cParser" where
  "getAStr p =
     (let (str, rest) = AStr_scan (m_strText p) in (trimString str, p\<lparr>m_strText := rest\<rparr>))"

section \<open>The handlers\<close>

definition isVarNameValid :: "string \<Rightarrow> bool" where
  "isVarNameValid name = True"

definition parseVarName :: "cParser \<Rightarrow> string \<times> cParser" where
  "parseVarName p =
     (let named = (\<lambda>name. if \<not> isVarNameValid name then ('''', setError 3 p) else (trimString name, p))
      in if m_variable p = [] \<and> m_curVariable p = [] then ('''', setError 1 p)
         else if m_variable p \<noteq> [] \<and> m_curVariable p \<noteq> []
         then if m_varLine p = m_curLine p then ('''', setError 2 p) else named (m_curVariable p)
         else if m_variable p \<noteq> [] then named (m_variable p)
         else named (m_curVariable p))"

text \<open>The three handlers that use a name clear both variables right after it.\<close>

definition take_name :: "cParser \<Rightarrow> string \<times> cParser" where
  "take_name p = (let (name, p1) = parseVarName p in (name, p1\<lparr>m_curVariable := [], m_variable := []\<rparr>))"

definition onEqual :: "cParser \<Rightarrow> cParser" where
  "onEqual p =
     (let (name, p1) = take_name p
      in if cParser_error p1 then p1
         else let (str, p2) = getAStr p1
              in p2\<lparr>m_pCurNode := fst (LZData_write (m_pCurNode p2) name str)\<rparr>)"

definition onReturn :: "cParser \<Rightarrow> cParser" where
  "onReturn p =
     (let (name, p1) = take_name p;
          p2 = (if cParser_error p1 then setError 0 p1 else setVar name p1)
      in p2\<lparr>m_curLine := m_curLine p2 + 1\<rparr>)"

definition onSpace :: "cParser \<Rightarrow> cParser" where
  "onSpace p =
     (if m_variable p \<noteq> [] \<and> m_curVariable p \<noteq> [] \<and> m_varLine p = m_curLine p then setError 2 p
      else skipSpace
        (if m_curVariable p \<noteq> [] then (setVar (m_curVariable p) p)\<lparr>m_curVariable := []\<rparr> else p))"

definition onComment :: "cParser \<Rightarrow> cParser" where
  "onComment p = skipToReturn p"

definition onRBraket :: "cParser \<Rightarrow> cParser" where
  "onRBraket p = p\<lparr>m_bEnd := True\<rparr>"

definition onOther :: "char \<Rightarrow> cParser \<Rightarrow> cParser" where
  "onOther ch p = p\<lparr>m_curVariable := m_curVariable p @ [ch]\<rparr>"

definition bytes :: "nat list \<Rightarrow> string" where
  "bytes = map char_of"

definition error_text :: "cParser \<Rightarrow> string" where
  "error_text p =
     bytes [0xD0, 0xD0] @ '' '' @ show_int (m_curLine p + 1) @ '' : '' @
     (if m_errorID p = 1
      then bytes [0xD4, 0xDA, 0xB3, 0xA2, 0xCA, 0xD4, 0xB8, 0xB3, 0xD6, 0xB5, 0xB5, 0xC4, 0xCA, 0xB1,
             0xBA, 0xF2, 0xA3, 0xAC, 0xC3, 0xBB, 0xD3, 0xD0, 0xB5, 0xC3, 0xB5, 0xBD, 0xC8, 0xCE, 0xBA,
             0xCE, 0xBF, 0xC9, 0xB8, 0xB3, 0xD6, 0xB5, 0xB5, 0xC4, 0xB1, 0xE4, 0xC1, 0xBF, 0xA1, 0xA3]
      else if m_errorID p = 2
      then bytes [0xCD, 0xAC, 0xD2, 0xBB, 0xD0, 0xD0, 0xC9, 0xCF, 0xB3, 0xF6, 0xCF, 0xD6, 0xC1, 0xCB,
             0xC1, 0xBD, 0xB8, 0xF6, 0xB1, 0xE4, 0xC1, 0xBF, 0xC3, 0xFB] @ '' :'' @ m_variable p @
           '' '' @ bytes [0xBA, 0xCD] @ '' '' @ m_curVariable p
      else if m_errorID p = 3
      then bytes [0xB7, 0xC7, 0xB7, 0xA8, 0xB1, 0xE4, 0xC1, 0xBF, 0xC3, 0xFB, 0xA1, 0xA3]
      else bytes [0xCE, 0xB4, 0xD6, 0xAA, 0xB4, 0xED, 0xCE, 0xF3, 0xA1, 0xA3])"

definition onError :: "cParser \<Rightarrow> cParser" where
  "onError p =
     (let p1 = skipToEnd p
      in setError 0 (p1\<lparr>m_errorDesc := error_text p1, m_curVariable := [], m_variable := []\<rparr>))"

definition on_error :: "cParser \<Rightarrow> cParser" where
  "on_error p = (if cParser_error p then onError p else p)"

text \<open>The switch of \<open>parse\<close> without the opening brace.\<close>

definition onChar :: "char \<Rightarrow> cParser \<Rightarrow> cParser" where
  "onChar ch p =
     (if ch = CHR 0x7D then onRBraket p
      else if ch = CHR ''='' then onEqual p
      else if ch = CHR 0x0A then onReturn p
      else if ch = CHR 0x20 \<or> ch = CHR 0x09 then onSpace p
      else if ch = CHR ''#'' then onComment p
      else if ch = CHR '';'' then p
      else onOther ch p)"

text \<open>What the opening brace does before and after the nested parser runs.\<close>

definition brace_enter :: "string \<Rightarrow> cParser \<Rightarrow> cParser" where
  "brace_enter name p = parse_reset (cParser_new (m_strText p) (lzd_newOne name ''''))"

definition brace_leave :: "cParser \<Rightarrow> cParser \<Rightarrow> cParser" where
  "brace_leave parser p =
     p\<lparr>m_pCurNode := fst (addChild (m_pCurNode p) (m_pCurNode parser)), m_strText := m_strText parser,
       m_curLine := m_curLine p + m_curLine parser\<rparr>"

section \<open>The loop\<close>

function parse_loop :: "cParser \<Rightarrow> cParser" where
  "parse_loop p =
     (case m_strText p of
        [] \<Rightarrow> p
      | ch # rest \<Rightarrow>
          if m_bEnd p then p
          else if ch = CHR 0x7B
          then (let (name, p1) = take_name (p\<lparr>m_strText := rest\<rparr>)
                in if cParser_error p1 then parse_loop (on_error p1)
                   else parse_loop (on_error (brace_leave (parse_loop (brace_enter name p1)) p1)))
          else parse_loop (on_error (onChar ch (p\<lparr>m_strText := rest\<rparr>))))"
  by pat_completeness auto

definition text_le :: "cParser \<Rightarrow> string \<Rightarrow> bool" where
  "text_le p s \<longleftrightarrow> length (m_strText p) \<le> length s"

named_theorems handler_defs

lemmas [handler_defs] = onEqual_def onReturn_def onSpace_def onComment_def onRBraket_def onOther_def
  take_name_def parseVarName_def getAStr_def skipSpace_def skipToReturn_def setVar_def setError_def
  parse_reset_def cParser_new_def brace_enter_def brace_leave_def isVarNameValid_def Let_def

declare AStr_scan.simps(2) [simp del]

lemma AStr_scan_le: "length (snd (AStr_scan s)) \<le> length s"
proof (induction s rule: AStr_scan.induct)
  case (2 ch xs)
  show ?case
  proof (cases xs)
    case Nil
    then show ?thesis by (simp add: AStr_scan.simps(2))
  next
    case (Cons d ys)
    have "length (snd (AStr_scan (ch # d # ys))) \<le> length (ch # d # ys)"
      using 2 Cons by (subst AStr_scan.simps(2)) (auto simp: case_prod_beta)
    with Cons show ?thesis by simp
  qed
qed simp

lemma getAStr_text: "m_strText (snd (getAStr p)) = snd (AStr_scan (m_strText p))"
  by (simp add: getAStr_def case_prod_beta)

lemma take_name_text: "(name, p1) = take_name p \<Longrightarrow> m_strText p1 = m_strText p"
  by (auto simp: handler_defs split: if_splits)

lemma onEqual_text: "length (m_strText (onEqual p)) \<le> length (m_strText p)"
proof -
  obtain name p1 where p1: "take_name p = (name, p1)" by (cases "take_name p")
  obtain str p2 where p2: "getAStr p1 = (str, p2)" by (cases "getAStr p1")
  from p1 have "m_strText p1 = m_strText p" by (metis take_name_text)
  moreover from p2 have "length (m_strText p2) \<le> length (m_strText p1)"
    by (metis getAStr_text AStr_scan_le snd_conv)
  ultimately show ?thesis by (simp add: onEqual_def p1 p2)
qed

lemma onReturn_text: "m_strText (onReturn p) = m_strText p"
proof -
  obtain name p1 where p1: "take_name p = (name, p1)" by (cases "take_name p")
  then have "m_strText p1 = m_strText p" by (metis take_name_text)
  with p1 show ?thesis by (simp add: onReturn_def setError_def setVar_def)
qed

lemma onChar_text: "length (m_strText (onChar ch p)) \<le> length (m_strText p)"
  using onEqual_text [of p]
  by (auto simp: onChar_def onReturn_text onRBraket_def onSpace_def onComment_def onOther_def
      skipSpace_def skipToReturn_def setVar_def setError_def length_dropWhile_le)

lemma on_error_text: "length (m_strText (on_error p)) \<le> length (m_strText p)"
  by (simp add: on_error_def onError_def skipToEnd_def setError_def Let_def length_dropWhile_le)

lemma brace_texts [simp]:
  "m_strText (brace_enter name p) = m_strText p" "m_strText (brace_leave q p) = m_strText q"
  by (simp_all add: brace_enter_def brace_leave_def parse_reset_def cParser_new_def)

text \<open>On its domain the loop never gives back more text than it was given; so the nested loop leaves
  less than the outer one started with.\<close>

lemma parse_loop_dom_text:
  "parse_loop_dom p \<Longrightarrow> length (m_strText (parse_loop p)) \<le> length (m_strText p)"
proof (induction p rule: parse_loop.pinduct)
  case (1 p)
  show ?case
  proof (cases "m_strText p")
    case Nil
    with 1(1) show ?thesis by (simp add: parse_loop.psimps)
  next
    case (Cons ch rest)
    obtain name p1 where p1: "take_name (p\<lparr>m_strText := rest\<rparr>) = (name, p1)"
      by (cases "take_name (p\<lparr>m_strText := rest\<rparr>)")
    from take_name_text [OF p1 [symmetric]] have t: "m_strText p1 = rest" by simp
    let ?q = "brace_leave (parse_loop (brace_enter name p1)) p1"
    consider "m_bEnd p" | "\<not> m_bEnd p" "ch = CHR 0x7B" "cParser_error p1"
      | "\<not> m_bEnd p" "ch = CHR 0x7B" "\<not> cParser_error p1" | "\<not> m_bEnd p" "ch \<noteq> CHR 0x7B" by blast
    then show ?thesis
    proof cases
      case 1
      with Cons \<open>parse_loop_dom p\<close> show ?thesis by (simp add: parse_loop.psimps)
    next
      case 2
      with "1.IH"(1) [OF Cons _ _ p1 [symmetric] refl] on_error_text [of p1] \<open>parse_loop_dom p\<close> Cons p1 t
      show ?thesis by (simp add: parse_loop.psimps)
    next
      case 3
      with "1.IH"(2) [OF Cons _ _ p1 [symmetric] refl] "1.IH"(3) [OF Cons _ _ p1 [symmetric] refl]
        on_error_text [of ?q] \<open>parse_loop_dom p\<close> Cons p1 t
      show ?thesis by (simp add: parse_loop.psimps)
    next
      case 4
      with "1.IH"(4) [OF Cons] on_error_text [of "onChar ch (p\<lparr>m_strText := rest\<rparr>)"]
        onChar_text [of ch "p\<lparr>m_strText := rest\<rparr>"] \<open>parse_loop_dom p\<close> Cons
      show ?thesis by (simp add: parse_loop.psimps)
    qed
  qed
qed

termination parse_loop
proof (relation "measure (\<lambda>p. length (m_strText p))", goal_cases)
  case 1
  show ?case by simp
next
  case (2 p ch rest x name p1)
  then have "m_strText p1 = rest" using take_name_text [of name p1 "p\<lparr>m_strText := rest\<rparr>"] by simp
  with 2 on_error_text [of p1] show ?case by simp
next
  case (3 p ch rest x name p1)
  then have "m_strText p1 = rest" using take_name_text [of name p1 "p\<lparr>m_strText := rest\<rparr>"] by simp
  with 3 show ?case by simp
next
  case (4 p ch rest x name p1)
  then have "m_strText p1 = rest" using take_name_text [of name p1 "p\<lparr>m_strText := rest\<rparr>"] by simp
  with 4 parse_loop_dom_text [of "brace_enter name p1"]
    on_error_text [of "brace_leave (parse_loop (brace_enter name p1)) p1"]
  show ?case by simp
next
  case (5 p ch rest)
  with on_error_text [of "onChar ch (p\<lparr>m_strText := rest\<rparr>)"] onChar_text [of ch "p\<lparr>m_strText := rest\<rparr>"]
  show ?case by simp
qed

declare parse_loop.simps [simp del]

definition cParser_parse :: "cParser \<Rightarrow> cParser" where
  "cParser_parse p = parse_loop (parse_reset p)"

section \<open>Documents\<close>

text \<open>
  \<open>createFromBuffer\<close> ignores its length and reads to the first NUL.  \<open>createFromFile\<close> hands it a
  buffer without one, so what it reads goes on with \<open>beyond\<close>, the memory behind the buffer.
\<close>

definition lzd_createFromBuffer :: "string \<Rightarrow> int \<Rightarrow> lzdata" where
  "lzd_createFromBuffer buffer len =
     m_pCurNode (cParser_parse (cParser_new (c_str buffer) (lzd_newOne ''root'' '''')))"

definition lzd_createFromFile :: "(string \<Rightarrow> string option) \<Rightarrow> string \<Rightarrow> string \<Rightarrow> lzdata option" where
  "lzd_createFromFile fopen beyond fname =
     (case LZ_readFileBuffer fopen fname of
        None \<Rightarrow> None
      | Some buffer \<Rightarrow> Some (lzd_createFromBuffer (buffer @ beyond) (int (length buffer))))"

section \<open>The parser on the parts of a printed document\<close>

text \<open>A parser that has met no error and no closing brace.\<close>

definition going :: "string \<Rightarrow> lzdata \<Rightarrow> string \<Rightarrow> int \<Rightarrow> string \<Rightarrow> int \<Rightarrow> cParser" where
  "going txt n var vl cur l =
     \<lparr>m_strText = txt, m_pCurNode = n, m_bEnd = False, m_errorID = 0, m_errorDesc = '''',
      m_variable = var, m_varLine = vl, m_curVariable = cur, m_curLine = l\<rparr>"

lemmas step_defs = going_def onChar_def on_error_def cParser_error_def handler_defs

definition blank :: "char \<Rightarrow> bool" where
  "blank c \<longleftrightarrow> c = CHR 0x20 \<or> c = CHR 0x09"

definition plain_char :: "char \<Rightarrow> bool" where
  "plain_char c \<longleftrightarrow> c \<notin> {CHR 0x7B, CHR 0x7D, CHR ''='', CHR ''#'', CHR '';'', CHR ''/'', CHR 0x00} \<and>
     \<not> isWhiteSpace c"

definition lzd_tag_ok :: "string \<Rightarrow> bool" where
  "lzd_tag_ok t \<longleftrightarrow> t \<noteq> [] \<and> list_all plain_char t"

lemma lzd_tag_ok_trim: "lzd_tag_ok t \<Longrightarrow> trimString t = t"
  by (rule trimString_id) (auto simp: lzd_tag_ok_def trimmed_def plain_char_def list_all_iff)

lemma skip_blanks: "s \<noteq> [] \<Longrightarrow> \<not> blank (hd s) \<Longrightarrow> dropWhile (\<lambda>c. c = CHR 0x20 \<or> c = CHR 0x09) s = s"
  by (cases s) (auto simp: blank_def)

lemma skip_table: "s \<noteq> [] \<Longrightarrow> \<not> blank (hd s) \<Longrightarrow>
    dropWhile (\<lambda>c. c = CHR 0x20 \<or> c = CHR 0x09) (printTable d @ s) = s"
  by (induction d) (simp_all add: printTable_def skip_blanks)

lemma run_table:
  assumes "s \<noteq> []" "\<not> blank (hd s)"
  shows "parse_loop (going (printTable d @ s) n var vl [] l) = parse_loop (going s n var vl [] l)"
proof (cases d)
  case (Suc k)
  have "printTable d @ s = CHR 0x09 # (printTable k @ s)" by (simp add: printTable_def Suc)
  with skip_table [OF assms, of k] show ?thesis
    by (subst parse_loop.simps) (simp add: step_defs)
qed (simp add: printTable_def)

lemma run_tag:
  "list_all plain_char t \<Longrightarrow>
     parse_loop (going (t @ s) n var vl cur l) = parse_loop (going s n var vl (cur @ t) l)"
proof (induction t arbitrary: cur)
  case (Cons c t)
  have "parse_loop (going (c # t @ s) n var vl cur l) = parse_loop (going (t @ s) n var vl (cur @ [c]) l)"
    using Cons.prems
    by (subst parse_loop.simps) (simp add: step_defs plain_char_def isWhiteSpace_def)
  with Cons show ?case by simp
qed simp

lemma run_space:
  assumes "t \<noteq> []" "s \<noteq> []" "\<not> blank (hd s)"
  shows "parse_loop (going (CHR 0x20 # s) n [] vl t l) = parse_loop (going s n t l [] l)"
  using assms skip_blanks [OF assms(2,3)] by (subst parse_loop.simps) (simp add: step_defs)

lemma run_equal:
  assumes "t \<noteq> []" "AStr_scan s = (str, s')"
  shows "parse_loop (going (CHR ''='' # s) n t vl [] l) =
    parse_loop (going s' (fst (LZData_write n (trimString t) (trimString str))) [] vl [] l)"
  using assms by (subst parse_loop.simps) (simp add: step_defs)

lemma run_newline:
  "parse_loop (going (CHR 0x0A # s) n [] vl [] l) = parse_loop (going s n [] vl [] (l + 1))"
  by (subst parse_loop.simps) (simp add: step_defs)

lemma run_newline_tag:
  "t \<noteq> [] \<Longrightarrow>
     parse_loop (going (CHR 0x0A # s) n [] vl t l) = parse_loop (going s n (trimString t) l [] (l + 1))"
  by (subst parse_loop.simps) (simp add: step_defs)

text \<open>A line break is the line end alone, or in a file in text mode a carriage return in front of it.\<close>

definition cr :: "bool \<Rightarrow> string" where
  "cr b = (if b then [CHR 0x0D] else [])"

definition brk :: "bool \<Rightarrow> string \<Rightarrow> string" where
  "brk b s = (if b then text_mode s else s)"

lemma brk_simps [simp]:
  "brk b [] = []" "brk b (s @ t) = brk b s @ brk b t" "brk b (printTable d) = printTable d"
  "c \<noteq> CHR 0x0A \<Longrightarrow> brk b (c # s) = c # brk b s" "brk b (CHR 0x0A # s) = cr b @ CHR 0x0A # brk b s"
  by (simp_all add: brk_def cr_def)

lemma brk_line: "CHR 0x0A \<notin> set s \<Longrightarrow> brk b s = s"
  by (simp add: brk_def text_mode_id)

lemma brk_concat: "brk b (concat (map f xs)) = concat (map (\<lambda>x. brk b (f x)) xs)"
  by (induction xs) auto

lemma run_break:
  "parse_loop (going (cr b @ CHR 0x0A # s) n [] vl [] l) =
     parse_loop (going s n [] (if b then l else vl) [] (l + 1))"
proof (cases b)
  case True
  have "trimString [CHR 0x0D] = []" by (rule trimString_all_ws) (simp add: isWhiteSpace_def)
  then have "parse_loop (going (CHR 0x0A # s) n [] vl [CHR 0x0D] l) = parse_loop (going s n [] l [] (l + 1))"
    using run_newline_tag [of "[CHR 0x0D]" s n vl l] by simp
  moreover have "parse_loop (going (CHR 0x0D # CHR 0x0A # s) n [] vl [] l) =
      parse_loop (going (CHR 0x0A # s) n [] vl [CHR 0x0D] l)"
    by (subst parse_loop.simps) (simp add: step_defs)
  ultimately show ?thesis using True by (simp add: cr_def)
qed (simp add: cr_def run_newline)

lemma run_break_tag:
  assumes "t \<noteq> []"
  shows "parse_loop (going (cr b @ CHR 0x0A # s) n [] vl t l) =
    parse_loop (going s n (trimString t) l [] (l + 1))"
proof (cases b)
  case True
  have "trimString (t @ [CHR 0x0D]) = trimString t"
  proof (cases "ltrimString t = []")
    case True
    then have "\<forall>c \<in> set t. isWhiteSpace c" by (simp add: ltrimString_dropWhile)
    then show ?thesis
      using trimString_all_ws [of t] trimString_all_ws [of "t @ [CHR 0x0D]"] by (auto simp: isWhiteSpace_def)
  next
    case False
    then have "ltrimString (t @ [CHR 0x0D]) = ltrimString t @ [CHR 0x0D]"
      by (auto simp: ltrimString_dropWhile dropWhile_append)
    then show ?thesis by (simp add: trimString_def isWhiteSpace_def)
  qed
  then have "parse_loop (going (CHR 0x0A # s) n [] vl (t @ [CHR 0x0D]) l) =
      parse_loop (going s n (trimString t) l [] (l + 1))"
    using run_newline_tag [of "t @ [CHR 0x0D]" s n vl l] by simp
  moreover have "parse_loop (going (CHR 0x0D # CHR 0x0A # s) n [] vl t l) =
      parse_loop (going (CHR 0x0A # s) n [] vl (t @ [CHR 0x0D]) l)"
    by (subst parse_loop.simps) (simp add: step_defs)
  ultimately show ?thesis using True by (simp add: cr_def)
qed (simp add: cr_def run_newline_tag [OF assms])

lemma run_close: "parse_loop (going (CHR 0x7D # s) n [] vl [] l) = (going s n [] vl [] l)\<lparr>m_bEnd := True\<rparr>"
  by (subst parse_loop.simps, subst parse_loop.simps) (simp add: step_defs split: list.split)

lemma run_brace:
  assumes "t \<noteq> []" and "parse_loop (going s (lzd_newOne (trimString t) '''') [] 0 [] 0) = q"
  shows "parse_loop (going (CHR 0x7B # s) n t vl [] l) =
    parse_loop (going (m_strText q) (add_children n [m_pCurNode q]) [] vl [] (l + m_curLine q))"
  using assms by (subst parse_loop.simps) (simp add: step_defs)

section \<open>Round trip\<close>

definition lzd_value_ok :: "string \<Rightarrow> bool" where
  "lzd_value_ok v \<longleftrightarrow> trimmed v \<and> list_all (\<lambda>c. c \<notin> {CHR 0x0A, CHR 0x5C, CHR 0x00}) v"

text \<open>Each leaf's tag is new among the children in front of it, whose tags are \<open>seen\<close>.\<close>

fun leaves_new :: "string list \<Rightarrow> lzdata list \<Rightarrow> bool" where
  "leaves_new seen [] \<longleftrightarrow> True"
| "leaves_new seen (c # cs) \<longleftrightarrow>
     (m_children c = [] \<longrightarrow> m_tag c \<notin> set seen) \<and> leaves_new (seen @ [m_tag c]) cs"

text \<open>The documents that survive printing: an inner node has no value of its own.\<close>

fun lzd_ok :: "lzdata \<Rightarrow> bool" where
  "lzd_ok (LZNode k t v cs) \<longleftrightarrow> k = LZD_LZD \<and> lzd_tag_ok t \<and>
     (if cs = [] then lzd_value_ok v else v = [] \<and> list_all lzd_ok cs \<and> leaves_new [] cs)"

definition lzd_item :: "nat \<Rightarrow> lzdata \<Rightarrow> string" where
  "lzd_item d c =
     (if countChildren c > 0 then lzd_open d (m_tag c) @ LZData_print (d + 1) c @ lzd_close d (m_tag c)
      else lzd_leaf d (m_tag c) (LZData_asString c))"

lemma lzd_print_items: "LZData_print d (LZNode LZD_LZD t v cs) = concat (map (lzd_item d) cs)"
  by (auto simp: lzd_item_def intro!: arg_cong [where f = concat] map_cong)

lemma lzd_item_inner:
  "cs \<noteq> [] \<Longrightarrow> lzd_item d (LZNode LZD_LZD t v cs) =
     lzd_open d t @ concat (map (lzd_item (Suc d)) cs) @ lzd_close d t"
  by (simp add: lzd_item_def countChildren_def lzd_print_items del: LZData_print.simps)

lemma AStr_plain:
  assumes "c \<notin> {CHR 0x7D, CHR ''#'', CHR 0x0A, CHR '';'', CHR 0x5C}" "AStr_scan s = (str, s')" "s \<noteq> []"
  shows "AStr_scan (c # s) = (c # str, s')"
proof -
  obtain d ys where "s = d # ys" using assms(3) by (cases s) auto
  with assms(1,2) show ?thesis by (simp add: AStr_scan.simps(2) [of c])
qed

lemma AStr_escape:
  "is_escaped c \<Longrightarrow> AStr_scan s = (str, s') \<Longrightarrow> AStr_scan (CHR 0x5C # c # s) = (c # str, s')"
  by (simp add: AStr_scan.simps(2) [of "CHR 0x5C"])

lemma AStr_cr: "AStr_scan (cr b @ CHR 0x0A # s) = (cr b, CHR 0x0A # s)"
proof -
  have "AStr_scan (CHR 0x0A # s) = ([], CHR 0x0A # s)" by (simp add: AStr_scan.simps(2))
  with AStr_plain [of "CHR 0x0D", OF _ this] show ?thesis by (simp add: cr_def)
qed

lemma AStr_value:
  "CHR 0x5C \<notin> set v \<Longrightarrow> CHR 0x0A \<notin> set v \<Longrightarrow>
     AStr_scan (convertValue v @ cr b @ CHR 0x0A # s) = (v @ cr b, CHR 0x0A # s)"
proof (induction v)
  case Nil
  show ?case by (simp add: AStr_cr)
next
  case (Cons c v)
  then have IH: "AStr_scan (convertValue v @ cr b @ CHR 0x0A # s) = (v @ cr b, CHR 0x0A # s)" by simp
  show ?case
  proof (cases "c = CHR ''#'' \<or> c = CHR 0x7D \<or> c = CHR '';''")
    case True
    with AStr_escape [OF _ IH, of c] show ?thesis by (auto simp: is_escaped_def)
  next
    case False
    with AStr_plain [OF _ IH, of c] Cons.prems show ?thesis by auto
  qed
qed

lemma write_new_leaf:
  assumes "lzd_tag_ok t" "t \<notin> set (child_tags n)" "m_class n = LZD_LZD"
  shows "fst (LZData_write n t v) = add_children n [LZNode LZD_LZD t v []]"
proof -
  have "path_names t = [t]"
    using assms(1) by (intro path_names_plain) (auto simp: lzd_tag_ok_def plain_char_def list_all_iff)
  with assms show ?thesis by (simp add: LZData_write_store find_first_of_notin)
qed

lemma run_leaf_as:
  assumes t: "lzd_tag_ok t" and w: "trimmed w" and "t \<notin> set (child_tags n)" "m_class n = LZD_LZD"
    and scan: "AStr_scan (convertValue v @ cr b @ CHR 0x0A # s) = (w @ cr b, CHR 0x0A # s)"
  shows "parse_loop (going (printTable d @ t @ '' = '' @ convertValue v @ cr b @ CHR 0x0A # s) n [] vl [] l) =
    parse_loop (going s (add_children n [LZNode LZD_LZD t w []]) [] l [] (l + 1))"
proof -
  have t': "t \<noteq> []" "list_all plain_char t" using t by (simp_all add: lzd_tag_ok_def)
  then have b: "\<not> blank (hd (t @ x))" for x
    by (cases t) (auto simp: plain_char_def blank_def isWhiteSpace_def)
  let ?v = "CHR 0x20 # convertValue v @ cr b @ CHR 0x0A # s"
  have scanned: "AStr_scan ?v = (CHR 0x20 # w @ cr b, CHR 0x0A # s)"
    using AStr_plain [OF _ scan, of "CHR 0x20"] by simp
  have "trimString (CHR 0x20 # w @ cr b) = w"
    using w trimString_ws [of "[CHR 0x20]" "cr b" w] by (simp add: isWhiteSpace_def cr_def)
  then have "parse_loop (going (CHR ''='' # ?v) n t l [] l) =
      parse_loop (going (CHR 0x0A # s) (add_children n [LZNode LZD_LZD t w []]) [] l [] l)"
    using run_equal [OF t'(1) scanned] write_new_leaf [OF t assms(3,4)] by (simp add: lzd_tag_ok_trim [OF t])
  moreover have "parse_loop (going (t @ CHR 0x20 # CHR ''='' # ?v) n [] vl [] l) =
      parse_loop (going (CHR ''='' # ?v) n t l [] l)"
    using t' by (simp add: run_tag run_space blank_def)
  ultimately show ?thesis
    using t' b by (simp add: run_table run_newline)
qed

lemma tag_line: "lzd_tag_ok t \<Longrightarrow> CHR 0x0A \<notin> set t"
  by (auto simp: lzd_tag_ok_def plain_char_def isWhiteSpace_def list_all_iff)

lemma set_convertValue: "set (convertValue v) \<subseteq> insert (CHR 0x5C) (set v)"
  by (induction v) auto

lemma run_leaf:
  assumes "lzd_tag_ok t" "lzd_value_ok v" "t \<notin> set (child_tags n)" "m_class n = LZD_LZD"
  shows "parse_loop (going (brk b (lzd_leaf d t v) @ s) n [] vl [] l) =
    parse_loop (going s (add_children n [LZNode LZD_LZD t v []]) [] l [] (l + 1))"
proof -
  have v: "CHR 0x5C \<notin> set v" "CHR 0x0A \<notin> set v" "trimmed v"
    using assms(2) by (auto simp: lzd_value_ok_def list_all_iff)
  then have "CHR 0x0A \<notin> set (convertValue v)" using set_convertValue [of v] by auto
  then have "brk b (lzd_leaf d t v) @ s = printTable d @ t @ '' = '' @ convertValue v @ cr b @ CHR 0x0A # s"
    using tag_line [OF assms(1)] by (simp add: lzd_leaf_def brk_line)
  then show ?thesis using run_leaf_as [OF assms(1) v(3) assms(3,4) AStr_value [OF v(1,2)]] by simp
qed

text \<open>What the loop does with the text of one entry, whatever the parser's line numbers are.\<close>

definition item_runs :: "bool \<Rightarrow> nat \<Rightarrow> lzdata \<Rightarrow> bool" where
  "item_runs b d c \<longleftrightarrow> (\<forall>n vl l s. m_class n = LZD_LZD \<longrightarrow>
     (m_children c = [] \<longrightarrow> m_tag c \<notin> set (child_tags n)) \<longrightarrow>
     (\<exists>vl' l'. parse_loop (going (brk b (lzd_item d c) @ s) n [] vl [] l) =
        parse_loop (going s (add_children n [c]) [] vl' [] l')))"

lemma run_items:
  assumes "list_all (item_runs b d) cs" "m_class n = LZD_LZD" "leaves_new (child_tags n) cs"
  shows "\<exists>vl' l'. parse_loop (going (concat (map (\<lambda>c. brk b (lzd_item d c)) cs) @ s) n [] vl [] l) =
    parse_loop (going s (add_children n cs) [] vl' [] l')"
  using assms
proof (induction cs arbitrary: n vl l)
  case (Cons c cs)
  then obtain vl1 l1 where
    "parse_loop (going (brk b (lzd_item d c) @ concat (map (\<lambda>c. brk b (lzd_item d c)) cs) @ s) n [] vl [] l) =
      parse_loop (going (concat (map (\<lambda>c. brk b (lzd_item d c)) cs) @ s) (add_children n [c]) [] vl1 [] l1)"
    unfolding item_runs_def list.pred_inject leaves_new.simps by blast
  with Cons.IH [of "add_children n [c]" vl1 l1] Cons.prems show ?case
    by (auto simp: add_children_def)
qed auto

lemma run_inner:
  assumes t: "lzd_tag_ok t" and cs: "cs \<noteq> []" "list_all (item_runs b (Suc d)) cs" "leaves_new [] cs"
    and n: "m_class n = LZD_LZD"
  shows "\<exists>vl' l'. parse_loop (going (brk b (lzd_item d (LZNode LZD_LZD t [] cs)) @ s) n [] vl [] l) =
    parse_loop (going s (add_children n [LZNode LZD_LZD t [] cs]) [] vl' [] l')"
proof -
  have t': "t \<noteq> []" "list_all plain_char t" using t by (simp_all add: lzd_tag_ok_def)
  then have nb: "\<not> blank (hd (t @ x))" for x
    by (cases t) (auto simp: plain_char_def blank_def isWhiteSpace_def)
  let ?items = "concat (map (\<lambda>c. brk b (lzd_item (Suc d) c)) cs)"
  let ?tail = "printTable d @ CHR 0x7D # cr b @ CHR 0x0A # s"
  let ?node = "lzd_newOne t []"
  obtain vl1 l1 where run: "parse_loop (going (?items @ ?tail) ?node [] 0 [] 1) =
      parse_loop (going ?tail (add_children ?node cs) [] vl1 [] l1)"
    using run_items [OF cs(2), of ?node ?tail 0 1] cs(3) by (auto simp: lzd_newOne_def)
  let ?q = "(going (cr b @ CHR 0x0A # s) (add_children ?node cs) [] vl1 [] l1)\<lparr>m_bEnd := True\<rparr>"
  have sub: "parse_loop (going (cr b @ CHR 0x0A # ?items @ ?tail) (lzd_newOne (trimString t) []) [] 0 [] 0) = ?q"
    by (simp add: run_break lzd_tag_ok_trim [OF t] run run_table blank_def run_close)
  have "add_children ?node cs = LZNode LZD_LZD t [] cs" by (simp add: add_children_def lzd_newOne_def)
  then have "parse_loop (going (CHR 0x7B # cr b @ CHR 0x0A # ?items @ ?tail) n t l [] (l + 1)) =
      parse_loop (going (cr b @ CHR 0x0A # s) (add_children n [LZNode LZD_LZD t [] cs]) [] l [] (l + 1 + l1))"
    using run_brace [OF t'(1) sub, of n l "l + 1"] by (simp add: going_def)
  then have "\<exists>vl' l'. parse_loop (going (CHR 0x7B # cr b @ CHR 0x0A # ?items @ ?tail) n t l [] (l + 1)) =
      parse_loop (going s (add_children n [LZNode LZD_LZD t [] cs]) [] vl' [] l')"
    unfolding run_break by blast
  moreover have "brk b (lzd_item d (LZNode LZD_LZD t [] cs)) @ s =
      printTable d @ t @ cr b @ CHR 0x0A # printTable d @ CHR 0x7B # cr b @ CHR 0x0A # ?items @ ?tail"
    using cs(1) tag_line [OF t] by (simp add: lzd_item_inner lzd_open_def lzd_close_def brk_line brk_concat)
  then have "parse_loop (going (brk b (lzd_item d (LZNode LZD_LZD t [] cs)) @ s) n [] vl [] l) =
      parse_loop (going (CHR 0x7B # cr b @ CHR 0x0A # ?items @ ?tail) n t l [] (l + 1))"
    using t' nb by (simp add: run_table run_tag run_break_tag lzd_tag_ok_trim [OF t] blank_def)
  ultimately show ?thesis by simp
qed

lemma run_item: "lzd_ok c \<Longrightarrow> item_runs b d c"
proof (induction c arbitrary: d)
  case (LZNode k t v cs)
  show ?case
  proof (cases "cs = []")
    case True
    with LZNode.prems show ?thesis
      by (auto simp: item_runs_def lzd_item_def countChildren_def LZData_asString_def intro!: run_leaf exI)
  next
    case False
    with LZNode have "list_all (item_runs b (Suc d)) cs" by (auto simp: list_all_iff)
    with False LZNode.prems run_inner [of t cs b d] show ?thesis
      by (simp add: item_runs_def [of b d])
  qed
qed

lemma no_NUL_value: "CHR 0x00 \<notin> set v \<Longrightarrow> CHR 0x00 \<notin> set (convertValue v)"
  by (induction v) auto

lemma no_NUL_item: "lzd_ok c \<Longrightarrow> CHR 0x00 \<notin> set (lzd_item d c)"
proof (induction c arbitrary: d)
  case (LZNode k t v cs)
  then have t: "CHR 0x00 \<notin> set t" by (auto simp: lzd_tag_ok_def plain_char_def list_all_iff)
  show ?case
  proof (cases "cs = []")
    case True
    with LZNode t no_NUL_value [of v] show ?thesis
      by (auto simp: lzd_item_def countChildren_def lzd_leaf_def LZData_asString_def printTable_def
          lzd_value_ok_def list_all_iff)
  next
    case False
    with LZNode t show ?thesis
      by (auto simp: lzd_item_inner lzd_open_def lzd_close_def printTable_def list_all_iff)
  qed
qed

lemma lzd_text_parse:
  assumes "list_all lzd_ok cs" "leaves_new [] cs"
  shows "lzd_createFromBuffer (brk b (LZData_print 0 (LZNode LZD_LZD ''root'' [] cs))) len =
    LZNode LZD_LZD ''root'' [] cs"
proof -
  let ?n = "lzd_newOne ''root'' []"
  obtain vl l where "parse_loop (going (concat (map (\<lambda>c. brk b (lzd_item 0 c)) cs) @ []) ?n [] 0 [] 0) =
      parse_loop (going [] (add_children ?n cs) [] vl [] l)"
    using run_items [of b 0 cs ?n "[]" 0 0] assms(1,2) run_item
    by (auto simp: lzd_newOne_def list_all_iff)
  moreover have "parse_loop (going [] m [] vl [] l) = going [] m [] vl [] l" for m
    by (subst parse_loop.simps) (simp add: going_def)
  moreover have "CHR 0x00 \<notin> set (concat (map (lzd_item 0) cs))"
    using assms(1) no_NUL_item by (auto simp: list_all_iff)
  then have "CHR 0x00 \<notin> set (brk b (concat (map (lzd_item 0) cs)))"
    using set_text_mode [of "concat (map (lzd_item 0) cs)"] by (auto simp: brk_def simp del: set_concat)
  ultimately show ?thesis
    by (simp add: lzd_createFromBuffer_def cParser_parse_def parse_reset_def cParser_new_def going_def
        c_str_id lzd_print_items brk_concat add_children_def lzd_newOne_def del: LZData_print.simps)
qed

lemma lzd_print_parse:
  assumes "list_all lzd_ok cs" "leaves_new [] cs"
  shows "lzd_createFromBuffer (LZData_print 0 (LZNode LZD_LZD ''root'' [] cs)) len =
    LZNode LZD_LZD ''root'' [] cs"
  using lzd_text_parse [OF assms, of False len] by (simp only: brk_def if_False)

text \<open>The documents of the format: the root carries no value and the name the factory gives it.\<close>

definition lzd_doc_ok :: "lzdata \<Rightarrow> bool" where
  "lzd_doc_ok n \<longleftrightarrow> n = LZNode LZD_LZD ''root'' [] (m_children n) \<and> list_all lzd_ok (m_children n) \<and>
     leaves_new [] (m_children n)"

interpretation lzd: document_format lzd_doc_ok "\<lambda>s. Inr (lzd_createFromBuffer s (int (length s)))"
proof unfold_locales
  fix d assume "lzd_doc_ok d"
  with lzd_print_parse [of "m_children d"]
  have "lzd_createFromBuffer (LZData_print 0 d) (int (length (LZData_print 0 d))) = d"
    unfolding lzd_doc_ok_def by metis
  then show "Inr (lzd_createFromBuffer (LZData_print 0 d) (int (length (LZData_print 0 d)))) = (Inr d :: lzdata outcome)"
    by simp
qed

text \<open>
  C3: reading the printed text of a document gives the document back, for every depth of nesting,
  when tags are plain, values have neither line end nor backslash, and no leaf repeats the tag of
  an earlier sibling.
\<close>

theorem lzd_roundtrip:
  assumes "list_all lzd_ok cs" "leaves_new [] cs"
  shows "lzd_createFromBuffer (LZData_print 0 (LZNode LZD_LZD ''root'' [] cs)) len =
    LZNode LZD_LZD ''root'' [] cs"
  using assms by (rule lzd_print_parse)

definition sample_lzd :: "lzdata list" where
  "sample_lzd =
     [LZNode LZD_LZD ''cores'' ''4'' [],
      LZNode LZD_LZD ''mysql'' '''' [LZNode LZD_LZD ''ip'' ''::1'' [], LZNode LZD_LZD ''pass'' ''a;b#}'' []],
      LZNode LZD_LZD ''mysql'' '''' [LZNode LZD_LZD ''ip'' ''::2'' []]]"

theorem lzd_roundtrip_witness:
  "lzd_createFromBuffer (LZData_print 0 (LZNode LZD_LZD ''root'' [] sample_lzd)) 0 =
     LZNode LZD_LZD ''root'' [] sample_lzd"
  by (rule lzd_roundtrip)
    (simp_all add: sample_lzd_def lzd_tag_ok_def plain_char_def isWhiteSpace_def lzd_value_ok_def trimmed_def)

text \<open>
  \<open>convertValue\<close> does not escape the backslash, which \<open>getAStr\<close> treats as an escape: a value
  that starts with two backslashes, as a network path does, is read back with one.
\<close>

theorem double_backslash_collapses:
  assumes "lzd_tag_ok t" "lzd_value_ok v" "v \<noteq> []"
  shows "lzd_createFromBuffer (LZData_print 0
      (LZNode LZD_LZD ''root'' [] [LZNode LZD_LZD t (CHR 0x5C # CHR 0x5C # v) []])) len =
    LZNode LZD_LZD ''root'' [] [LZNode LZD_LZD t (CHR 0x5C # v) []]"
proof -
  let ?n = "lzd_newOne ''root'' []" and ?v = "CHR 0x5C # CHR 0x5C # v"
  have v: "AStr_scan (convertValue v @ [CHR 0x0A]) = (v, [CHR 0x0A])"
    using assms(2) AStr_value [of v False "[]"] by (auto simp: lzd_value_ok_def list_all_iff cr_def)
  have "AStr_scan (convertValue ?v @ [CHR 0x0A]) = (CHR 0x5C # v, [CHR 0x0A])"
    using AStr_escape [OF _ v, of "CHR 0x5C"] by (simp add: is_escaped_def)
  moreover have "trimmed (CHR 0x5C # v)"
    using assms(2,3) by (simp add: trimmed_def lzd_value_ok_def isWhiteSpace_def)
  ultimately have "parse_loop (going (lzd_leaf 0 t ?v @ []) ?n [] 0 [] 0) =
      parse_loop (going [] (add_children ?n [LZNode LZD_LZD t (CHR 0x5C # v) []]) [] 0 [] (0 + 1))"
    using run_leaf_as [OF assms(1), of "CHR 0x5C # v" ?n ?v False "[]" 0 0 0]
    by (simp add: lzd_newOne_def lzd_leaf_def cr_def)
  moreover have "CHR 0x00 \<notin> set (lzd_leaf 0 t ?v)"
    using assms(1,2) no_NUL_value [of v]
    by (auto simp: lzd_leaf_def printTable_def lzd_value_ok_def lzd_tag_ok_def plain_char_def list_all_iff)
  ultimately show ?thesis
    by (simp add: lzd_createFromBuffer_def cParser_parse_def parse_reset_def cParser_new_def going_def
        c_str_id add_children_def lzd_newOne_def countChildren_def LZData_asString_def parse_loop.simps
        del: convertValue.simps)
qed

theorem double_backslash_collapses_witness:
  "lzd_createFromBuffer (LZData_print 0
      (LZNode LZD_LZD ''root'' [] [LZNode LZD_LZD ''path'' (CHR 0x5C # CHR 0x5C # ''nas'') []])) 0 =
    LZNode LZD_LZD ''root'' [] [LZNode LZD_LZD ''path'' (CHR 0x5C # ''nas'') []]"
  by (rule double_backslash_collapses)
    (simp_all add: lzd_tag_ok_def plain_char_def isWhiteSpace_def lzd_value_ok_def trimmed_def)

lemma take_name_frame: "(name, p1) = take_name p \<Longrightarrow> m_bEnd p1 = m_bEnd p"
  by (auto simp: handler_defs split: if_splits)

lemma suffix_dropWhile: "suffix (dropWhile P s) s"
  by (metis suffixI takeWhile_dropWhile_id)

lemma AStr_scan_suffix: "suffix (snd (AStr_scan s)) s"
proof (induction s rule: AStr_scan.induct)
  case (2 ch xs)
  then show ?case
    by (cases xs) (auto simp: AStr_scan.simps(2) [of ch] case_prod_beta intro: suffix_ConsI)
qed simp

lemma onChar_suffix: "suffix (m_strText (onChar ch p)) (m_strText p)"
proof -
  obtain name p1 where p1: "(name, p1) = take_name p" by (metis surj_pair)
  have "m_strText (onEqual p) = m_strText p \<or> m_strText (onEqual p) = snd (AStr_scan (m_strText p))"
    using take_name_text [OF p1] by (simp add: onEqual_def p1 [symmetric] getAStr_def case_prod_beta)
  then have "suffix (m_strText (onEqual p)) (m_strText p)" using AStr_scan_suffix by auto
  then show ?thesis
    by (auto simp: onChar_def onReturn_text onRBraket_def onSpace_def onComment_def onOther_def
        skipSpace_def skipToReturn_def setVar_def setError_def suffix_dropWhile)
qed

lemma onChar_end: "m_bEnd (onChar ch p) \<longleftrightarrow> m_bEnd p \<or> ch = CHR 0x7D"
proof -
  obtain name p1 where p1: "(name, p1) = take_name p" by (metis surj_pair)
  then have "m_bEnd (onEqual p) = m_bEnd p" "m_bEnd (onReturn p) = m_bEnd p"
    using take_name_frame [OF p1]
    by (simp_all add: onEqual_def onReturn_def p1 [symmetric] getAStr_def setError_def setVar_def case_prod_beta)
  then show ?thesis
    by (auto simp: onChar_def onRBraket_def onSpace_def onComment_def onOther_def
        skipSpace_def skipToReturn_def setVar_def setError_def)
qed

lemma on_error_frame:
  "m_errorID (on_error p) = 0" "m_bEnd (on_error p) = m_bEnd p"
  "suffix (m_strText (on_error p)) (m_strText p)"
  by (auto simp: on_error_def onError_def cParser_error_def skipToEnd_def setError_def Let_def suffix_dropWhile)

lemma onChar_close: "m_errorID p = 0 \<Longrightarrow> on_error (onChar (CHR 0x7D) p) = p\<lparr>m_bEnd := True\<rparr>"
  by (simp add: onChar_def onRBraket_def on_error_def cParser_error_def)

lemma parse_loop_ended: "m_bEnd p \<Longrightarrow> parse_loop p = p"
  by (subst parse_loop.simps) (simp split: list.split)

definition stopped :: "cParser \<Rightarrow> string \<Rightarrow> bool" where
  "stopped p s \<longleftrightarrow> (if m_bEnd p then suffix (CHR 0x7D # m_strText p) s else m_strText p = [])"

lemma stopped_suffix: "stopped p s \<Longrightarrow> suffix (m_strText p) s"
  by (auto simp: stopped_def intro: suffix_ConsD split: if_splits)

lemma stopped_mono: "stopped p s \<Longrightarrow> suffix s s' \<Longrightarrow> stopped p s'"
  by (auto simp: stopped_def intro: suffix_order.trans split: if_splits)

lemma parse_loop_stopped:
  "\<not> m_bEnd p \<Longrightarrow> m_errorID p = 0 \<Longrightarrow> stopped (parse_loop p) (m_strText p)"
proof (induction p rule: parse_loop.induct)
  case (1 p)
  show ?case
  proof (cases "m_strText p")
    case Nil
    with 1 show ?thesis by (subst parse_loop.simps) (simp add: stopped_def)
  next
    case (Cons ch rest)
    let ?p = "p\<lparr>m_strText := rest\<rparr>"
    obtain name p1 where p1: "(name, p1) = take_name ?p" by (metis surj_pair)
    from take_name_text [OF p1] take_name_frame [OF p1] "1.prems"
    have t: "m_strText p1 = rest" "\<not> m_bEnd p1" by auto
    have le: "stopped q (m_strText p)" if "suffix s rest" "stopped q s" for q s
      using that Cons by (auto intro: stopped_mono suffix_ConsI)
    consider "ch = CHR 0x7B" "cParser_error p1" | "ch = CHR 0x7B" "\<not> cParser_error p1"
      | "ch = CHR 0x7D" | "ch \<noteq> CHR 0x7B" "ch \<noteq> CHR 0x7D" by blast
    then show ?thesis
    proof cases
      case 1
      with "1.IH"(1) [OF Cons _ _ p1 refl] "1.prems" on_error_frame [of p1] t
      have "stopped (parse_loop (on_error p1)) (m_strText (on_error p1))" by simp
      moreover have "parse_loop p = parse_loop (on_error p1)"
        using 1 "1.prems" Cons by (subst parse_loop.simps) (simp add: p1 [symmetric])
      ultimately show ?thesis using le on_error_frame(3) [of p1] t by simp
    next
      case 2
      let ?q = "parse_loop (brace_enter name p1)" and ?r = "brace_leave (parse_loop (brace_enter name p1)) p1"
      have r: "on_error ?r = ?r"
        using 2 by (simp add: on_error_def cParser_error_def brace_leave_def)
      from 2 "1.IH"(2) [OF Cons _ _ p1 refl] "1.prems" t have "stopped ?q rest"
        by (simp add: brace_enter_def parse_reset_def cParser_new_def)
      then have "suffix (m_strText ?r) rest" by (simp add: stopped_suffix)
      moreover from 2 "1.IH"(3) [OF Cons _ _ p1 refl] "1.prems" t r have "stopped (parse_loop ?r) (m_strText ?r)"
        by (simp add: cParser_error_def brace_leave_def)
      moreover have "parse_loop p = parse_loop ?r"
        using 2 "1.prems" Cons r by (subst parse_loop.simps) (simp add: p1 [symmetric])
      ultimately show ?thesis using le by simp
    next
      case 3
      then have "parse_loop p = ?p\<lparr>m_bEnd := True\<rparr>"
        using "1.prems" Cons onChar_close [of ?p]
        by (subst parse_loop.simps) (simp add: parse_loop_ended)
      with 3 Cons show ?thesis by (simp add: stopped_def)
    next
      case 4
      let ?r = "on_error (onChar ch ?p)"
      from 4 "1.IH"(4) [OF Cons] "1.prems" have "stopped (parse_loop ?r) (m_strText ?r)"
        by (simp add: on_error_frame onChar_end)
      moreover have "suffix (m_strText ?r) rest"
        using on_error_frame(3) [of "onChar ch ?p"] onChar_suffix [of ch ?p]
        by (simp add: suffix_order.trans)
      moreover have "parse_loop p = parse_loop ?r"
        using 4 "1.prems" Cons by (subst parse_loop.simps) simp
      ultimately show ?thesis using le by simp
    qed
  qed
qed

text \<open>
  C19: the parser returns on every text.  It stops at the end of the text or right behind a closing
  brace, and what it leaves is a suffix of what it was given.
\<close>

theorem parser_stops:
  "if m_bEnd (cParser_parse p) then suffix (CHR 0x7D # m_strText (cParser_parse p)) (m_strText p)
   else m_strText (cParser_parse p) = []"
  using parse_loop_stopped [of "parse_reset p"]
  by (simp add: cParser_parse_def parse_reset_def stopped_def)


section \<open>The documents the reader can deliver\<close>

text \<open>
  A tag is written without the characters that mean something to the reader, a value is trimmed
  and stays on one line.
\<close>

definition name_text :: "string \<Rightarrow> bool" where
  "name_text t \<longleftrightarrow> list_all (\<lambda>c. c \<notin> {CHR 0x7B, CHR 0x7D, CHR ''='', CHR 0x0A, CHR 0x20, CHR 0x09, CHR ''#'', CHR '';''}) t"

definition value_text :: "string \<Rightarrow> bool" where
  "value_text v \<longleftrightarrow> trimmed v \<and> CHR 0x0A \<notin> set v"

fun lzd_typed :: "lzdata \<Rightarrow> bool" where
  "lzd_typed (LZNode k t v cs) \<longleftrightarrow> k = LZD_LZD \<and> name_text t \<and> value_text v \<and> list_all lzd_typed cs"

lemma lzd_typed_sel:
  "lzd_typed n \<longleftrightarrow> m_class n = LZD_LZD \<and> name_text (m_tag n) \<and> value_text (m_value n) \<and>
     list_all lzd_typed (m_children n)"
  by (cases n) simp

lemma value_text_Nil [simp]: "value_text []"
  by (simp add: value_text_def trimmed_def)

lemma name_text_Nil [simp]: "name_text []"
  by (simp add: name_text_def)

lemma name_text_mono: "set s \<subseteq> set t \<Longrightarrow> name_text t \<Longrightarrow> name_text s"
  by (auto simp: name_text_def list_all_iff)

lemma set_trimString: "set (trimString s) \<subseteq> set s"
  by (auto simp: trimString_def ltrimString_dropWhile rtrimString_spec dest!: set_dropWhileD)

lemma name_text_trim: "name_text t \<Longrightarrow> name_text (trimString t)"
  by (rule name_text_mono [OF set_trimString])

lemma AStr_scan_line: "CHR 0x0A \<notin> set (fst (AStr_scan s))"
proof (induction s rule: AStr_scan.induct)
  case (2 ch xs)
  then show ?case
    by (cases xs) (auto simp: AStr_scan.simps(2) [of ch] case_prod_beta is_escaped_def)
qed simp

lemma getAStr_value: "value_text (fst (getAStr p))"
  using AStr_scan_line [of "m_strText p"] set_trimString [of "fst (AStr_scan (m_strText p))"]
  by (auto simp: getAStr_def case_prod_beta value_text_def trimmed_trimString)

lemma path_names_set: "x \<in> set (path_names tag) \<Longrightarrow> set x \<subseteq> set tag"
proof (induction tag rule: path_names.induct)
  case (1 tag)
  show ?case
  proof (cases "find_first_of SLASH tag")
    case None
    with "1.prems" show ?thesis by (subst (asm) path_names.simps) simp
  next
    case (Some pos)
    with "1.prems" have "x = take pos tag \<or> x \<in> set (path_names (drop (pos + 1) tag))"
      by (subst (asm) path_names.simps) simp
    with "1.IH" [OF Some] show ?thesis
      using set_take_subset [of pos tag] set_drop_subset [of "pos + 1" tag] by auto
  qed
qed

lemma typed_children:
  "lzd_typed n \<Longrightarrow> lzd_typed c \<Longrightarrow> lzd_typed (add_children n [c])"
  "lzd_typed n \<Longrightarrow> lzd_typed c \<Longrightarrow> lzd_typed (set_child n i c)"
  "lzd_typed n \<Longrightarrow> i < length (m_children n) \<Longrightarrow> lzd_typed (m_children n ! i)"
  "lzd_typed n \<Longrightarrow> value_text v \<Longrightarrow> lzd_typed (setValue v n)"
  by (cases n; auto simp: add_children_def set_child_def setValue_def list_all_iff dest!: set_update_subset_insert [THEN subsetD])+

lemma typed_store:
  "lzd_typed n \<Longrightarrow> list_all name_text xs \<Longrightarrow> value_text v \<Longrightarrow> lzd_typed (fst (store n xs v))"
proof (induction n xs v rule: store.induct)
  case (2 n x v)
  have new: "lzd_typed (LZNode (m_class n) x v [])"
    using 2 by (simp add: lzd_typed_sel [of n])
  show ?case
  proof (cases "\<exists>i. find_first_of x (child_tags n) = Some (Suc i)")
    case True
    then obtain i where i: "find_first_of x (child_tags n) = Some (Suc i)" by blast
    with find_child_tag [OF i] 2 show ?thesis by (simp add: typed_children)
  next
    case False
    with new 2 show ?thesis by (auto intro: typed_children split: option.splits nat.splits)
  qed
next
  case (3 n x y ys v)
  show ?case
  proof (cases "find_first_of x (child_tags n)")
    case None
    have "lzd_typed (LZNode (m_class n) x '''' [])"
      using 3(3,4) by (simp add: lzd_typed_sel [of n])
    with 3(1) [OF None] 3 None show ?thesis by (simp add: case_prod_beta typed_children)
  next
    case (Some i)
    with 3(2) [OF Some] 3 find_child_tag [OF Some] show ?thesis
      by (simp add: case_prod_beta typed_children)
  qed
qed simp

definition parser_typed :: "cParser \<Rightarrow> bool" where
  "parser_typed p \<longleftrightarrow> lzd_typed (m_pCurNode p) \<and> name_text (m_variable p) \<and> name_text (m_curVariable p)"

lemma take_name_typed:
  "(name, p1) = take_name p \<Longrightarrow> parser_typed p \<Longrightarrow> name_text name \<and> parser_typed p1"
  by (auto simp: handler_defs parser_typed_def name_text_trim split: if_splits)

lemma onEqual_typed: "parser_typed p \<Longrightarrow> parser_typed (onEqual p)"
proof -
  assume p: "parser_typed p"
  obtain name p1 where p1: "(name, p1) = take_name p" by (metis surj_pair)
  from take_name_typed [OF p1 p] have t: "name_text name" "parser_typed p1" by auto
  have "list_all name_text (path_names name)"
    unfolding list_all_iff by (intro ballI, rule name_text_mono [OF path_names_set t(1)])
  moreover have "m_pCurNode (snd (getAStr p1)) = m_pCurNode p1" by (simp add: getAStr_def case_prod_beta)
  ultimately show "parser_typed (onEqual p)"
    using t getAStr_value [of p1]
    by (auto simp: onEqual_def p1 [symmetric] case_prod_beta LZData_write_store parser_typed_def
        getAStr_def intro!: typed_store)
qed

lemma onChar_typed: "parser_typed p \<Longrightarrow> ch \<noteq> CHR 0x7B \<Longrightarrow> parser_typed (on_error (onChar ch p))"
proof -
  assume p: "parser_typed p" and ch: "ch \<noteq> CHR 0x7B"
  obtain name p1 where p1: "(name, p1) = take_name p" by (metis surj_pair)
  from take_name_typed [OF p1 p] have "parser_typed (onReturn p)"
    by (simp add: onReturn_def p1 [symmetric] setVar_def setError_def parser_typed_def)
  with p ch onEqual_typed [OF p] have "parser_typed (onChar ch p)"
    by (auto simp: onChar_def onRBraket_def onSpace_def onComment_def onOther_def skipSpace_def
        skipToReturn_def setVar_def setError_def parser_typed_def name_text_def)
  then show "parser_typed (on_error (onChar ch p))"
    by (simp add: on_error_def onError_def skipToEnd_def setError_def Let_def parser_typed_def)
qed

lemma parse_loop_typed: "parser_typed p \<Longrightarrow> parser_typed (parse_loop p)"
proof (induction p rule: parse_loop.induct)
  case (1 p)
  show ?case
  proof (cases "m_strText p = [] \<or> m_bEnd p")
    case True
    with "1.prems" show ?thesis by (subst parse_loop.simps) (auto split: list.split)
  next
    case False
    then obtain ch rest where Cons: "m_strText p = ch # rest" and go: "\<not> m_bEnd p"
      by (cases "m_strText p") auto
    let ?p = "p\<lparr>m_strText := rest\<rparr>"
    have p: "parser_typed ?p" using "1.prems" by (simp add: parser_typed_def)
    obtain name p1 where p1: "(name, p1) = take_name ?p" by (metis surj_pair)
    from take_name_typed [OF p1 p] have t: "name_text name" "parser_typed p1" by auto
    consider "ch \<noteq> CHR 0x7B" | "ch = CHR 0x7B" "cParser_error p1" | "ch = CHR 0x7B" "\<not> cParser_error p1"
      by blast
    then show ?thesis
    proof cases
      case 1
      have "parser_typed (parse_loop (on_error (onChar ch ?p)))"
        by (rule "1.IH"(4) [OF Cons go 1 onChar_typed [OF p 1]])
      with 1 Cons go show ?thesis by (subst parse_loop.simps) simp
    next
      case 2
      have "parser_typed (on_error p1)"
        using t(2) by (simp add: on_error_def onError_def skipToEnd_def setError_def Let_def parser_typed_def)
      with 2 "1.IH"(1) [OF Cons go 2(1) p1 refl 2(2)] Cons go show ?thesis
        by (subst parse_loop.simps) (simp add: p1 [symmetric])
    next
      case 3
      let ?r = "brace_leave (parse_loop (brace_enter name p1)) p1"
      have "parser_typed (brace_enter name p1)"
        using t(1) by (simp add: brace_enter_def parse_reset_def cParser_new_def lzd_newOne_def parser_typed_def)
      with 3 "1.IH"(2) [OF Cons go 3(1) p1 refl 3(2)] have "parser_typed (parse_loop (brace_enter name p1))"
        by simp
      with t(2) have "parser_typed ?r"
        by (simp add: brace_leave_def parser_typed_def typed_children)
      moreover have "on_error ?r = ?r" using 3 by (simp add: on_error_def cParser_error_def brace_leave_def)
      ultimately show ?thesis
        using 3 "1.IH"(3) [OF Cons go 3(1) p1 refl 3(2)] Cons go
        by (subst parse_loop.simps) (simp add: p1 [symmetric])
    qed
  qed
qed

text \<open>
  C20: whatever the text, right or wrong, every entry of the document that the lzd reader delivers
  has a tag without blanks, line ends and marks, and a value that is trimmed and on one line.
\<close>

theorem lzd_document_typed: "lzd_typed (lzd_createFromBuffer buffer len)"
  using parse_loop_typed [of "parse_reset (cParser_new (c_str buffer) (lzd_newOne ''root'' ''''))"]
  by (simp add: lzd_createFromBuffer_def cParser_parse_def parse_reset_def cParser_new_def lzd_newOne_def
      parser_typed_def name_text_def)

end
