(* ===== verification/Documents.thy ===== *)
theory Documents
  imports LzdFormat Platform
begin

text \<open>
  Documents as files: \<open>LZData::save\<close> and the two factory functions of src/LZData/LZData.cpp, which choose
  the reader by the format asked for.
\<close>

text \<open>The stream is opened in text mode.\<close>

definition LZData_save :: "('w, 'x) file_api_scheme \<Rightarrow> lzdata \<Rightarrow> string \<Rightarrow> 'w \<Rightarrow> bool \<times> 'w" where
  "LZData_save api n fileName w = write_file api (c_str fileName) (text_mode (LZData_print 0 n)) w"

definition createLzdFromBuffer :: "LzDataType \<Rightarrow> string \<Rightarrow> int \<Rightarrow> lzdata outcome" where
  "createLzdFromBuffer type buffer len =
     (case type of
        LZD_LZD \<Rightarrow> Inr (lzd_createFromBuffer buffer len)
      | LZD_XML \<Rightarrow> xml_createFromBuffer buffer (nat len))"

definition createLzdFromFile ::
    "(string \<Rightarrow> string option) \<Rightarrow> string \<Rightarrow> LzDataType \<Rightarrow> string \<Rightarrow> lzdata option outcome" where
  "createLzdFromFile fopen beyond type fname =
     (case type of
        LZD_LZD \<Rightarrow> Inr (lzd_createFromFile fopen beyond fname)
      | LZD_XML \<Rightarrow> xml_createFromFile fopen fname)"

text \<open>A document is representable if the format of its own class can represent it.\<close>

definition own_format :: "lzdata \<Rightarrow> bool" where
  "own_format d \<longleftrightarrow> (case m_class d of LZD_LZD \<Rightarrow> lzd_doc_ok d | LZD_XML \<Rightarrow> wf_xml_doc d)"

interpretation own: document_format "\<lambda>d. own_format d \<and> m_class d = type"
  "\<lambda>s. createLzdFromBuffer type s (int (length s))" for type
  using lzd.parse_print xml.parse_print
  by unfold_locales (auto simp: own_format_def createLzdFromBuffer_def split: LzDataType.splits)

section \<open>A saved document is loaded again\<close>

fun one_line :: "lzdata \<Rightarrow> bool" where
  "one_line (LZNode k t v cs) \<longleftrightarrow> CHR 0x0A \<notin> set t \<and> CHR 0x0A \<notin> set v \<and> list_all one_line cs"

definition file_format :: "lzdata \<Rightarrow> bool" where
  "file_format d \<longleftrightarrow> own_format d \<and> m_children d \<noteq> [] \<and> (m_class d = LZD_XML \<longrightarrow> list_all one_line (m_children d))"

lemma text_mode_concat: "text_mode (concat (map f xs)) = concat (map (\<lambda>x. text_mode (f x)) xs)"
  by (induction xs) auto

lemma text_mode_core: "one_line n \<Longrightarrow> text_mode (xml_core [CHR 0x0A] d n) = xml_core [CHR 0x0D, CHR 0x0A] d n"
proof (induction n arbitrary: d)
  case (LZNode k t v cs)
  then have "text_mode (xml_core [CHR 0x0A] (Suc d) c) = xml_core [CHR 0x0D, CHR 0x0A] (Suc d) c"
    if "c \<in> set cs" for c
    using that by (auto simp: list_all_iff)
  with LZNode.prems show ?case
    by (auto simp: text_mode_id text_mode_concat intro!: arg_cong [where f = concat] map_cong)
qed

lemma saved_xml:
  assumes "wf_xml_doc d" "list_all one_line (m_children d)"
  shows "text_mode (LZData_print 0 d) = xml_items [CHR 0x0D, CHR 0x0A] 0 (m_children d)"
proof -
  have "map (\<lambda>c. text_mode (xml_core [CHR 0x0A] 0 c @ [CHR 0x0A])) (m_children d) =
      map (\<lambda>c. xml_core [CHR 0x0D, CHR 0x0A] 0 c @ [CHR 0x0D, CHR 0x0A]) (m_children d)"
    using assms(2) by (auto simp: list_all_iff text_mode_core)
  then show ?thesis by (simp only: xml_doc_text [OF assms(1)] text_mode_concat)
qed

lemma load_xml:
  assumes "wf_xml_doc d" "m_children d \<noteq> []" "list_all one_line (m_children d)"
    and "fopen f = Some (text_mode (LZData_print 0 d))"
  shows "xml_createFromFile fopen f = Inr (Some d)"
proof (rule xml_file [OF assms(1) _ assms(2)])
  show "line_break [CHR 0x0D, CHR 0x0A]" by (simp add: line_break_def)
  show "fopen f = Some (xml_items [CHR 0x0D, CHR 0x0A] 0 (m_children d))"
    by (simp only: assms(4) saved_xml [OF assms(1,3)])
qed

lemma load_lzd:
  assumes "lzd_doc_ok d" "m_children d \<noteq> []" "c_str beyond = []"
    and "fopen f = Some (text_mode (LZData_print 0 d))"
  shows "lzd_createFromFile fopen beyond f = Some d"
proof -
  obtain cs where d: "d = LZNode LZD_LZD ''root'' [] cs" "list_all lzd_ok cs" "leaves_new [] cs" "cs \<noteq> []"
    using assms(1,2) by (metis lzd_doc_ok_def lzdata.sel(4))
  let ?s = "text_mode (concat (map (lzd_item 0) cs))"
  have printed: "text_mode (LZData_print 0 d) = ?s" by (simp only: d(1) lzd_print_items)
  have "CHR 0x00 \<notin> set (concat (map (lzd_item 0) cs))"
    using d(2) no_NUL_item by (auto simp: list_all_iff)
  then have nul: "CHR 0x00 \<notin> set ?s"
    using set_text_mode [of "concat (map (lzd_item 0) cs)"] by (auto simp del: set_concat)
  then have "c_str (?s @ beyond) = ?s"
    using assms(3) by (auto simp: c_str_def takeWhile_append)
  then have "lzd_createFromBuffer (?s @ beyond) n = lzd_createFromBuffer ?s n" for n
    using c_str_id [OF nul] by (simp only: lzd_createFromBuffer_def)
  moreover have "lzd_createFromBuffer ?s n = d" for n
    using lzd_text_parse [OF d(2,3), of True n] by (simp only: brk_def if_True lzd_print_items d(1))
  moreover have "?s \<noteq> []"
    using d(4) by (cases cs) (auto simp: lzd_item_def lzd_open_def lzd_leaf_def)
  ultimately show ?thesis
    using assms(4) by (simp add: printed lzd_createFromFile_def LZ_readFileBuffer_def)
qed

text \<open>
  C4: a document that was saved to a file is loaded from it unchanged, in either format and with the
  line breaks of text mode, when the format can represent it, it is not empty, and for an lzd file the
  memory behind the reader's buffer starts with a NUL.  The file system is assumed to deliver what was
  written.
\<close>

theorem save_then_load:
  assumes "\<And>name text w w'. write_file api name text w = (True, w') \<Longrightarrow> fopen w' name = Some text"
    and "file_format d" and "c_str f = f" and "c_str beyond = []"
    and "LZData_save api d f w = (True, w')"
  shows "createLzdFromFile (fopen w') beyond (m_class d) f = Inr (Some d)"
proof -
  have "write_file api f (text_mode (LZData_print 0 d)) w = (True, w')"
    using assms(3,5) by (simp only: LZData_save_def)
  then have stored: "fopen w' f = Some (text_mode (LZData_print 0 d))" by (rule assms(1))
  show ?thesis
  proof (cases "m_class d")
    case LZD_LZD
    with assms(2) have "lzd_doc_ok d" "m_children d \<noteq> []"
      by (simp_all add: file_format_def own_format_def)
    then have "lzd_createFromFile (fopen w') beyond f = Some d"
      using assms(4) stored by (rule load_lzd)
    with LZD_LZD show ?thesis by (simp add: createLzdFromFile_def)
  next
    case LZD_XML
    with assms(2) have "wf_xml_doc d" "m_children d \<noteq> []" "list_all one_line (m_children d)"
      by (simp_all add: file_format_def own_format_def)
    then have "xml_createFromFile (fopen w') f = Inr (Some d)"
      using stored by (rule load_xml)
    with LZD_XML show ?thesis by (simp add: createLzdFromFile_def)
  qed
qed

text \<open>Both formats on the file system in memory.\<close>

definition xml_sample :: lzdata where
  "xml_sample = LZNode LZD_XML ''root'' []
     [LZNode LZD_XML ''cores'' ''4'' [],
      LZNode LZD_XML ''mysql'' [] [LZNode LZD_XML ''ip'' ''127.0.0.1'' []]]"

definition lzd_sample :: lzdata where
  "lzd_sample = LZNode LZD_LZD ''root'' [] sample_lzd"

definition read_back :: "mem_fs \<Rightarrow> string \<Rightarrow> string option" where
  "read_back w name = map_of (fs_files w) name"

lemma samples_ok: "file_format xml_sample" "file_format lzd_sample"
  by (simp_all add: file_format_def own_format_def xml_sample_def lzd_sample_def sample_lzd_def wf_xml_doc_def
      add_children_def xml_newOne_def tag_ok_def trimmed_def isWhiteSpace_def tag_isAttr_def lzd_doc_ok_def
      lzd_tag_ok_def plain_char_def lzd_value_ok_def)

lemma mem_stores: "write_file mem_files name text w = (True, w') \<Longrightarrow> read_back w' name = Some text"
  by (auto simp: mem_files_def read_back_def)

theorem save_then_load_witness:
  "createLzdFromFile (read_back (snd (LZData_save mem_files xml_sample ''a.xml'' (mem_fs_new []))))
     [CHR 0x00] LZD_XML ''a.xml'' = Inr (Some xml_sample) \<and>
   createLzdFromFile (read_back (snd (LZData_save mem_files lzd_sample ''a.lzd'' (mem_fs_new []))))
     [CHR 0x00] LZD_LZD ''a.lzd'' = Inr (Some lzd_sample)"
proof -
  have ok: "LZData_save mem_files d f w = (True, snd (LZData_save mem_files d f w))" for d f and w :: mem_fs
    by (simp add: LZData_save_def mem_files_def)
  have "c_str ''a.xml'' = ''a.xml''" "c_str ''a.lzd'' = ''a.lzd''" "c_str [CHR 0x00] = []"
    by (simp_all add: c_str_def)
  note names = this
  have "m_class xml_sample = LZD_XML" "m_class lzd_sample = LZD_LZD"
    by (simp_all add: xml_sample_def lzd_sample_def)
  with save_then_load [where api = mem_files and fopen = read_back and w = "mem_fs_new []",
      OF mem_stores samples_ok(1) names(1,3) ok]
    save_then_load [where api = mem_files and fopen = read_back and w = "mem_fs_new []",
      OF mem_stores samples_ok(2) names(2,3) ok]
  show ?thesis by simp
qed

end
