(* ===== verification/Configuration.thy ===== *)
theory Configuration
  imports XmlFormat
begin

text \<open>
  The configuration of src/Judger/Config.cpp and Config.h: the verdict codes, the language
  codes and the connection data.  \<open>loadConfig\<close> assigns the members one after the other and
  stops at the first missing section, so a failed load leaves the members read so far.
  The members without an initialiser in the constructor start with an arbitrary value, which
  is an argument of the model.
\<close>

section \<open>The configuration record\<close>

record Config =
  JE_PENDING :: int
  JE_ACCEPT :: int
  JE_COMPILING :: int
  JE_RUNNING_JUDGINE :: int
  JE_REJUDGE :: int
  JE_COMPLIE :: int
  JE_WRONG_ANWSER :: int
  JE_TIME_LIMITED :: int
  JE_MEMORY_LIMITED :: int
  JE_PRESENT :: int
  JE_SYSTEM :: int
  JE_RUNTIME :: int
  JE_UNKNOWN :: int
  CL_GPLUS :: int
  CL_GCC :: int
  CL_JAVA :: int
  cores :: int
  testDataPath :: string
  dbusername :: string
  dbpassword :: string
  dbip :: string
  dbport :: int
  dbname :: string

definition Config_new :: "int \<Rightarrow> int \<Rightarrow> Config" where
  "Config_new raw_cores raw_port =
     \<lparr>JE_PENDING = 0, JE_ACCEPT = 4, JE_COMPILING = 2, JE_RUNNING_JUDGINE = 3, JE_REJUDGE = 1,
      JE_COMPLIE = 5, JE_WRONG_ANWSER = 6, JE_TIME_LIMITED = 7, JE_MEMORY_LIMITED = 8,
      JE_PRESENT = 9, JE_SYSTEM = 10, JE_RUNTIME = 11, JE_UNKNOWN = 99,
      CL_GPLUS = 0, CL_GCC = 1, CL_JAVA = 2,
      cores = raw_cores, testDataPath = '''', dbusername = '''', dbpassword = '''',
      dbip = '''', dbport = raw_port, dbname = ''''\<rparr>"

section \<open>Loading\<close>

text \<open>The defaults of \<open>readInt\<close> and \<open>readString\<close> in LZData.h are 0 and the empty text.\<close>

definition load_general :: "lzdata \<Rightarrow> Config \<Rightarrow> Config" where
  "load_general doc c =
     c\<lparr>cores := LZData_readInt doc ''cores'' 0,
       testDataPath := LZData_readString doc ''testDataPath'' ''''\<rparr>"

definition load_judgecode :: "lzdata \<Rightarrow> Config \<Rightarrow> Config" where
  "load_judgecode ptr c =
     c\<lparr>JE_PENDING := LZData_readInt ptr ''pending'' 0,
       JE_REJUDGE := LZData_readInt ptr ''rejudge'' 0,
       JE_COMPILING := LZData_readInt ptr ''compiling'' 0,
       JE_RUNNING_JUDGINE := LZData_readInt ptr ''running'' 0,
       JE_ACCEPT := LZData_readInt ptr ''accept'' 0,
       JE_COMPLIE := LZData_readInt ptr ''compile_error'' 0,
       JE_WRONG_ANWSER := LZData_readInt ptr ''wrong_anwser'' 0,
       JE_TIME_LIMITED := LZData_readInt ptr ''time_limited'' 0,
       JE_MEMORY_LIMITED := LZData_readInt ptr ''memory_limited'' 0,
       JE_PRESENT := LZData_readInt ptr ''present_error'' 0,
       JE_SYSTEM := LZData_readInt ptr ''system_error'' 0,
       JE_RUNTIME := LZData_readInt ptr ''runtime_error'' 0,
       JE_UNKNOWN := LZData_readInt ptr ''unknow_error'' 0\<rparr>"

definition load_compiler :: "lzdata \<Rightarrow> Config \<Rightarrow> Config" where
  "load_compiler ptr c =
     c\<lparr>CL_GCC := LZData_readInt ptr ''gcc'' 0,
       CL_GPLUS := LZData_readInt ptr ''g++'' 1,
       CL_JAVA := LZData_readInt ptr ''java'' 3\<rparr>"

definition load_mysql :: "lzdata \<Rightarrow> Config \<Rightarrow> Config" where
  "load_mysql ptr c =
     c\<lparr>dbip := LZData_readString ptr ''ip'' '''',
       dbport := LZData_readInt ptr ''port'' 0,
       dbusername := LZData_readString ptr ''user'' '''',
       dbpassword := LZData_readString ptr ''password'' '''',
       dbname := LZData_readString ptr ''dbname'' ''''\<rparr>"

definition loadConfig_tree :: "lzdata \<Rightarrow> Config \<Rightarrow> bool \<times> Config" where
  "loadConfig_tree doc c =
     (let c1 = load_general doc c
      in case LZData_read doc ''judgecode'' of
           None \<Rightarrow> (False, c1)
         | Some ptr \<Rightarrow>
             let c2 = load_judgecode ptr c1
             in case LZData_read doc ''compiler'' of
                  None \<Rightarrow> (False, c2)
                | Some ptr \<Rightarrow>
                    let c3 = load_compiler ptr c2
                    in case LZData_read doc ''mysql'' of
                         None \<Rightarrow> (False, c3)
                       | Some ptr \<Rightarrow> (True, load_mysql ptr c3))"

definition loadConfig_file ::
    "(string \<Rightarrow> string option) \<Rightarrow> string \<Rightarrow> Config \<Rightarrow> (bool \<times> Config) outcome" where
  "loadConfig_file fopen name c =
     (case xml_createFromFile fopen name of
        Inl f \<Rightarrow> Inl f
      | Inr None \<Rightarrow> Inr (False, c)
      | Inr (Some doc) \<Rightarrow> Inr (loadConfig_tree doc c))"

section \<open>Reading flat sections\<close>

definition leaf :: "string \<Rightarrow> string \<Rightarrow> lzdata" where
  "leaf t v = LZNode LZD_XML t v []"

definition int_leaf :: "string \<Rightarrow> int \<Rightarrow> lzdata" where
  "int_leaf t i = leaf t (show_int i)"

definition group :: "string \<Rightarrow> lzdata list \<Rightarrow> lzdata" where
  "group t cs = LZNode LZD_XML t '''' cs"

lemma node_sel [simp]:
  "m_tag (leaf t v) = t" "m_value (leaf t v) = v" "m_tag (int_leaf t i) = t"
  "m_value (int_leaf t i) = show_int i" "m_tag (group t cs) = t" "m_children (group t cs) = cs"
  by (simp_all add: leaf_def int_leaf_def group_def)

lemma read_plain:
  "SLASH \<notin> set t \<Longrightarrow> LZData_read (group g cs) t =
     (case find_first_of t (map m_tag cs) of None \<Rightarrow> None | Some i \<Rightarrow> Some (cs ! i))"
  by (simp add: LZData_read_lookup path_names_plain split: option.split)

lemma asInt_int_leaf: "is_int32 i \<Longrightarrow> LZData_asInt (int_leaf t i) = i"
proof -
  assume "is_int32 i"
  moreover have "CHR 0x00 \<notin> set (show_int i)"
    using show_int_chars [of "CHR 0x00" i] by (auto simp: is_digit_def)
  ultimately show ?thesis by (simp add: LZData_asInt_def c_str_id atoi_show_int)
qed

lemma asString_leaf: "LZData_asString (leaf t v) = v"
  by (simp add: LZData_asString_def)

lemmas read_group = LZData_readInt_def LZData_readString_def read_plain asInt_int_leaf asString_leaf

section \<open>A configuration as a document\<close>

definition judgecode_section :: "Config \<Rightarrow> lzdata list" where
  "judgecode_section c =
     [int_leaf ''pending'' (JE_PENDING c), int_leaf ''rejudge'' (JE_REJUDGE c),
      int_leaf ''compiling'' (JE_COMPILING c), int_leaf ''running'' (JE_RUNNING_JUDGINE c),
      int_leaf ''accept'' (JE_ACCEPT c), int_leaf ''compile_error'' (JE_COMPLIE c),
      int_leaf ''wrong_anwser'' (JE_WRONG_ANWSER c),
      int_leaf ''time_limited'' (JE_TIME_LIMITED c),
      int_leaf ''memory_limited'' (JE_MEMORY_LIMITED c),
      int_leaf ''present_error'' (JE_PRESENT c), int_leaf ''system_error'' (JE_SYSTEM c),
      int_leaf ''runtime_error'' (JE_RUNTIME c), int_leaf ''unknow_error'' (JE_UNKNOWN c)]"

definition compiler_section :: "Config \<Rightarrow> lzdata list" where
  "compiler_section c =
     [int_leaf ''gcc'' (CL_GCC c), int_leaf ''g++'' (CL_GPLUS c), int_leaf ''java'' (CL_JAVA c)]"

definition mysql_section :: "Config \<Rightarrow> lzdata list" where
  "mysql_section c =
     [leaf ''ip'' (dbip c), int_leaf ''port'' (dbport c), leaf ''user'' (dbusername c),
      leaf ''password'' (dbpassword c), leaf ''dbname'' (dbname c)]"

definition config_doc :: "Config \<Rightarrow> lzdata" where
  "config_doc c = group ''root''
     [int_leaf ''cores'' (cores c), leaf ''testDataPath'' (testDataPath c),
      group ''mysql'' (mysql_section c), group ''compiler'' (compiler_section c),
      group ''judgecode'' (judgecode_section c)]"

definition config_ints :: "Config \<Rightarrow> int list" where
  "config_ints c =
     [JE_PENDING c, JE_ACCEPT c, JE_COMPILING c, JE_RUNNING_JUDGINE c, JE_REJUDGE c, JE_COMPLIE c,
      JE_WRONG_ANWSER c, JE_TIME_LIMITED c, JE_MEMORY_LIMITED c, JE_PRESENT c, JE_SYSTEM c,
      JE_RUNTIME c, JE_UNKNOWN c, CL_GPLUS c, CL_GCC c, CL_JAVA c, cores c, dbport c]"

definition config_texts :: "Config \<Rightarrow> string list" where
  "config_texts c = [testDataPath c, dbusername c, dbpassword c, dbip c, dbname c]"

definition config_ok :: "Config \<Rightarrow> bool" where
  "config_ok c \<longleftrightarrow> list_all is_int32 (config_ints c) \<and>
     list_all (\<lambda>v. trimmed v \<and> CHR ''<'' \<notin> set v) (config_texts c)"

lemma load_config_doc: "config_ok c \<Longrightarrow> loadConfig_tree (config_doc c) c0 = (True, c)"
  by (cases c) (simp add: config_ok_def config_ints_def config_texts_def loadConfig_tree_def
      config_doc_def read_group load_general_def load_judgecode_def load_compiler_def
      load_mysql_def judgecode_section_def compiler_section_def mysql_section_def)

lemma show_int_trimmed: "trimmed (show_int i)" "CHR ''<'' \<notin> set (show_int i)"
proof -
  have "\<not> isWhiteSpace c" if "c \<in> set (show_int i)" for c
    using show_int_chars [OF that] by (auto simp: is_digit_def isWhiteSpace_def)
  then show "trimmed (show_int i)" by (auto simp: trimmed_def)
  show "CHR ''<'' \<notin> set (show_int i)"
    using show_int_chars [of "CHR ''<''" i] by (auto simp: is_digit_def)
qed

lemma trimmed_Nil: "trimmed []"
  by (simp add: trimmed_def)

lemma wf_nodes:
  "tag_ok t \<Longrightarrow> wf_xml (int_leaf t i)"
  "tag_ok t \<Longrightarrow> trimmed v \<Longrightarrow> CHR ''<'' \<notin> set v \<Longrightarrow> wf_xml (leaf t v)"
  "tag_ok t \<Longrightarrow> list_all wf_xml cs \<Longrightarrow> wf_xml (group t cs)"
  by (simp_all add: int_leaf_def leaf_def group_def show_int_trimmed list_all_iff trimmed_Nil)

lemma config_tags:
  "list_all tag_ok [''pending'', ''rejudge'', ''compiling'', ''running'', ''accept'',
     ''compile_error'', ''wrong_anwser'', ''time_limited'', ''memory_limited'', ''present_error'',
     ''system_error'', ''runtime_error'', ''unknow_error'', ''gcc'', ''g++'', ''java'', ''ip'',
     ''port'', ''user'', ''password'', ''dbname'', ''cores'', ''testDataPath'', ''mysql'',
     ''compiler'', ''judgecode'']"
  by (simp add: tag_ok_def trimmed_def isWhiteSpace_def tag_isAttr_def)

lemma wf_config_doc: "config_ok c \<Longrightarrow> wf_xml_doc (config_doc c)"
proof -
  assume ok: "config_ok c"
  have "list_all wf_xml (m_children (config_doc c))"
    using config_tags ok
    by (simp add: config_doc_def judgecode_section_def compiler_section_def mysql_section_def
        config_ok_def config_texts_def wf_nodes)
  then show ?thesis
    by (simp add: wf_xml_doc_def config_doc_def group_def add_children_def xml_newOne_def
        list_all_iff)
qed

section \<open>Properties\<close>

text \<open>
  C25: a configuration file that holds the printed document of a configuration is loaded as that
  configuration, through the file, the parser and every accessor, whatever the members were.
\<close>

theorem loadConfig_roundtrip:
  assumes "config_ok c" and "fopen name = Some (LZData_print 0 (config_doc c))"
  shows "loadConfig_file fopen name c0 = Inr (True, c)"
proof -
  have wf: "wf_xml_doc (config_doc c)" by (rule wf_config_doc [OF assms(1)])
  have "xml_createFromFile fopen name = Inr (Some (config_doc c))"
  proof (rule xml_file [OF wf])
    show "line_break [CHR 0x0A]" by (simp add: line_break_def)
    show "m_children (config_doc c) \<noteq> []" by (simp add: config_doc_def group_def)
    show "fopen name = Some (xml_items [CHR 0x0A] 0 (m_children (config_doc c)))"
      by (simp only: assms(2) xml_doc_text [OF wf])
  qed
  then show ?thesis using load_config_doc [OF assms(1)] by (simp add: loadConfig_file_def)
qed

text \<open>A document without a compiler section is refused after the verdict codes were replaced.\<close>

theorem loadConfig_partial:
  assumes "LZData_read doc ''judgecode'' = Some ptr" and "LZData_read doc ''compiler'' = None"
  shows "loadConfig_tree doc c = (False, load_judgecode ptr (load_general doc c))"
  using assms by (simp add: loadConfig_tree_def Let_def)

definition sample_config :: Config where
  "sample_config = (Config_new 4 3306)\<lparr>dbip := ''127.0.0.1'', dbusername := ''judge'',
     dbname := ''acmicpc'', testDataPath := ''data''\<rparr>"

lemma sample_config_ok: "config_ok sample_config"
  by (simp add: config_ok_def config_ints_def config_texts_def sample_config_def Config_new_def
      is_int32_def trimmed_def isWhiteSpace_def)

theorem loadConfig_roundtrip_witness:
  "loadConfig_file (\<lambda>_. Some (LZData_print 0 (config_doc sample_config))) ''config.xml''
     (Config_new 0 0) = Inr (True, sample_config)"
proof (rule loadConfig_roundtrip)
  show "config_ok sample_config" by (rule sample_config_ok)
  show "Some (LZData_print 0 (config_doc sample_config)) =
    Some (LZData_print 0 (config_doc sample_config))" by (rule refl)
qed

theorem loadConfig_partial_witness:
  "loadConfig_tree (group ''root'' [group ''judgecode'' [int_leaf ''accept'' 44]]) sample_config =
     (False, load_judgecode (group ''judgecode'' [int_leaf ''accept'' 44])
        (load_general (group ''root'' [group ''judgecode'' [int_leaf ''accept'' 44]]) sample_config))"
  by (rule loadConfig_partial) (simp_all add: read_plain)

end
