(* ===== verification/StringUtil.thy ===== *)
theory StringUtil
  imports Paths
begin

text \<open>
  src/acm/Utilities.cpp and Commen/Utilities.h: cutting strings, the conversions between the
  two kinds of text, the number texts of \<open>StringTool\<close>, and the identifiers that
  \<open>generateID\<close> hands out under its lock.
\<close>

section \<open>Cutting\<close>

definition trimPartString :: "string \<Rightarrow> char \<Rightarrow> string" where
  "trimPartString str ch =
     (case find_first_of ch str of None \<Rightarrow> str | Some pos \<Rightarrow> take pos str)"

text \<open>\<open>i + 1\<close> characters are kept when the loop stops; the index runs from the end down to -1.\<close>

fun trimRString_keep :: "string \<Rightarrow> string \<Rightarrow> nat \<Rightarrow> nat" where
  "trimRString_keep str flt 0 = 0"
| "trimRString_keep str flt (Suc i) =
     (if str ! i \<notin> set flt then Suc i else trimRString_keep str flt i)"

definition trimRString :: "string \<Rightarrow> string \<Rightarrow> string" where
  "trimRString str flt =
     (let i = trimRString_keep str flt (length str)
      in if i < length str then take i str else str)"

lemma trimPartString_NUL: "trimPartString s (CHR 0x00) = c_str s"
proof (cases "find_first_of (CHR 0x00) s")
  case None
  then have "CHR 0x00 \<notin> set s" by (simp add: find_first_of_None)
  with None show ?thesis by (simp add: trimPartString_def c_str_id)
next
  case (Some n)
  then obtain a b where ab: "s = a @ CHR 0x00 # b" "length a = n" "CHR 0x00 \<notin> set a"
    by (rule find_first_of_SomeE)
  then have "takeWhile (\<lambda>c. c \<noteq> CHR 0x00) a = a" by (auto simp: takeWhile_eq_all_conv)
  with ab have "c_str s = a" by (simp add: c_str_def takeWhile_tail)
  with ab Some show ?thesis by (simp add: trimPartString_def)
qed

lemma trimRString_keep_spec:
  "n \<le> length s \<Longrightarrow> take (trimRString_keep s f n) s = rev (dropWhile (\<lambda>c. c \<in> set f) (rev (take n s)))"
proof (induction n)
  case (Suc n)
  then have "take (Suc n) s = take n s @ [s ! n]" by (simp add: take_Suc_conv_app_nth)
  with Suc show ?case by (simp del: rev_take)
qed simp

lemma trimRString_keep_le: "trimRString_keep s f n \<le> n"
  by (induction n) auto

lemma trimRString_spec: "trimRString s f = rev (dropWhile (\<lambda>c. c \<in> set f) (rev s))"
proof -
  have "trimRString s f = take (trimRString_keep s f (length s)) s"
    using trimRString_keep_le [of s f "length s"] by (simp add: trimRString_def Let_def)
  then show ?thesis by (simp add: trimRString_keep_spec)
qed

section \<open>Conversion between the two kinds of text\<close>

text \<open>
  \<open>MultiByteToWideChar\<close> and \<open>WideCharToMultiByte\<close> are arguments: the text that the call
  writes, its terminator included.
\<close>

definition charToWChar :: "(string \<Rightarrow> string) \<Rightarrow> string \<Rightarrow> tstring" where
  "charToWChar mb str = trimPartString (mb (c_str str)) (CHR 0x00)"

definition wcharToChar :: "(string \<Rightarrow> string) \<Rightarrow> tstring \<Rightarrow> string" where
  "wcharToChar wc wstr = trimPartString (wc (c_str wstr)) (CHR 0x00)"

definition changeCurDirectory ::
    "('w, 'x) file_api_scheme \<Rightarrow> tstring option \<Rightarrow> 'w \<Rightarrow> bool \<times> 'w" where
  "changeCurDirectory api szPath w =
     (case szPath of
        Some p \<Rightarrow> SetCurrentDirectory api p w
      | None \<Rightarrow> (let (m, w1) = GetModuleFileName api w
                 in SetCurrentDirectory api (getFilePath m) w1))"

section \<open>StringTool\<close>

record StringTool =
  st_value :: string

definition convertToString :: "string \<Rightarrow> fmt_arg \<Rightarrow> string outcome" where
  "convertToString fmt data = sprintf_s 64 fmt [data]"

definition StringTool_asInt :: "StringTool \<Rightarrow> int" where
  "StringTool_asInt s = atoi (c_str (st_value s))"

definition StringTool_asBool :: "StringTool \<Rightarrow> bool" where
  "StringTool_asBool s =
     (if st_value s = ''true'' then True
      else if st_value s = ''false'' then False
      else StringTool_asInt s \<noteq> 0)"

definition StringTool_asString :: "StringTool \<Rightarrow> string" where
  "StringTool_asString s = st_value s"

definition StringTool_setInt :: "int \<Rightarrow> StringTool \<Rightarrow> StringTool outcome" where
  "StringTool_setInt data s =
     (case convertToString ''%d'' (ArgInt data) of
        Inl f \<Rightarrow> Inl f | Inr v \<Rightarrow> Inr (s\<lparr>st_value := v\<rparr>))"

text \<open>The specialisation of \<open>convertToString\<close> for \<open>bool\<close> ignores the format.\<close>

definition convertToString_bool :: "bool \<Rightarrow> string \<Rightarrow> string" where
  [simp]: "convertToString_bool data format = (if data then ''true'' else ''false'')"

definition StringTool_setBool :: "bool \<Rightarrow> StringTool \<Rightarrow> StringTool" where
  "StringTool_setBool data s = s\<lparr>st_value := convertToString_bool data ''''\<rparr>"

text \<open>\<open>setText\<close> copies a C string; a null pointer is a fault.\<close>

definition StringTool_setText :: "string option \<Rightarrow> StringTool \<Rightarrow> StringTool outcome" where
  "StringTool_setText data s =
     (case data of None \<Rightarrow> Inl NullPointer | Some t \<Rightarrow> Inr (s\<lparr>st_value := c_str t\<rparr>))"

definition StringTool_setString :: "string \<Rightarrow> StringTool \<Rightarrow> StringTool" where
  "StringTool_setString data s = s\<lparr>st_value := data\<rparr>"

lemma c_format_d: "c_format ''%d'' [ArgInt i] = Some (show_int i)"
  by (simp add: show_arg_def)

lemma setInt_text: "is_int32 i \<Longrightarrow> StringTool_setInt i s = Inr (s\<lparr>st_value := show_int i\<rparr>)"
  using length_show_int [of i]
  by (simp add: StringTool_setInt_def convertToString_def sprintf_s_def c_format_d del: c_format.simps)

lemma show_int_c_str: "c_str (show_int i) = show_int i"
  using show_int_chars [of "CHR 0x00" i] by (intro c_str_id) (auto simp: is_digit_def)

section \<open>Identifiers\<close>

text \<open>\<open>generateID\<close> returns the counter after the increment; the counter starts at 1.\<close>

definition generateID :: "int \<Rightarrow> int \<times> int" where
  "generateID g_idIndex = (let n = int32 (g_idIndex + 1) in (n, n))"

fun generate_ids :: "nat \<Rightarrow> int \<Rightarrow> int list" where
  "generate_ids 0 g = []"
| "generate_ids (Suc k) g = (let (i, g') = generateID g in i # generate_ids k g')"

lemma generate_ids_mod:
  "i \<in> set (generate_ids k g) \<Longrightarrow> \<exists>j. 0 < j \<and> j \<le> k \<and> i = int32 (g + int j)"
proof (induction k arbitrary: g)
  case (Suc k)
  have wrap: "int32 (int32 (g + 1) + int j) = int32 (g + int (Suc j))" for j
  proof -
    have "(g + 1 + 2 ^ 31) mod 2 ^ 32 - 2 ^ 31 + int j + 2 ^ 31 =
        (g + 1 + 2 ^ 31) mod 2 ^ 32 + int j" by simp
    then have "int32 (int32 (g + 1) + int j) =
        ((g + 1 + 2 ^ 31) mod 2 ^ 32 + int j) mod 2 ^ 32 - 2 ^ 31"
      by (simp only: int32_def)
    also have "\<dots> = (g + 1 + 2 ^ 31 + int j) mod 2 ^ 32 - 2 ^ 31"
      by (simp only: mod_add_left_eq)
    also have "\<dots> = int32 (g + int (Suc j))"
      by (simp add: int32_def ac_simps)
    finally show ?thesis .
  qed
  from Suc.prems consider "i = int32 (g + 1)" | "i \<in> set (generate_ids k (int32 (g + 1)))"
    by (auto simp: generateID_def Let_def)
  then show ?case
  proof cases
    case 1
    then show ?thesis by (intro exI [of _ 1]) simp
  next
    case 2
    from Suc.IH [OF this] obtain j where "0 < j" "j \<le> k" "i = int32 (int32 (g + 1) + int j)" by blast
    then show ?thesis using wrap by (intro exI [of _ "Suc j"]) auto
  qed
qed simp

lemma int32_inj:
  assumes "int32 (g + int a) = int32 (g + int b)" and "a < 2 ^ 32" "b < 2 ^ 32"
  shows "a = b"
proof -
  from assms(1) have "(g + int a + 2 ^ 31) mod 2 ^ 32 = (g + int b + 2 ^ 31) mod 2 ^ 32"
    by (simp add: int32_def)
  then have "(2 ^ 32 :: int) dvd (g + int a + 2 ^ 31) - (g + int b + 2 ^ 31)"
    by (simp only: mod_eq_dvd_iff)
  then have "(2 ^ 32 :: int) dvd int a - int b" by simp
  then have "int a mod 2 ^ 32 = int b mod 2 ^ 32" by (simp only: mod_eq_dvd_iff)
  with assms(2,3) show ?thesis by simp
qed

lemma generate_ids_distinct: "k < 2 ^ 32 \<Longrightarrow> distinct (generate_ids k g)"
proof (induction k arbitrary: g)
  case (Suc k)
  have "int32 (g + 1) \<notin> set (generate_ids k (int32 (g + 1)))"
  proof
    assume "int32 (g + 1) \<in> set (generate_ids k (int32 (g + 1)))"
    from generate_ids_mod [OF this] obtain j where
      j: "0 < j" "j \<le> k" "int32 (g + 1) = int32 (int32 (g + 1) + int j)" by blast
    have "int32 (int32 (g + 1) + int 0) = int32 (int32 (g + 1) + int j)"
      using j(3) by (simp add: int32_id)
    then have "0 = j" using j(2) Suc.prems by (intro int32_inj) auto
    with j(1) show False by simp
  qed
  with Suc show ?case by (simp add: generateID_def Let_def)
qed simp

section \<open>Properties\<close>

text \<open>
  The identifiers handed out by fewer than \<open>2 ^ 32\<close> calls are pairwise different, wherever
  the counter starts and although it wraps around.
\<close>

theorem generateID_unique:
  assumes "k < 2 ^ 32"
  shows "distinct (generate_ids k g)"
  using assms by (rule generate_ids_distinct)

theorem generateID_unique_witness: "distinct (generate_ids 3 2147483646)"
  by (rule generateID_unique) simp

end
