(* ===== verification/Tasks.thy ===== *)
theory Tasks
  imports Configuration StringUtil
begin

text \<open>
  The data of one submission: \<open>TaskBase\<close> of src/Judger/JudgeTask.cpp and JudgeTask.h.  The
  constructor looks up the test data of the problem and fixes the names of the temporary files;
  \<open>setTestDataIndex\<close> moves to another test.  The pass rate is the exact quotient of the two
  counts, where the source rounds it to a \<open>float\<close>.
\<close>

section \<open>The task record\<close>

record TaskBase =
  m_userName :: tstring
  m_solutionID :: int
  m_problemID :: int
  m_limitCompileTime :: int
  m_limitTime :: int
  m_limitMemory :: int
  m_language :: int
  m_runTime :: int
  m_runMemory :: int
  m_result :: int
  m_passRate :: rat
  m_testData :: "tstring list"
  m_curTestDataIndex :: int
  m_curInputTestData :: tstring
  m_curOutputTestData :: tstring
  m_codeFile :: tstring
  m_compilerOutput :: tstring
  m_exeName :: tstring
  m_exeOutput :: tstring
  m_compileErrorStr :: tstring

definition getTestDataCount :: "TaskBase \<Rightarrow> int" where
  "getTestDataCount t = int (length (m_testData t))"

definition setRunTime :: "int \<Rightarrow> TaskBase \<Rightarrow> TaskBase" where
  "setRunTime v t = t\<lparr>m_runTime := v\<rparr>"

definition setRunMemory :: "int \<Rightarrow> TaskBase \<Rightarrow> TaskBase" where
  "setRunMemory v t = t\<lparr>m_runMemory := v\<rparr>"

definition setResult :: "int \<Rightarrow> TaskBase \<Rightarrow> TaskBase" where
  "setResult v t = t\<lparr>m_result := v\<rparr>"

definition setCompileError :: "tstring \<Rightarrow> TaskBase \<Rightarrow> TaskBase" where
  "setCompileError v t = t\<lparr>m_compileErrorStr := v\<rparr>"

definition setPassRate :: "rat \<Rightarrow> TaskBase \<Rightarrow> TaskBase" where
  "setPassRate v t = t\<lparr>m_passRate := v\<rparr>"

section \<open>Construction\<close>

definition getLanguageExt :: "Config \<Rightarrow> int \<Rightarrow> tstring" where
  "getLanguageExt config t =
     (if t = CL_GCC config then ''.c''
      else if t = CL_GPLUS config then ''.cpp''
      else if t = CL_JAVA config then ''.java''
      else ''.unknown'')"

text \<open>The assertion is a fault of the model; without it the vector would be read out of range.\<close>

definition setTestDataIndex :: "int \<Rightarrow> TaskBase \<Rightarrow> TaskBase outcome" where
  "setTestDataIndex i t =
     (if i = m_curTestDataIndex t then Inr t
      else if i < 0 \<or> i \<ge> getTestDataCount t then Inl AssertionFailed
      else let out = m_testData t ! nat i
           in Inr (t\<lparr>m_curTestDataIndex := i, m_curOutputTestData := out,
                     m_curInputTestData := getFileName out @ ''.in''\<rparr>))"

definition WORK_DIR :: tstring where
  "WORK_DIR = ''work'' @ [CHR 0x5C]"

definition MAX_NAME_SIZE :: nat where
  "MAX_NAME_SIZE = 1024"

text \<open>
  \<open>mb\<close> stands for the conversion of the configured path to wide text.  The path itself is
  part of the format string of the first \<open>msprintf_s\<close>.
\<close>

definition initializeData ::
    "(string \<Rightarrow> string) \<Rightarrow> Config \<Rightarrow> ('w, 'x) file_api_scheme \<Rightarrow> TaskBase \<Rightarrow> ('w, TaskBase) eff" where
  "initializeData mb config api t =
     (if m_solutionID t = 0 then ret t
      else
        let path = formatDirName (charToWChar mb (testDataPath config)) True @ ''%d''
        in ebind (lift (sprintf_s MAX_NAME_SIZE (c_str path) [ArgInt (m_problemID t)])) (\<lambda>buffer.
           ebind (call (findFiles api buffer ''*.out'' True)) (\<lambda>(ok, found).
           ebind (lift (sprintf_s MAX_NAME_SIZE ''%d'' [ArgInt (m_solutionID t)])) (\<lambda>tempName.
             let t1 = t\<lparr>m_testData := found,
                        m_codeFile := WORK_DIR @ tempName @ getLanguageExt config (m_language t),
                        m_compilerOutput := WORK_DIR @ tempName @ ''.txt'',
                        m_exeName := WORK_DIR @ tempName @ ''.exe'',
                        m_exeOutput := WORK_DIR @ tempName @ ''.out''\<rparr>
             in if getTestDataCount t1 > 0
                then lift (setTestDataIndex 0 (t1\<lparr>m_curTestDataIndex := - 1\<rparr>))
                else ret t1))))"

definition TaskBase_new ::
    "(string \<Rightarrow> string) \<Rightarrow> Config \<Rightarrow> ('w, 'x) file_api_scheme \<Rightarrow> int \<Rightarrow> int \<Rightarrow> tstring \<Rightarrow>
       int \<Rightarrow> int \<Rightarrow> int \<Rightarrow> int \<Rightarrow> ('w, TaskBase) eff" where
  "TaskBase_new mb config api solutionID problemID userName
       language limitCompileTime limitTime limitMemory =
     initializeData mb config api
       \<lparr>m_userName = userName, m_solutionID = solutionID, m_problemID = problemID,
        m_limitCompileTime = limitCompileTime, m_limitTime = limitTime,
        m_limitMemory = limitMemory, m_language = language,
        m_runTime = 0, m_runMemory = 0, m_result = 0, m_passRate = 0,
        m_testData = [], m_curTestDataIndex = 0, m_curInputTestData = '''',
        m_curOutputTestData = '''', m_codeFile = '''', m_compilerOutput = '''',
        m_exeName = '''', m_exeOutput = '''', m_compileErrorStr = ''''\<rparr>"

definition createTestTask ::
    "(string \<Rightarrow> string) \<Rightarrow> Config \<Rightarrow> ('w, 'x) file_api_scheme \<Rightarrow> ('w, TaskBase) eff" where
  "createTestTask mb config api = TaskBase_new mb config api 1001 1000 ''zhoubao'' 1 10000 1000 32"

section \<open>The invariant of a task\<close>

text \<open>
  The current test is an index of the test data, and the two names are those of that test;
  only a task without test data has no current names.
\<close>

definition task_inv :: "TaskBase \<Rightarrow> bool" where
  "task_inv t \<longleftrightarrow> m_testData t \<noteq> [] \<longrightarrow>
     0 \<le> m_curTestDataIndex t \<and> m_curTestDataIndex t < getTestDataCount t \<and>
     m_curOutputTestData t = m_testData t ! nat (m_curTestDataIndex t) \<and>
     m_curInputTestData t = getFileName (m_curOutputTestData t) @ ''.in''"

lemma setTestDataIndex_inv:
  "task_inv t \<Longrightarrow> setTestDataIndex i t = Inr t' \<Longrightarrow> task_inv t'"
  by (auto simp: setTestDataIndex_def task_inv_def getTestDataCount_def Let_def split: if_splits)

lemma setTestDataIndex_ok:
  "0 \<le> i \<Longrightarrow> i < getTestDataCount t \<Longrightarrow> \<exists>t'. setTestDataIndex i t = Inr t' \<and> m_curTestDataIndex t' = i"
  by (auto simp: setTestDataIndex_def Let_def)

text \<open>The fields that neither an executor nor the choice of the test may change.\<close>

definition task_id :: "TaskBase \<Rightarrow>
    (int \<times> int \<times> int \<times> int \<times> int \<times> int) \<times> tstring list \<times> tstring \<times> tstring \<times> tstring \<times> tstring" where
  "task_id t =
     ((m_solutionID t, m_problemID t, m_limitCompileTime t, m_limitTime t, m_limitMemory t,
       m_language t),
      m_testData t, m_codeFile t, m_compilerOutput t, m_exeName t, m_exeOutput t)"

lemma task_id_set [simp]:
  "task_id (setRunTime v t) = task_id t" "task_id (setRunMemory v t) = task_id t"
  "task_id (setResult v t) = task_id t" "task_id (setCompileError s t) = task_id t"
  "task_id (setPassRate r t) = task_id t"
  by (simp_all add: task_id_def setRunTime_def setRunMemory_def setResult_def
      setCompileError_def setPassRate_def)

lemma task_id_setTestDataIndex: "setTestDataIndex i t = Inr t' \<Longrightarrow> task_id t' = task_id t"
  by (auto simp: setTestDataIndex_def task_id_def Let_def split: if_splits)

lemma getTestDataCount_id: "task_id t' = task_id t \<Longrightarrow> getTestDataCount t' = getTestDataCount t"
  by (simp add: task_id_def getTestDataCount_def)

lemma task_set_sel [simp, task_frame]:
  "m_result (setResult v t) = v" "m_result (setRunTime i t) = m_result t"
  "m_result (setRunMemory i t) = m_result t" "m_result (setPassRate r t) = m_result t"
  "m_result (setCompileError s t) = m_result t"
  "m_runTime (setRunTime i t) = i" "m_runTime (setRunMemory i t) = m_runTime t"
  "m_runTime (setResult i t) = m_runTime t" "m_runTime (setPassRate r t) = m_runTime t"
  "m_runMemory (setRunMemory i t) = i" "m_runMemory (setRunTime i t) = m_runMemory t"
  "m_runMemory (setResult i t) = m_runMemory t" "m_runMemory (setPassRate r t) = m_runMemory t"
  "m_passRate (setPassRate r t) = r" "m_passRate (setRunTime i t) = m_passRate t"
  "m_passRate (setRunMemory i t) = m_passRate t" "m_passRate (setResult i t) = m_passRate t"
  "m_compileErrorStr (setCompileError s t) = s"
  "m_compileErrorStr (setResult i t) = m_compileErrorStr t"
  by (simp_all add: setRunTime_def setRunMemory_def setResult_def setCompileError_def setPassRate_def)

section \<open>What the constructor builds\<close>

definition task_files :: "TaskBase \<Rightarrow> tstring list" where
  "task_files t = [m_codeFile t, m_compilerOutput t, m_exeOutput t, m_exeName t]"

definition task_named :: "Config \<Rightarrow> TaskBase \<Rightarrow> bool" where
  "task_named config t \<longleftrightarrow>
     (let n = WORK_DIR @ show_int (m_solutionID t)
      in task_files t = [n @ getLanguageExt config (m_language t), n @ ''.txt'', n @ ''.out'', n @ ''.exe''])"

lemma ext_dot:
  obtains e where "getLanguageExt config l = CHR ''.'' # e" "CHR ''.'' \<notin> set e"
    "e \<notin> {''txt'', ''out'', ''exe''}"
  by (rule that [of "drop 1 (getLanguageExt config l)"]) (simp_all add: getLanguageExt_def)

lemma sprintf_id:
  assumes "is_int32 i"
  shows "sprintf_s MAX_NAME_SIZE ''%d'' [ArgInt i] = Inr (show_int i)"
  using length_show_int [OF assms]
  by (intro sprintf_s_fits c_format_d) (simp add: MAX_NAME_SIZE_def)

text \<open>
  A data directory whose name is no format of its own and fits the buffer; with it the constructor
  returns whatever the directory holds.
\<close>

definition data_dir_usable :: "(string \<Rightarrow> string) \<Rightarrow> Config \<Rightarrow> bool" where
  "data_dir_usable mb config \<longleftrightarrow>
     (let dir = formatDirName (charToWChar mb (testDataPath config)) True
      in CHR ''%'' \<notin> set dir \<and> CHR 0x00 \<notin> set dir \<and> length dir + 11 < MAX_NAME_SIZE)"

lemma initializeData_returns:
  assumes "data_dir_usable mb config" "is_int32 (m_solutionID t)" "is_int32 (m_problemID t)"
  shows "\<exists>t' w'. initializeData mb config api t w = Inr (t', w')"
proof -
  define dir where "dir = formatDirName (charToWChar mb (testDataPath config)) True"
  have fmt: "c_format (dir @ ''%d'') [ArgInt (m_problemID t)] = Some (dir @ show_int (m_problemID t))"
    using assms(1) by (simp add: data_dir_usable_def dir_def Let_def c_format_append c_format_d del: c_format.simps)
  have buffer: "sprintf_s MAX_NAME_SIZE (c_str (dir @ ''%d'')) [ArgInt (m_problemID t)] =
      Inr (dir @ show_int (m_problemID t))"
    using assms(1) length_show_int [OF assms(3)]
    by (simp add: data_dir_usable_def dir_def Let_def c_str_id sprintf_s_fits [OF fmt, unfolded dir_def])
  obtain ok found w1 where "findFiles api (dir @ show_int (m_problemID t)) ''*.out'' True w = ((ok, found), w1)"
    by (metis prod.exhaust)
  then show ?thesis
    using sprintf_id [OF assms(2)] buffer
    by (simp add: initializeData_def dir_def [symmetric] Let_def ebind_def lift_def call_def ret_def
        setTestDataIndex_def getTestDataCount_def)
qed

lemma initializeData_frame:
  assumes "initializeData mb config api t w = Inr (t', w')"
  shows "m_solutionID t' = m_solutionID t" "m_problemID t' = m_problemID t" "m_userName t' = m_userName t"
    "m_language t' = m_language t" "m_limitCompileTime t' = m_limitCompileTime t"
    "m_limitTime t' = m_limitTime t" "m_limitMemory t' = m_limitMemory t" "m_result t' = m_result t"
  using assms
  by (auto simp: initializeData_def setTestDataIndex_def Let_def lift_def ret_def elim!: ebind_InrE split: if_splits sum.splits)

lemma setTestDataIndex_frame:
  assumes "setTestDataIndex i t = Inr t'"
  shows "m_solutionID t' = m_solutionID t" "m_language t' = m_language t"
    "task_files t' = task_files t" "m_testData t' = m_testData t"
  using assms by (auto simp: setTestDataIndex_def Let_def task_files_def split: if_splits)

lemma initializeData_named:
  assumes init: "initializeData mb config api t w = Inr (t', w')"
    and id: "m_solutionID t \<noteq> 0" "is_int32 (m_solutionID t)"
  shows "task_named config t' \<and> m_solutionID t' = m_solutionID t \<and> task_inv t'"
proof -
  define path where "path = formatDirName (charToWChar mb (testDataPath config)) True @ ''%d''"
  obtain buffer where buffer: "sprintf_s MAX_NAME_SIZE (c_str path) [ArgInt (m_problemID t)] = Inr buffer"
    using init id
    by (cases "sprintf_s MAX_NAME_SIZE (c_str path) [ArgInt (m_problemID t)]")
      (auto simp: initializeData_def path_def Let_def ebind_def lift_def)
  obtain ok found w1 where find: "findFiles api buffer ''*.out'' True w = ((ok, found), w1)"
    by (metis prod.exhaust)
  define n where "n = WORK_DIR @ show_int (m_solutionID t)"
  define t1 where "t1 = t\<lparr>m_testData := found, m_codeFile := n @ getLanguageExt config (m_language t),
    m_compilerOutput := n @ ''.txt'', m_exeName := n @ ''.exe'', m_exeOutput := n @ ''.out''\<rparr>"
  have named: "task_named config t1" "m_solutionID t1 = m_solutionID t"
    by (simp_all add: task_named_def task_files_def t1_def n_def)
  show ?thesis
  proof (cases "getTestDataCount t1 > 0")
    case True
    from init id buffer find sprintf_id [OF id(2)] True
    have set: "setTestDataIndex 0 (t1\<lparr>m_curTestDataIndex := - 1\<rparr>) = Inr t'"
      by (auto simp: initializeData_def path_def Let_def ebind_def lift_def call_def t1_def n_def
          split: sum.splits)
    then have "task_inv t'"
      by (auto simp: setTestDataIndex_def task_inv_def getTestDataCount_def Let_def split: if_splits)
    with setTestDataIndex_frame [OF set] named show ?thesis
      by (simp add: task_named_def task_files_def)
  next
    case False
    with init id buffer find sprintf_id [OF id(2)] have "t' = t1"
      by (auto simp: initializeData_def path_def Let_def ebind_def lift_def call_def t1_def n_def)
    with named False show ?thesis by (simp add: task_inv_def getTestDataCount_def)
  qed
qed

text \<open>Two names are equal only if identifier and extension are.\<close>

lemma show_int_inj: "is_int32 i \<Longrightarrow> is_int32 j \<Longrightarrow> show_int i = show_int j \<Longrightarrow> i = j"
  by (metis atoi_show_int)

lemma no_dot_id: "CHR ''.'' \<notin> set (show_int i)"
  using show_int_chars [of "CHR ''.''" i] by (auto simp: is_digit_def)

lemma name_inj:
  assumes "WORK_DIR @ show_int i @ CHR ''.'' # e = WORK_DIR @ show_int j @ CHR ''.'' # f"
  shows "show_int i = show_int j \<and> e = f"
proof -
  have "show_int i @ CHR ''.'' # e = show_int j @ CHR ''.'' # f" using assms by simp
  then have "takeWhile (\<lambda>c. c \<noteq> CHR ''.'') (show_int i @ CHR ''.'' # e)
      = takeWhile (\<lambda>c. c \<noteq> CHR ''.'') (show_int j @ CHR ''.'' # f)" by simp
  moreover have "takeWhile (\<lambda>c. c \<noteq> CHR ''.'') (show_int k @ CHR ''.'' # g) = show_int k" for k g
    using no_dot_id [of k] by (auto simp: takeWhile_tail takeWhile_eq_all_conv)
  ultimately show ?thesis using assms by auto
qed

lemma task_files_cases:
  assumes "task_named config t" "f \<in> set (task_files t)"
  obtains e where "f = WORK_DIR @ show_int (m_solutionID t) @ CHR ''.'' # e"
proof -
  obtain e where e: "getLanguageExt config (m_language t) = CHR ''.'' # e" by (rule ext_dot)
  from assms show thesis
    by (auto simp: task_named_def Let_def e intro: that)
qed

lemma task_files_distinct: "task_named config t \<Longrightarrow> distinct (task_files t)"
proof -
  assume named: "task_named config t"
  obtain e where "getLanguageExt config (m_language t) = CHR ''.'' # e"
    "e \<notin> {''txt'', ''out'', ''exe''}" by (rule ext_dot)
  with named show ?thesis by (simp add: task_named_def Let_def)
qed

lemma task_files_disjoint:
  assumes "task_named config t" "task_named config u"
    and "is_int32 (m_solutionID t)" "is_int32 (m_solutionID u)" "m_solutionID t \<noteq> m_solutionID u"
  shows "set (task_files t) \<inter> set (task_files u) = {}"
proof -
  have False if f: "f \<in> set (task_files t)" "f \<in> set (task_files u)" for f
  proof -
    obtain e where "f = WORK_DIR @ show_int (m_solutionID t) @ CHR ''.'' # e"
      using assms(1) f(1) by (rule task_files_cases)
    moreover obtain e' where "f = WORK_DIR @ show_int (m_solutionID u) @ CHR ''.'' # e'"
      using assms(2) f(2) by (rule task_files_cases)
    ultimately have "show_int (m_solutionID t) = show_int (m_solutionID u)"
      using name_inj by blast
    with assms show False using show_int_inj by blast
  qed
  then show ?thesis by blast
qed

section \<open>Properties\<close>

text \<open>
  C35: the temporary files of a task are pairwise different, and tasks of different submissions
  share none of them, so the judging threads never touch each other's files.
\<close>

theorem temp_files_separate:
  assumes "TaskBase_new mb config api s p u l ct lt lm w = Inr (t, w')"
    and "TaskBase_new mb config api s2 p2 u2 l2 ct2 lt2 lm2 v = Inr (t2, v')"
    and "is_int32 s" "is_int32 s2" "s \<noteq> 0" "s2 \<noteq> 0" "s \<noteq> s2"
  shows "distinct (task_files t @ task_files t2)"
proof -
  from assms(1,3,5) have t: "task_named config t \<and> m_solutionID t = s \<and> task_inv t"
    using initializeData_named unfolding TaskBase_new_def by fastforce
  from assms(2,4,6) have t2: "task_named config t2 \<and> m_solutionID t2 = s2 \<and> task_inv t2"
    using initializeData_named unfolding TaskBase_new_def by fastforce
  show ?thesis
    using t t2 assms task_files_distinct task_files_disjoint by (metis distinct_append)
qed

text \<open>A data directory with two tests, and the configuration that points to it.\<close>

definition data_dir :: "string \<Rightarrow> string" where
  "data_dir n = ''data'' @ [CHR 0x5C] @ ''1000'' @ [CHR 0x5C] @ n"

definition sample_fs :: mem_fs where
  "sample_fs = mem_fs_new
     [(data_dir ''1.in'', ''1 2''), (data_dir ''1.out'', ''3''),
      (data_dir ''2.in'', ''4 5''), (data_dir ''2.out'', ''9'')]"

definition nul_ended :: "string \<Rightarrow> string" where
  "nul_ended s = s @ [CHR 0x00]"

definition sample_task :: "int \<Rightarrow> (TaskBase \<times> mem_fs) outcome" where
  "sample_task s = TaskBase_new nul_ended sample_config mem_files s 1000 ''zhoubao'' 1 10000 1 32 sample_fs"

lemma sample_task_runs: "\<not> isl (sample_task 1001)" "\<not> isl (sample_task 1002)"
  by code_simp+

theorem temp_files_separate_witness:
  "\<exists>t t2. sample_task 1001 = Inr t \<and> sample_task 1002 = Inr t2 \<and>
     distinct (task_files (fst t) @ task_files (fst t2))"
proof -
  obtain t where t: "sample_task 1001 = Inr t" using sample_task_runs(1) by (cases "sample_task 1001") auto
  obtain t2 where t2: "sample_task 1002 = Inr t2" using sample_task_runs(2) by (cases "sample_task 1002") auto
  have "distinct (task_files (fst t) @ task_files (fst t2))"
    by (rule temp_files_separate [of nul_ended sample_config mem_files 1001 1000 "''zhoubao''" 1 10000 1
          32 sample_fs "fst t" "snd t" 1002 1000 "''zhoubao''" 1
          10000 1 32 sample_fs "fst t2" "snd t2"])
      (use t t2 in \<open>simp_all add: sample_task_def is_int32_def\<close>)
  with t t2 show ?thesis by blast
qed

text \<open>
  With a readable data directory the constructor pairs every answer file found there with the
  input file of the same stem, and starts at the first test.
\<close>

theorem new_task_tests:
  assumes path: "CHR ''%'' \<notin> set dir" "CHR 0x00 \<notin> set dir" "dir = formatDirName (charToWChar mb (testDataPath config)) True"
    and room: "length dir + 11 < MAX_NAME_SIZE"
    and ids: "is_int32 s" "s \<noteq> 0" "is_int32 p"
    and find: "FindFirstFile api (formatDirName (dir @ show_int p) True @ ''*.out'') w = (ds, w1)"
    and some: "filter wanted ds \<noteq> []"
  shows "\<exists>t. TaskBase_new mb config api s p u l ct lt lm w = Inr (t, w1) \<and> task_inv t \<and>
    m_curTestDataIndex t = 0 \<and>
    m_testData t = map (\<lambda>d. formatDirName (dir @ show_int p) True @ cFileName d) (filter wanted ds)"
proof -
  let ?v = "map (\<lambda>d. formatDirName (dir @ show_int p) True @ cFileName d) (filter wanted ds)"
  have fmt: "c_format (dir @ ''%d'') [ArgInt p] = Some (dir @ show_int p)"
    using path(1) by (simp add: c_format_append c_format_d del: c_format.simps)
  have "CHR 0x00 \<notin> set (dir @ ''%d'')" using path(2) by simp
  then have buffer: "sprintf_s MAX_NAME_SIZE (c_str (dir @ ''%d'')) [ArgInt p] = Inr (dir @ show_int p)"
    using room length_show_int [OF ids(3)] by (simp add: c_str_id sprintf_s_fits [OF fmt])
  have found: "findFiles api (dir @ show_int p) ''*.out'' True w = ((True, ?v), w1)"
    using findFiles_spec [OF find, of True] some by simp
  show ?thesis
    using sprintf_id [OF ids(1)] some ids(2)
    by (simp add: TaskBase_new_def initializeData_def path(3) [symmetric] Let_def ebind_def lift_def
        call_def buffer found setTestDataIndex_def getTestDataCount_def task_inv_def)
qed

theorem new_task_tests_witness:
  "\<exists>t. sample_task 1001 = Inr (t, sample_fs) \<and> task_inv t \<and> m_curTestDataIndex t = 0 \<and>
     m_testData t = [data_dir ''1.out'', data_dir ''2.out'']"
proof -
  let ?dir = "''data'' @ [CHR 0x5C]"
  let ?p = "formatDirName (?dir @ show_int 1000) True"
  let ?ds = "[\<lparr>dwFileAttributes = 0x20, cFileName = ''1.out''\<rparr>,
    \<lparr>dwFileAttributes = 0x20, cFileName = ''2.out''\<rparr>]"
  have dir: "?dir = formatDirName (charToWChar nul_ended (testDataPath sample_config)) True" by code_simp
  have find: "FindFirstFile mem_files (?p @ ''*.out'') sample_fs = (?ds, sample_fs)" by code_simp
  have ds: "filter wanted ?ds = ?ds" by code_simp
  have names: "map (\<lambda>d. ?p @ cFileName d) ?ds = [data_dir ''1.out'', data_dir ''2.out'']" by code_simp
  have "\<exists>t. TaskBase_new nul_ended sample_config mem_files 1001 1000 ''zhoubao'' 1 10000 1 32 sample_fs
      = Inr (t, sample_fs) \<and> task_inv t \<and> m_curTestDataIndex t = 0 \<and>
      m_testData t = map (\<lambda>d. ?p @ cFileName d) (filter wanted ?ds)"
    by (rule new_task_tests [OF _ _ dir _ _ _ _ find])
      (simp_all add: MAX_NAME_SIZE_def is_int32_def wanted_def FILE_ATTRIBUTE_DEVICE_def del: formatDirName_append)
  then show ?thesis unfolding ds names by (simp add: sample_task_def)
qed

text \<open>
  The configured path is part of a format string.  A percent sign in it that does not stand
  before \<open>d\<close> or another percent sign ends the program when the first task is built.
\<close>

theorem percent_in_path_fails:
  assumes "formatDirName (charToWChar mb (testDataPath config)) True = a @ CHR ''%'' # d # b"
    and "CHR ''%'' \<notin> set a" "CHR 0x00 \<notin> set (a @ d # b)" "d \<notin> {CHR ''d'', CHR ''%''}" "s \<noteq> 0"
  shows "TaskBase_new mb config api s p u l ct lt lm w = Inl InvalidParameter"
proof -
  have "c_str ((a @ CHR ''%'' # d # b) @ ''%d'') = (a @ CHR ''%'' # d # b) @ ''%d''"
    using assms(3) by (intro c_str_id) auto
  moreover have "c_format ((a @ CHR ''%'' # d # b) @ ''%d'') [ArgInt p] = None"
    using assms(2,4) by (simp add: c_format_append c_format_directive show_arg_def)
  ultimately have "sprintf_s MAX_NAME_SIZE (c_str ((a @ CHR ''%'' # d # b) @ ''%d'')) [ArgInt p]
      = Inl InvalidParameter" by (simp add: sprintf_s_def)
  with assms(5) show ?thesis
    by (simp add: TaskBase_new_def initializeData_def assms(1) Let_def ebind_def lift_def)
qed

theorem percent_in_path_fails_witness:
  "TaskBase_new nul_ended (sample_config\<lparr>testDataPath := ''100%safe''\<rparr>) mem_files 1001 1000
     ''zhoubao'' 1 10000 1 32 sample_fs = Inl InvalidParameter"
proof (rule percent_in_path_fails)
  show "formatDirName (charToWChar nul_ended
      (testDataPath (sample_config\<lparr>testDataPath := ''100%safe''\<rparr>))) True =
      ''100'' @ CHR ''%'' # CHR ''s'' # (''afe'' @ [CHR 0x5C])" by code_simp
qed simp_all

end
