(* ===== verification/Guid.thy ===== *)
theory Guid
  imports StringUtil
begin

text \<open>
  \<open>generateGUID\<close> of src/acm/Utilities.cpp: the text of a GUID, by which a job object is named, and
  the proof that two GUIDs never have the same text.
\<close>

section \<open>The text of a GUID\<close>

definition hex_digit :: "bool \<Rightarrow> nat \<Rightarrow> char" where
  "hex_digit upper d = (if upper then ''0123456789ABCDEF'' else ''0123456789abcdef'') ! d"

text \<open>\<open>k\<close> digits of a number below \<open>16 ^ k\<close>, the highest first.\<close>

fun hex :: "bool \<Rightarrow> nat \<Rightarrow> nat \<Rightarrow> string" where
  "hex upper 0 n = []"
| "hex upper (Suc k) n = hex upper k (n div 16) @ [hex_digit upper (n mod 16)]"

definition guid_text :: "GUID \<Rightarrow> string" where
  "guid_text g =
     hex True 8 (unat (Data1 g)) @ ''-'' @ hex True 4 (unat (Data2 g)) @ ''-'' @
     hex False 4 (unat (Data3 g)) @ ''-'' @
     concat (map (\<lambda>b. hex True 2 (unat b)) (take 2 (Data4 g))) @ ''-'' @
     concat (map (\<lambda>b. hex True 2 (unat b)) (drop 2 (Data4 g)))"

text \<open>
  The string is brought to 64 characters, the text and its end mark are written over its front
  when \<open>CoCreateGuid\<close> delivers a value, and what follows the first end mark is cut.
\<close>

definition generateGUID :: "GUID option \<Rightarrow> tstring \<Rightarrow> tstring" where
  "generateGUID created guidStr =
     (let s = take 64 guidStr @ replicate (64 - length guidStr) (CHR 0x00);
          t = (case created of
                 None \<Rightarrow> s
               | Some g \<Rightarrow> guid_text g @ [CHR 0x00] @ drop (length (guid_text g) + 1) s)
      in trimPartString t (CHR 0x00))"

section \<open>Different GUIDs have different texts\<close>

lemma length_hex [simp]: "length (hex upper k n) = k"
  by (induction k arbitrary: n) auto

lemma hex_digit_inj: "a < 16 \<Longrightarrow> b < 16 \<Longrightarrow> hex_digit upper a = hex_digit upper b \<Longrightarrow> a = b"
  using nth_eq_iff_index_eq [of "if upper then ''0123456789ABCDEF'' else ''0123456789abcdef''" a b]
  by (simp add: hex_digit_def split: if_splits)

lemma hex_inj: "hex upper k a = hex upper k b \<Longrightarrow> a mod 16 ^ k = b mod 16 ^ k"
proof (induction k arbitrary: a b)
  case (Suc k)
  from Suc.prems have eq: "hex upper k (a div 16) = hex upper k (b div 16)"
    "hex_digit upper (a mod 16) = hex_digit upper (b mod 16)" by simp_all
  have "a div 16 mod 16 ^ k = b div 16 mod 16 ^ k" by (rule Suc.IH [OF eq(1)])
  moreover have "a mod 16 = b mod 16" by (rule hex_digit_inj [OF _ _ eq(2)]) simp_all
  ultimately show ?case by (simp only: power_Suc mod_mult2_eq)
qed simp

lemma word_hex_inj:
  fixes a b :: "'a::len word"
  assumes "LENGTH('a) \<le> 4 * k" "hex upper k (unat a) = hex upper k (unat b)"
  shows "a = b"
proof -
  have "(2 :: nat) ^ LENGTH('a) \<le> 16 ^ k"
    using power_increasing [OF assms(1), of "2 :: nat"] by (simp add: power_mult)
  moreover have "unat x < 2 ^ LENGTH('a)" for x :: "'a word" by (rule unsigned_less)
  ultimately have "unat a < 16 ^ k" "unat b < 16 ^ k" by (meson less_le_trans)+
  then have "unat a mod 16 ^ k = unat a" "unat b mod 16 ^ k = unat b" by simp_all
  with hex_inj [OF assms(2)] have "unat a = unat b" by simp
  then show ?thesis by (rule unsigned_word_eqI)
qed

text \<open>A created GUID gives its 36 characters, whatever the string held, and no two give the same.\<close>

definition guid_ok :: "GUID \<Rightarrow> bool" where
  "guid_ok g \<longleftrightarrow> length (Data4 g) = 8"

lemma length_bytes: "length (concat (map (\<lambda>b :: 8 word. hex True 2 (unat b)) bs)) = 2 * length bs"
  by (induction bs) auto

lemma length_guid_text: "guid_ok g \<Longrightarrow> length (guid_text g) = 36"
  by (simp add: guid_ok_def guid_text_def length_bytes)

lemma hex_no_NUL: "CHR 0x00 \<notin> set (hex upper k n)"
proof (induction k arbitrary: n)
  case (Suc k)
  have "hex_digit upper (n mod 16) \<in> set (if upper then ''0123456789ABCDEF'' else ''0123456789abcdef'')"
    unfolding hex_digit_def by (rule nth_mem) simp
  with Suc show ?case by (auto split: if_splits)
qed simp

lemma generateGUID_text: "guid_ok g \<Longrightarrow> generateGUID (Some g) s = guid_text g"
proof -
  have "CHR 0x00 \<notin> set (guid_text g)" by (auto simp: guid_text_def hex_no_NUL)
  then have "c \<noteq> CHR 0x00" if "c \<in> set (guid_text g)" for c using that by metis
  then show ?thesis
    by (simp add: generateGUID_def Let_def trimPartString_NUL c_str_def takeWhile_append2)
qed

lemma bytes_inj:
  "length bs = length cs \<Longrightarrow>
     concat (map (\<lambda>b :: 8 word. hex True 2 (unat b)) bs) = concat (map (\<lambda>b. hex True 2 (unat b)) cs) \<Longrightarrow> bs = cs"
proof (induction bs cs rule: list_induct2)
  case (Cons b bs c cs)
  then show ?case using word_hex_inj [of 2 True b c] by (simp add: append_eq_append_conv del: hex.simps)
qed simp

lemma guid_text_inj:
  assumes "guid_ok g" "guid_ok h" "guid_text g = guid_text h"
  shows "g = h"
proof -
  have len: "length (take 2 (Data4 g)) = length (take 2 (Data4 h))" "length (drop 2 (Data4 g)) = length (drop 2 (Data4 h))"
    using assms(1,2) by (simp_all add: guid_ok_def)
  from assms have "Data1 g = Data1 h" "Data2 g = Data2 h" "Data3 g = Data3 h"
    "take 2 (Data4 g) = take 2 (Data4 h)" "drop 2 (Data4 g) = drop 2 (Data4 h)"
    using word_hex_inj [of 8 True "Data1 g" "Data1 h"] word_hex_inj [of 4 True "Data2 g" "Data2 h"]
      word_hex_inj [of 4 False "Data3 g" "Data3 h"] bytes_inj [OF len(1)] bytes_inj [OF len(2)]
    by (simp_all add: guid_text_def append_eq_append_conv length_bytes guid_ok_def del: hex.simps)
  then show ?thesis by (metis (full_types) GUID.surjective append_take_drop_id old.unit.exhaust)
qed

end
