(* ===== verification/Processes.thy ===== *)
theory Processes
  imports Guid
begin

text \<open>
  Starting and following a child process: src/acm/ZProcess.cpp, Commen/ZProcess.h and
  acm/ZJobObject.cpp.  A process object is a record of its handles; the virtual \<open>start\<close> is an
  argument of the code that the three \<open>create\<close> functions share.  The debug loop and the loop
  over the messages of a job wait for as long as the process lives, so they take fuel: the
  number of events they may receive.
\<close>

section \<open>Process objects\<close>

record ZProcessBase =
  m_hProcess :: HANDLE
  m_hThread :: HANDLE

record ZProcessInOut = ZProcessBase +
  m_hInput :: HANDLE
  m_hOutput :: HANDLE
  m_inputFile :: tstring
  m_outputFile :: tstring

definition ZProcessBase_new :: ZProcessBase where
  "ZProcessBase_new = \<lparr>m_hProcess = NULL_HANDLE, m_hThread = NULL_HANDLE\<rparr>"

definition ZProcessInOut_new :: "tstring \<Rightarrow> tstring \<Rightarrow> ZProcessInOut" where
  "ZProcessInOut_new inFile outFile =
     ZProcessBase.extend ZProcessBase_new
       \<lparr>m_hInput = NULL_HANDLE, m_hOutput = NULL_HANDLE, m_inputFile = inFile, m_outputFile = outFile\<rparr>"

lemma ZProcessInOut_new_fields [simp]:
  "m_hProcess (ZProcessInOut_new i out) = NULL_HANDLE" "m_hThread (ZProcessInOut_new i out) = NULL_HANDLE"
  "m_hInput (ZProcessInOut_new i out) = NULL_HANDLE" "m_hOutput (ZProcessInOut_new i out) = NULL_HANDLE"
  "m_inputFile (ZProcessInOut_new i out) = i" "m_outputFile (ZProcessInOut_new i out) = out"
  by (simp_all add: ZProcessInOut_new_def ZProcessBase_new_def ZProcessBase.defs)

definition getExitCode :: "('w, 'x) process_api_scheme \<Rightarrow> HANDLE \<Rightarrow> 'w \<Rightarrow> DWORD \<times> 'w" where
  "getExitCode api h w =
     (let (r, w1) = GetExitCodeProcess api h w
      in ((case r of None \<Rightarrow> 0 | Some code \<Rightarrow> code), w1))"

definition isRunning :: "('w, 'x) process_api_scheme \<Rightarrow> HANDLE \<Rightarrow> 'w \<Rightarrow> bool \<times> 'w" where
  "isRunning api h w = (let (c, w1) = getExitCode api h w in (c = STILL_ACTIVE, w1))"

definition waitExit :: "('w, 'x) process_api_scheme \<Rightarrow> HANDLE \<Rightarrow> int \<Rightarrow> 'w \<Rightarrow> DWORD \<times> 'w" where
  "waitExit api h time w =
     (let (running, w1) = isRunning api h w;
          w2 = (if running then snd (WaitForSingleObject api h (word_of_int time) w1) else w1)
      in getExitCode api h w2)"

definition process_kill :: "('w, 'x) process_api_scheme \<Rightarrow> HANDLE \<Rightarrow> DWORD \<Rightarrow> 'w \<Rightarrow> 'w" where
  "process_kill api h exitCode w = snd (TerminateProcess api h exitCode w)"

definition ZProcessBase_destroy ::
    "('w, 'x) process_api_scheme \<Rightarrow> 'y ZProcessBase_scheme \<Rightarrow> 'w \<Rightarrow> 'y ZProcessBase_scheme \<times> 'w" where
  "ZProcessBase_destroy api p w =
     (let (h1, w1) = SAFE_CLOSE_HANDLE api (m_hProcess p) w;
          (h2, w2) = SAFE_CLOSE_HANDLE api (m_hThread p) w1
      in (p\<lparr>m_hProcess := h1, m_hThread := h2\<rparr>, w2))"

section \<open>Creating a process with redirected streams\<close>

definition BUFSIZE :: nat where "BUFSIZE = 1024"
definition CREATE_SUSPENDED :: DWORD where "CREATE_SUSPENDED = 4"
definition DEBUG_ONLY_THIS_PROCESS :: DWORD where "DEBUG_ONLY_THIS_PROCESS = 2"
definition CREATE_BREAKAWAY_FROM_JOB :: DWORD where "CREATE_BREAKAWAY_FROM_JOB = 0x01000000"

text \<open>\<open>lstrcpy\<close> into a buffer of \<open>BUFSIZE\<close> characters writes past its end for a longer text.\<close>

definition lstrcpy_cmd :: "tstring \<Rightarrow> tstring outcome" where
  "lstrcpy_cmd cmd = (if length (c_str cmd) < BUFSIZE then Inr (c_str cmd) else Inl OutOfRange)"

definition createInputFile ::
    "('w, 'x) process_api_scheme \<Rightarrow> 'y ZProcessInOut_scheme \<Rightarrow> 'w \<Rightarrow> HANDLE \<times> 'w" where
  "createInputFile api p w =
     (if m_inputFile p = [] then (NULL_HANDLE, w)
      else CreateFile api (m_inputFile p) GENERIC_READ w)"

definition createOutputFile ::
    "('w, 'x) process_api_scheme \<Rightarrow> 'y ZProcessInOut_scheme \<Rightarrow> 'w \<Rightarrow> HANDLE \<times> 'w" where
  "createOutputFile api p w =
     (if m_outputFile p = [] then (NULL_HANDLE, w)
      else CreateFile api (m_outputFile p) GENERIC_WRITE w)"

text \<open>\<open>createProcess\<close> yields the handles of the new process and its thread when the call succeeds.\<close>

definition createProcess ::
    "('w, 'x) process_api_scheme \<Rightarrow> tstring \<Rightarrow> bool \<Rightarrow> DWORD \<Rightarrow> startup_info \<Rightarrow> 'w \<Rightarrow>
       (HANDLE \<times> HANDLE) option \<times> 'w" where
  "createProcess api szCMD inheriteHandle creationFlag si w =
     CreateProcess api szCMD inheriteHandle creationFlag si w"

definition ZProcess_start :: "('w, 'x) process_api_scheme \<Rightarrow> ZProcessBase \<Rightarrow> ('w, bool \<times> ZProcessBase) eff" where
  "ZProcess_start api p = ebind (call (ResumeThread api (m_hThread p))) (\<lambda>_. ret (True, p))"

definition ZProcess_create ::
    "('w, 'x) process_api_scheme \<Rightarrow> tstring \<Rightarrow> bool \<Rightarrow> ZProcessBase \<Rightarrow> ('w, bool \<times> ZProcessBase) eff" where
  "ZProcess_create api cmd startNow p =
     ebind (lift (lstrcpy_cmd cmd)) (\<lambda>szCMD.
     ebind (call (createProcess api szCMD False 0
        \<lparr>hStdInput = NULL_HANDLE, hStdOutput = NULL_HANDLE, hStdError = NULL_HANDLE\<rparr>)) (\<lambda>pi.
       case pi of
         None \<Rightarrow> ret (False, p)
       | Some (hp, ht) \<Rightarrow>
           let p1 = p\<lparr>m_hProcess := hp, m_hThread := ht\<rparr>
           in if startNow then ebind (ZProcess_start api p1) (\<lambda>(_, p2). ret (True, p2)) else ret (True, p1)))"

definition create_suspended ::
    "('w, 'x) process_api_scheme \<Rightarrow> DWORD \<Rightarrow>
     ('y ZProcessInOut_scheme \<Rightarrow> ('w, bool \<times> 'y ZProcessInOut_scheme) eff) \<Rightarrow>
     tstring \<Rightarrow> bool \<Rightarrow> 'y ZProcessInOut_scheme \<Rightarrow> ('w, bool \<times> 'y ZProcessInOut_scheme) eff" where
  "create_suspended api flags start cmd startNow p =
     ebind (lift (lstrcpy_cmd cmd)) (\<lambda>szCmd.
     ebind (call (createInputFile api p)) (\<lambda>hIn.
     ebind (call (createOutputFile api p)) (\<lambda>hOut.
       let p1 = p\<lparr>m_hInput := hIn, m_hOutput := hOut\<rparr>
       in ebind (call (createProcess api szCmd True flags
            \<lparr>hStdInput = hIn, hStdOutput = hOut, hStdError = hOut\<rparr>)) (\<lambda>pi.
          case pi of
            None \<Rightarrow> ret (False, p1)
          | Some (hp, ht) \<Rightarrow>
              let p2 = p1\<lparr>m_hProcess := hp, m_hThread := ht\<rparr>
              in if startNow then ebind (start p2) (\<lambda>(_, p3). ret (True, p3)) else ret (True, p2)))))"

definition ZProcessInOut_start ::
    "('w, 'x) process_api_scheme \<Rightarrow> ZProcessInOut \<Rightarrow> ('w, bool \<times> ZProcessInOut) eff" where
  "ZProcessInOut_start api p = ebind (call (ResumeThread api (m_hThread p))) (\<lambda>_. ret (True, p))"

definition ZProcessInOut_create ::
    "('w, 'x) process_api_scheme \<Rightarrow> tstring \<Rightarrow> bool \<Rightarrow> ZProcessInOut \<Rightarrow> ('w, bool \<times> ZProcessInOut) eff" where
  "ZProcessInOut_create api cmd startNow p =
     (if m_hProcess p \<noteq> NULL_HANDLE then ret (False, p)
      else create_suspended api CREATE_SUSPENDED (ZProcessInOut_start api) cmd startNow p)"

definition ZProcessInOut_destroy ::
    "('w, 'x) process_api_scheme \<Rightarrow> 'y ZProcessInOut_scheme \<Rightarrow> 'w \<Rightarrow> 'y ZProcessInOut_scheme \<times> 'w" where
  "ZProcessInOut_destroy api p w =
     (let (h1, w1) = SAFE_CLOSE_HANDLE api (m_hInput p) w;
          (h2, w2) = SAFE_CLOSE_HANDLE api (m_hOutput p) w1
      in ZProcessBase_destroy api (p\<lparr>m_hInput := h1, m_hOutput := h2\<rparr>) w2)"

section \<open>The debug loop\<close>

definition DBG_CONTINUE :: DWORD where "DBG_CONTINUE = 0x00010002"
definition DBG_EXCEPTION_NOT_HANDLED :: DWORD where "DBG_EXCEPTION_NOT_HANDLED = 0x80010001"
definition EXCEPTION_BREAKPOINT :: DWORD where "EXCEPTION_BREAKPOINT = 0x80000003"

text \<open>One turn of the loop: the continue status of the next turn, or the value it returns.\<close>

datatype debug_step = DebugNext DWORD | DebugDone bool

definition ZProcessDebug_turn ::
    "('w, 'x) process_api_scheme \<Rightarrow> DWORD \<Rightarrow> 'w \<Rightarrow> debug_step \<times> 'w" where
  "ZProcessDebug_turn api dwContinueStatus w =
     (let (e, w1) = WaitForDebugEvent api w
      in case e of
           None \<Rightarrow> (DebugDone True, w1)
         | Some (CREATE_PROCESS_DEBUG_EVENT hFile) \<Rightarrow>
             let (_, w2) = SAFE_CLOSE_HANDLE api hFile w1
             in (DebugNext dwContinueStatus, snd (ContinueDebugEvent api dwContinueStatus w2))
         | Some (EXCEPTION_DEBUG_EVENT code firstChance) \<Rightarrow>
             let s = (if code = EXCEPTION_BREAKPOINT then dwContinueStatus
                      else DBG_EXCEPTION_NOT_HANDLED)
             in (DebugNext s, snd (ContinueDebugEvent api s w1))
         | Some (EXIT_PROCESS_DEBUG_EVENT code) \<Rightarrow>
             let (_, w2) = DebugSetProcessKillOnExit api True w1;
                 (_, w3) = DebugActiveProcessStop api w2
             in (DebugDone (code = 0), w3)
         | Some OTHER_DEBUG_EVENT \<Rightarrow>
             (DebugNext dwContinueStatus, snd (ContinueDebugEvent api dwContinueStatus w1)))"

fun ZProcessDebug_loop ::
    "('w, 'x) process_api_scheme \<Rightarrow> nat \<Rightarrow> DWORD \<Rightarrow> 'w \<Rightarrow> (bool \<times> 'w) option" where
  "ZProcessDebug_loop api 0 s w = None"
| "ZProcessDebug_loop api (Suc n) s w =
     (case ZProcessDebug_turn api s w of
        (DebugNext s', w') \<Rightarrow> ZProcessDebug_loop api n s' w'
      | (DebugDone r, w') \<Rightarrow> Some (r, w'))"

text \<open>What \<open>start\<close> does before its loop: the child runs, and the handles it got are closed.\<close>

definition ZProcessDebug_enter ::
    "('w, 'x) process_api_scheme \<Rightarrow> 'y ZProcessInOut_scheme \<Rightarrow> 'w \<Rightarrow> 'y ZProcessInOut_scheme \<times> 'w" where
  "ZProcessDebug_enter api p w =
     (let (_, w1) = ResumeThread api (m_hThread p) w;
          (h1, w2) = SAFE_CLOSE_HANDLE api (m_hInput p) w1;
          (h2, w3) = SAFE_CLOSE_HANDLE api (m_hOutput p) w2;
          (h3, w4) = SAFE_CLOSE_HANDLE api (m_hThread p) w3
      in (p\<lparr>m_hInput := h1, m_hOutput := h2, m_hThread := h3\<rparr>, w4))"

definition ZProcessDebug_start ::
    "('w, 'x) process_api_scheme \<Rightarrow> nat \<Rightarrow> ZProcessInOut \<Rightarrow> 'w \<Rightarrow> ((bool \<times> ZProcessInOut) \<times> 'w) option" where
  "ZProcessDebug_start api fuel p w =
     (let (p1, w1) = ZProcessDebug_enter api p w
      in case ZProcessDebug_loop api fuel DBG_CONTINUE w1 of
           None \<Rightarrow> None | Some (r, w2) \<Rightarrow> Some ((r, p1), w2))"

definition or_diverge :: "('w \<Rightarrow> ('a \<times> 'w) option) \<Rightarrow> ('w, 'a) eff" where
  "or_diverge m w = (case m w of None \<Rightarrow> Inl Diverges | Some r \<Rightarrow> Inr r)"

definition ZProcessDebug_create ::
    "('w, 'x) process_api_scheme \<Rightarrow> nat \<Rightarrow> tstring \<Rightarrow> bool \<Rightarrow> ZProcessInOut \<Rightarrow>
       ('w, bool \<times> ZProcessInOut) eff" where
  "ZProcessDebug_create api fuel cmd startNow p =
     (if m_hProcess p \<noteq> NULL_HANDLE then ret (False, p)
      else create_suspended api (or CREATE_SUSPENDED DEBUG_ONLY_THIS_PROCESS)
             (\<lambda>q. or_diverge (ZProcessDebug_start api fuel q)) cmd startNow p)"

section \<open>Job objects\<close>

definition ZJobObject_new :: HANDLE where
  "ZJobObject_new = NULL_HANDLE"

definition ZJobObject_valid :: "HANDLE \<Rightarrow> bool" where
  "ZJobObject_valid h \<longleftrightarrow> h \<noteq> NULL_HANDLE"

definition ZJobObject_create ::
    "('w, 'x) process_api_scheme \<Rightarrow> tstring \<Rightarrow> HANDLE \<Rightarrow> 'w \<Rightarrow> (bool \<times> HANDLE) \<times> 'w" where
  "ZJobObject_create api name h w =
     (if h \<noteq> NULL_HANDLE then ((False, h), w)
      else
        let (h1, w1) = CreateJobObject api (c_str name) w;
            h2 = (if h1 = INVALID_HANDLE_VALUE then NULL_HANDLE else h1)
        in ((h2 \<noteq> NULL_HANDLE, h2), w1))"

definition ZJobObject_close :: "('w, 'x) process_api_scheme \<Rightarrow> HANDLE \<Rightarrow> 'w \<Rightarrow> HANDLE \<times> 'w" where
  "ZJobObject_close api h w = SAFE_CLOSE_HANDLE api h w"

definition ZJobObject_destroy :: "('w, 'x) process_api_scheme \<Rightarrow> HANDLE \<Rightarrow> 'w \<Rightarrow> HANDLE \<times> 'w" where
  "ZJobObject_destroy api h w = ZJobObject_close api h w"

lemma ZJobObject_create_valid: "fst (fst (ZJobObject_create api n h w)) \<Longrightarrow> ZJobObject_valid (snd (fst (ZJobObject_create api n h w)))"
  by (auto simp: ZJobObject_create_def ZJobObject_valid_def Let_def split: prod.splits if_splits)

definition ZJobObject_wait :: "('w, 'x) process_api_scheme \<Rightarrow> HANDLE \<Rightarrow> DWORD \<Rightarrow> 'w \<Rightarrow> DWORD \<times> 'w" where
  "ZJobObject_wait api h time w = WaitForSingleObject api h time w"

definition ZJobObject_terminate :: "('w, 'x) process_api_scheme \<Rightarrow> HANDLE \<Rightarrow> DWORD \<Rightarrow> 'w \<Rightarrow> bool \<times> 'w" where
  "ZJobObject_terminate api h exitCode w = TerminateJobObject api h exitCode w"

definition ZJobObject_setInformation ::
    "('w, 'x) process_api_scheme \<Rightarrow> HANDLE \<Rightarrow> job_info \<Rightarrow> 'w \<Rightarrow> bool \<times> 'w" where
  "ZJobObject_setInformation api h info w = SetInformationJobObject api h info w"

definition ZJobObject_assinProcess ::
    "('w, 'x) process_api_scheme \<Rightarrow> HANDLE \<Rightarrow> HANDLE \<Rightarrow> 'w \<Rightarrow> bool \<times> 'w" where
  "ZJobObject_assinProcess api h hp w = AssignProcessToJobObject api h hp w"

section \<open>A process in a job\<close>

record ZProcessJob = ZProcessInOut +
  job_limitTime :: int
  job_limitMemory :: int
  job_runTime :: DWORD
  job_runMemory :: DWORD
  m_job :: HANDLE
  m_ioCPHandle :: HANDLE
  m_exitCode :: DWORD

definition ZProcessJob_new :: "tstring \<Rightarrow> tstring \<Rightarrow> int \<Rightarrow> int \<Rightarrow> ZProcessJob" where
  "ZProcessJob_new inFile outFile timeMS memoryKB =
     ZProcessInOut.extend (ZProcessInOut_new inFile outFile)
       \<lparr>job_limitTime = timeMS, job_limitMemory = memoryKB, job_runTime = 0, job_runMemory = 0,
        m_job = ZJobObject_new, m_ioCPHandle = NULL_HANDLE, m_exitCode = 0\<rparr>"

text \<open>Both products are computed in \<open>int\<close>; only then is the time widened to 64 bits.\<close>

definition job_limit_time :: "int \<Rightarrow> int" where
  "job_limit_time timeMS = int32 (timeMS * 10000)"

definition job_limit_memory :: "int \<Rightarrow> int" where
  "job_limit_memory memoryKB =
     (let limitMemory = int32 (memoryKB * 1024)
      in if limitMemory < 0 then 128 * 1024 * 1024 else limitMemory)"

definition job_limits ::
    "('w, 'x) process_api_scheme \<Rightarrow> HANDLE \<Rightarrow> int \<Rightarrow> int \<Rightarrow> 'w \<Rightarrow> 'w" where
  "job_limits api job limitTime limitMemory w =
     (let (_, w1) = ZJobObject_setInformation api job (ExtendedLimitInformation limitTime limitMemory) w;
          (_, w2) = ZJobObject_setInformation api job EndOfJobTimeInformation w1;
          (_, w3) = ZJobObject_setInformation api job BasicUIRestrictions w2
      in w3)"

section \<open>The messages of a job\<close>

definition JOB_OBJECT_MSG_END_OF_JOB_TIME :: DWORD where "JOB_OBJECT_MSG_END_OF_JOB_TIME = 1"
definition JOB_OBJECT_MSG_END_OF_PROCESS_TIME :: DWORD where "JOB_OBJECT_MSG_END_OF_PROCESS_TIME = 2"
definition JOB_OBJECT_MSG_ACTIVE_PROCESS_LIMIT :: DWORD where "JOB_OBJECT_MSG_ACTIVE_PROCESS_LIMIT = 3"
definition JOB_OBJECT_MSG_ACTIVE_PROCESS_ZERO :: DWORD where "JOB_OBJECT_MSG_ACTIVE_PROCESS_ZERO = 4"
definition JOB_OBJECT_MSG_NEW_PROCESS :: DWORD where "JOB_OBJECT_MSG_NEW_PROCESS = 6"
definition JOB_OBJECT_MSG_EXIT_PROCESS :: DWORD where "JOB_OBJECT_MSG_EXIT_PROCESS = 7"
definition JOB_OBJECT_MSG_ABNORMAL_EXIT_PROCESS :: DWORD where "JOB_OBJECT_MSG_ABNORMAL_EXIT_PROCESS = 8"
definition JOB_OBJECT_MSG_PROCESS_MEMORY_LIMIT :: DWORD where "JOB_OBJECT_MSG_PROCESS_MEMORY_LIMIT = 9"
definition JOB_OBJECT_MSG_JOB_MEMORY_LIMIT :: DWORD where "JOB_OBJECT_MSG_JOB_MEMORY_LIMIT = 10"

lemmas job_msg_defs = JOB_OBJECT_MSG_END_OF_JOB_TIME_def JOB_OBJECT_MSG_END_OF_PROCESS_TIME_def
  JOB_OBJECT_MSG_ACTIVE_PROCESS_LIMIT_def JOB_OBJECT_MSG_ACTIVE_PROCESS_ZERO_def
  JOB_OBJECT_MSG_NEW_PROCESS_def JOB_OBJECT_MSG_EXIT_PROCESS_def
  JOB_OBJECT_MSG_ABNORMAL_EXIT_PROCESS_def JOB_OBJECT_MSG_PROCESS_MEMORY_LIMIT_def
  JOB_OBJECT_MSG_JOB_MEMORY_LIMIT_def

text \<open>The switch of the loop: the exit code so far and whether the loop is done.\<close>

definition job_message :: "DWORD \<Rightarrow> DWORD \<Rightarrow> DWORD \<times> bool" where
  "job_message ExecuteResult code =
     (if ExecuteResult = JOB_OBJECT_MSG_NEW_PROCESS then (code, False)
      else if ExecuteResult = JOB_OBJECT_MSG_END_OF_JOB_TIME then (1, True)
      else if ExecuteResult = JOB_OBJECT_MSG_END_OF_PROCESS_TIME then (1, True)
      else if ExecuteResult = JOB_OBJECT_MSG_PROCESS_MEMORY_LIMIT then (2, True)
      else if ExecuteResult = JOB_OBJECT_MSG_JOB_MEMORY_LIMIT then (2, True)
      else if ExecuteResult = JOB_OBJECT_MSG_ACTIVE_PROCESS_LIMIT then (code, False)
      else if ExecuteResult = JOB_OBJECT_MSG_ACTIVE_PROCESS_ZERO then (code, True)
      else if ExecuteResult = JOB_OBJECT_MSG_EXIT_PROCESS then (code, True)
      else if ExecuteResult = JOB_OBJECT_MSG_ABNORMAL_EXIT_PROCESS then (3, True)
      else (99, False))"

text \<open>A failed \<open>GetQueuedCompletionStatus\<close> leaves the variable as the last turn left it.\<close>

fun ZProcessJob_loop ::
    "('w, 'x) process_api_scheme \<Rightarrow> nat \<Rightarrow> HANDLE \<Rightarrow> DWORD \<Rightarrow> DWORD \<Rightarrow> 'w \<Rightarrow> (DWORD \<times> 'w) option" where
  "ZProcessJob_loop api 0 cp result code w = None"
| "ZProcessJob_loop api (Suc n) cp result code w =
     (let (m, w1) = GetQueuedCompletionStatus api cp w;
          result1 = (case m of None \<Rightarrow> result | Some r \<Rightarrow> r);
          (code1, done) = job_message result1 code
      in if done then Some (code1, w1) else ZProcessJob_loop api n cp result1 code1 w1)"

fun terminate_loop ::
    "('w, 'x) process_api_scheme \<Rightarrow> nat \<Rightarrow> HANDLE \<Rightarrow> 'w \<Rightarrow> 'w option" where
  "terminate_loop api 0 job w = None"
| "terminate_loop api (Suc n) job w =
     (let (ok, w1) = ZJobObject_terminate api job 0 w
      in if ok then Some w1 else terminate_loop api n job (snd (Sleep api 1000 w1)))"

text \<open>The fuel of both loops is the number of turns each may take; \<open>None\<close> means not returning.\<close>

definition ZProcessJob_start ::
    "('w, 'x) process_api_scheme \<Rightarrow> nat \<Rightarrow> ZProcessJob \<Rightarrow> 'w \<Rightarrow> ((bool \<times> ZProcessJob) \<times> 'w) option" where
  "ZProcessJob_start api fuel p w =
     (let (assigned, w1) = ZJobObject_assinProcess api (m_job p) (m_hProcess p) w
      in if \<not> assigned then Some ((False, p), w1)
         else
           let (p1, w2) = ZProcessDebug_enter api p w1
           in case ZProcessJob_loop api fuel (m_ioCPHandle p1) (- 1) (m_exitCode p1) w2 of
                None \<Rightarrow> None
              | Some (code, w3) \<Rightarrow>
                  let (t, w4) = QueryJobTime api (m_job p1) w3;
                      (m, w5) = QueryJobMemory api (m_job p1) w4;
                      (h1, w6) = SAFE_CLOSE_HANDLE api (m_hProcess p1) w5;
                      (h2, w7) = SAFE_CLOSE_HANDLE api (m_ioCPHandle p1) w6
                  in case terminate_loop api fuel (m_job p1) w7 of
                       None \<Rightarrow> None
                     | Some w8 \<Rightarrow>
                         let (h3, w9) = ZJobObject_close api (m_job p1) w8
                         in Some ((True, p1\<lparr>m_exitCode := code, job_runTime := t div 10000,
                               job_runMemory := m div 1024, m_hProcess := h1,
                               m_ioCPHandle := h2, m_job := h3\<rparr>), w9))"

text \<open>\<open>g_idIndex\<close>, the counter behind \<open>generateID\<close>, is passed in and returned.\<close>

definition ZProcessJob_create ::
    "('w, 'x) process_api_scheme \<Rightarrow> nat \<Rightarrow> tstring \<Rightarrow> bool \<Rightarrow> int \<Rightarrow> ZProcessJob \<Rightarrow>
       ('w, (bool \<times> ZProcessJob) \<times> int) eff" where
  "ZProcessJob_create api fuel cmd startNow g_idIndex p =
     (if m_hProcess p \<noteq> NULL_HANDLE then ret ((False, p), g_idIndex)
      else
        ebind (call (CoCreateGuid api)) (\<lambda>guid.
        ebind (call (ZJobObject_create api (generateGUID guid []) (m_job p))) (\<lambda>(ok, job).
          let p1 = p\<lparr>m_job := job\<rparr>
          in if \<not> ok then ret ((False, p1), g_idIndex)
             else
               ebind (call (\<lambda>w. ((), job_limits api job (job_limit_time (job_limitTime p))
                   (job_limit_memory (job_limitMemory p)) w))) (\<lambda>_.
               let (key, g1) = generateID g_idIndex
               in ebind (call (CreateIoCompletionPort api)) (\<lambda>cp.
                  ebind (call (ZJobObject_setInformation api job (AssociateCompletionPort key cp))) (\<lambda>_.
                  ebind (create_suspended api (or CREATE_SUSPENDED CREATE_BREAKAWAY_FROM_JOB)
                      (\<lambda>q. or_diverge (ZProcessJob_start api fuel q)) cmd startNow (p1\<lparr>m_ioCPHandle := cp\<rparr>)) (\<lambda>r.
                    ret (r, g1))))))))"

section \<open>What the loops return\<close>

text \<open>
  The events of the child are a queue that the wait calls take from and that no other call of
  the loop touches.
\<close>

definition event_source :: "('w, 'x) process_api_scheme \<Rightarrow> ('w \<Rightarrow> debug_event list) \<Rightarrow> bool" where
  "event_source api q \<longleftrightarrow>
     (\<forall>w e es. q w = e # es \<longrightarrow> fst (WaitForDebugEvent api w) = Some e \<and> q (snd (WaitForDebugEvent api w)) = es) \<and>
     (\<forall>w s. q (snd (ContinueDebugEvent api s w)) = q w) \<and>
     (\<forall>w h. q (snd (CloseHandle api h w)) = q w) \<and>
     (\<forall>b w. q (snd (DebugSetProcessKillOnExit api b w)) = q w) \<and>
     (\<forall>w. q (snd (DebugActiveProcessStop api w)) = q w)"

definition message_source :: "('w, 'x) process_api_scheme \<Rightarrow> ('w \<Rightarrow> DWORD list) \<Rightarrow> bool" where
  "message_source api q \<longleftrightarrow>
     (\<forall>h w m ms. q w = m # ms \<longrightarrow>
        fst (GetQueuedCompletionStatus api h w) = Some m \<and>
        q (snd (GetQueuedCompletionStatus api h w)) = ms)"

definition is_exit :: "debug_event \<Rightarrow> bool" where
  "is_exit e \<longleftrightarrow> (case e of EXIT_PROCESS_DEBUG_EVENT c \<Rightarrow> True | _ \<Rightarrow> False)"

lemma SAFE_CLOSE_source:
  "event_source api q \<Longrightarrow> q (snd (SAFE_CLOSE_HANDLE api h w)) = q w"
  by (simp add: SAFE_CLOSE_HANDLE_def event_source_def)

lemma debug_turn_next:
  assumes src: "event_source api q" and q: "q w = e # es" and e: "\<not> is_exit e"
  shows "\<exists>s' w'. ZProcessDebug_turn api s w = (DebugNext s', w') \<and> q w' = es"
proof -
  obtain w1 where w1: "WaitForDebugEvent api w = (Some e, w1)" "q w1 = es"
    using src q unfolding event_source_def by (metis prod.collapse)
  have c: "q (snd (ContinueDebugEvent api s' v)) = q v" for s' v
    using src by (simp add: event_source_def)
  show ?thesis
    using e w1 c SAFE_CLOSE_source [OF src]
    by (cases e) (auto simp: ZProcessDebug_turn_def is_exit_def Let_def split: prod.splits,
      metis snd_conv)
qed

lemma debug_loop_run:
  "event_source api q \<Longrightarrow> q w = es @ EXIT_PROCESS_DEBUG_EVENT c # rest \<Longrightarrow>
     list_all (\<lambda>e. \<not> is_exit e) es \<Longrightarrow> length es < n \<Longrightarrow>
     \<exists>w'. ZProcessDebug_loop api n s w = Some (c = 0, w') \<and> q w' = rest"
proof (induction es arbitrary: n s w)
  case Nil
  then obtain k where n: "n = Suc k" by (cases n) auto
  from Nil obtain w1 where w1: "WaitForDebugEvent api w = (Some (EXIT_PROCESS_DEBUG_EVENT c), w1)"
    "q w1 = rest" unfolding event_source_def by (metis append_Nil prod.collapse)
  have "q (snd (DebugActiveProcessStop api (snd (DebugSetProcessKillOnExit api True w1)))) = rest"
    using Nil w1 by (simp add: event_source_def)
  with w1 n show ?case
    by (simp add: ZProcessDebug_turn_def Let_def case_prod_beta)
next
  case (Cons e es)
  then obtain k where n: "n = Suc k" by (cases n) auto
  from Cons.prems have "q w = e # (es @ EXIT_PROCESS_DEBUG_EVENT c # rest)" "\<not> is_exit e" by auto
  from debug_turn_next [OF Cons.prems(1) this] obtain s' w' where
    "ZProcessDebug_turn api s w = (DebugNext s', w')" "q w' = es @ EXIT_PROCESS_DEBUG_EVENT c # rest"
    by blast
  with Cons.IH [of w' k s'] Cons.prems n show ?case by simp
qed

lemma int32_small: "- (2 ^ 31) \<le> x \<Longrightarrow> x < 2 ^ 31 \<Longrightarrow> int32 x = x"
  by (simp add: int32_id is_int32_def)

lemma int32_wrap_down: "2 ^ 31 \<le> x \<Longrightarrow> x < 2 ^ 32 \<Longrightarrow> int32 x = x - 2 ^ 32"
proof -
  assume "2 ^ 31 \<le> x" "x < 2 ^ 32"
  then have "(x + 2 ^ 31 - 2 ^ 32) mod 2 ^ 32 = x + 2 ^ 31 - 2 ^ 32" by simp
  moreover have "(x + 2 ^ 31) mod 2 ^ 32 = (x + 2 ^ 31 - 2 ^ 32) mod 2 ^ 32"
    by (metis minus_mod_self2)
  ultimately show ?thesis by (simp add: int32_def)
qed

lemma job_loop_step:
  assumes "message_source api q" "q w = m # ms"
  obtains w1 where "GetQueuedCompletionStatus api h w = (Some m, w1)" "q w1 = ms"
  using assms unfolding message_source_def by (metis prod.collapse)

lemma job_loop_run:
  assumes src: "message_source api q" and q: "q w = ms @ m # rest"
    and skip: "\<forall>x \<in> set ms. \<not> snd (job_message x 0)" and stop: "snd (job_message m 0)"
    and fuel: "length ms < n"
  shows "\<exists>w'. ZProcessJob_loop api n cp r code w =
    Some (fst (job_message m (foldl (\<lambda>c x. fst (job_message x c)) code ms)), w') \<and> q w' = rest"
  using q skip fuel
proof (induction ms arbitrary: n r code w)
  have snd_any: "snd (job_message x c) = snd (job_message x 0)" for x c
    by (simp add: job_message_def)
  {
    case Nil
    then obtain k where n: "n = Suc k" by (cases n) auto
    from Nil obtain w1 where "GetQueuedCompletionStatus api cp w = (Some m, w1)" "q w1 = rest"
      using job_loop_step [OF src] by (metis append_Nil)
    with n stop snd_any [of m code] show ?case by (simp add: case_prod_beta Let_def)
  next
    case (Cons x ms)
    then obtain k where n: "n = Suc k" by (cases n) auto
    from Cons.prems obtain w1 where w1: "GetQueuedCompletionStatus api cp w = (Some x, w1)"
      "q w1 = ms @ m # rest"
      using job_loop_step [OF src] by (metis append_Cons)
    from Cons.prems n have "\<forall>y \<in> set ms. \<not> snd (job_message y 0)" "length ms < k" by auto
    from Cons.IH [OF w1(2) this, of x "fst (job_message x code)"] n w1(1) snd_any [of x code] Cons.prems
    show ?case by (simp add: case_prod_beta Let_def)
  }
qed

section \<open>Properties\<close>

text \<open>
  C34: when the child reports its exit, the debug loop returns, after exactly the events before
  it; its value says whether the exit code was 0.
\<close>

theorem debug_loop_returns:
  assumes "event_source api q" and "q w = es @ EXIT_PROCESS_DEBUG_EVENT c # rest"
    and "list_all (\<lambda>e. \<not> is_exit e) es" and "length es < fuel"
  shows "\<exists>w'. ZProcessDebug_loop api fuel s w = Some (c = 0, w') \<and> q w' = rest"
  using assms by (rule debug_loop_run)

lemma mem_event_source: "event_source mem_processes os_events"
  by (auto simp: event_source_def mem_processes_def file_api.defs)

theorem debug_loop_returns_witness:
  "\<exists>w'. ZProcessDebug_loop mem_processes 4 DBG_CONTINUE
      (mem_os_new [] [CREATE_PROCESS_DEBUG_EVENT 5, EXCEPTION_DEBUG_EVENT EXCEPTION_BREAKPOINT True,
         EXIT_PROCESS_DEBUG_EVENT 7] [259] [0] [0]) = Some ((7 :: DWORD) = 0, w') \<and> os_events w' = []"
  by (rule debug_loop_returns [OF mem_event_source, of _
        "[CREATE_PROCESS_DEBUG_EVENT 5, EXCEPTION_DEBUG_EVENT EXCEPTION_BREAKPOINT True]"])
    (simp_all add: mem_os_new_def mem_fs.defs is_exit_def)

text \<open>
  The byte limit of a job is the kilobyte limit times 1024 up to 2 GB; from there to 4 GB it is
  silently 128 MB, and at 4 GB it is no memory at all.
\<close>

theorem job_memory_limit:
  assumes "0 \<le> kb" and "kb \<le> 2 ^ 22"
  shows "job_limit_memory kb =
    (if kb < 2 ^ 21 then kb * 1024 else if kb < 2 ^ 22 then 128 * 1024 * 1024 else 0)"
proof -
  consider "kb < 2 ^ 21" | "2 ^ 21 \<le> kb" "kb < 2 ^ 22" | "kb = 2 ^ 22"
    using assms by linarith
  then show ?thesis
  proof cases
    case 1
    then show ?thesis using assms by (simp add: job_limit_memory_def int32_small)
  next
    case 2
    then show ?thesis by (simp add: job_limit_memory_def int32_wrap_down)
  next
    case 3
    then show ?thesis by (simp add: job_limit_memory_def int32_def)
  qed
qed

theorem job_memory_limit_witness: "job_limit_memory (3000 * 1024) = 128 * 1024 * 1024"
  using job_memory_limit [of "3000 * 1024"] by simp

text \<open>
  The exit code of the job loop is sticky.  A notification the switch does not know, followed
  by the normal exit of the process, leaves 99, which the runner takes for a runtime error.
\<close>

theorem job_unknown_message_sticks:
  assumes "message_source api q" and "q w = [m, JOB_OBJECT_MSG_EXIT_PROCESS]"
    and "m \<notin> {1, 2, 3, 4, 6, 7, 8, 9, 10}" and "2 \<le> fuel"
  shows "\<exists>w'. ZProcessJob_loop api fuel cp r 0 w = Some (99, w')"
proof -
  have m: "job_message m c = (99, False)" for c
    using assms(3) by (simp add: job_message_def job_msg_defs)
  have e: "job_message JOB_OBJECT_MSG_EXIT_PROCESS c = (c, True)" for c
    by (simp add: job_message_def job_msg_defs)
  show ?thesis
    using job_loop_run [of api q w "[m]" JOB_OBJECT_MSG_EXIT_PROCESS "[]" fuel cp r 0] assms m e
    by simp blast
qed

lemma mem_message_source: "message_source mem_processes os_messages"
  by (simp add: message_source_def mem_processes_def file_api.defs)

theorem job_unknown_message_sticks_witness:
  "\<exists>w'. ZProcessJob_loop mem_processes 2 31 (- 1) 0
     ((mem_os_new [] [] [0] [0] [0])\<lparr>os_messages := [11, JOB_OBJECT_MSG_EXIT_PROCESS]\<rparr>) = Some (99, w')"
  by (rule job_unknown_message_sticks [OF mem_message_source, of _ 11]) simp_all

end
