(* ===== verification/Watching.thy ===== *)
theory Watching
  imports Processes
begin

text \<open>
  The watcher of src/acm/Watcher.cpp: a thread that polls the time and the memory of a process
  and kills it when a limit is passed.  The limits are unsigned 64-bit numbers of 100 ns and of
  bytes.  One turn of the polling loop is a step, so that it can be interleaved with the debug
  loop of the main thread; the loop by itself takes fuel.
\<close>

section \<open>The watcher\<close>

record Watcher =
  w_process :: HANDLE
  limitTime :: "64 word"
  runTime :: "64 word"
  limitMemory :: "64 word"
  runMemory :: "64 word"
  timeLimited :: bool
  memoryLimited :: bool

definition Watcher_new :: "HANDLE \<Rightarrow> 64 word \<Rightarrow> 64 word \<Rightarrow> Watcher" where
  "Watcher_new proc time memory =
     \<lparr>w_process = proc, limitTime = time, runTime = 0, limitMemory = memory, runMemory = 0,
      timeLimited = False, memoryLimited = False\<rparr>"

definition getProcessMemory :: "('w, 'x) process_api_scheme \<Rightarrow> HANDLE \<Rightarrow> 'w \<Rightarrow> 64 word \<times> 'w" where
  "getProcessMemory api h w =
     (let (r, w1) = GetProcessMemoryInfo api h w
      in ((case r of None \<Rightarrow> 0 | Some peak \<Rightarrow> peak), w1))"

definition getProcessTime :: "('w, 'x) process_api_scheme \<Rightarrow> HANDLE \<Rightarrow> 'w \<Rightarrow> 64 word \<times> 'w" where
  "getProcessTime api h w =
     (let ((high, low), w1) = GetProcessTimes api h w in (word_cat high low, w1))"

definition updateTime :: "('w, 'x) process_api_scheme \<Rightarrow> Watcher \<Rightarrow> 'w \<Rightarrow> (bool \<times> Watcher) \<times> 'w" where
  "updateTime api r w =
     (let (t, w1) = getProcessTime api (w_process r) w
      in ((t > limitTime r, r\<lparr>runTime := t\<rparr>), w1))"

definition updateMemory :: "('w, 'x) process_api_scheme \<Rightarrow> Watcher \<Rightarrow> 'w \<Rightarrow> (bool \<times> Watcher) \<times> 'w" where
  "updateMemory api r w =
     (let (memory, w1) = getProcessMemory api (w_process r) w;
          m = (if memory > runMemory r then memory else runMemory r)
      in ((m > limitMemory r, r\<lparr>runMemory := m\<rparr>), w1))"

section \<open>The polling loop\<close>

text \<open>One turn of the loop; the first component says that the loop goes on.\<close>

definition watch_poll ::
    "('w, 'x) process_api_scheme \<Rightarrow> Watcher \<Rightarrow> 'w \<Rightarrow> (bool \<times> Watcher) \<times> 'w" where
  "watch_poll api r w =
     (let (running, w1) = isRunning api (w_process r) w
      in if \<not> running then ((False, r), w1)
         else
           let (_, w2) = Sleep api 10 w1;
               ((over, r1), w3) = updateTime api r w2
           in if over then ((False, r1\<lparr>timeLimited := True\<rparr>), w3)
              else
                let ((over, r2), w4) = updateMemory api r1 w3
                in if over then ((False, r2\<lparr>memoryLimited := True\<rparr>), w4) else ((True, r2), w4))"

definition watch_end :: "('w, 'x) process_api_scheme \<Rightarrow> Watcher \<Rightarrow> 'w \<Rightarrow> Watcher \<times> 'w" where
  "watch_end api r w =
     (let (running, w1) = isRunning api (w_process r) w;
          w2 = (if running then process_kill api (w_process r) 0 w1 else w1);
          ((_, r1), w3) = updateTime api r w2;
          ((_, r2), w4) = updateMemory api r1 w3
      in (r2, w4))"

fun doWatch :: "('w, 'x) process_api_scheme \<Rightarrow> nat \<Rightarrow> Watcher \<Rightarrow> 'w \<Rightarrow> (Watcher \<times> 'w) option" where
  "doWatch api 0 r w = None"
| "doWatch api (Suc n) r w =
     (let ((goOn, r1), w1) = watch_poll api r w
      in if goOn then doWatch api n r1 w1 else Some (watch_end api r1 w1))"

section \<open>What a turn does to the record\<close>

text \<open>
  The invariant while the loop runs: no flag is set and no value recorded so far is over its
  limit.  After the loop a set flag names the limit that was passed.
\<close>

definition watch_within :: "Watcher \<Rightarrow> bool" where
  "watch_within r \<longleftrightarrow> \<not> timeLimited r \<and> \<not> memoryLimited r \<and>
     runTime r \<le> limitTime r \<and> runMemory r \<le> limitMemory r"

definition watch_stopped :: "Watcher \<Rightarrow> bool" where
  "watch_stopped r \<longleftrightarrow> watch_within r \<or>
     (timeLimited r \<and> \<not> memoryLimited r \<and> limitTime r < runTime r \<and> runMemory r \<le> limitMemory r) \<or>
     (\<not> timeLimited r \<and> memoryLimited r \<and> runTime r \<le> limitTime r \<and> limitMemory r < runMemory r)"

lemma watch_new_within: "watch_within (Watcher_new p t m)"
  by (simp add: watch_within_def Watcher_new_def)

lemma updateTime_spec:
  "updateTime api r w = ((b, r'), w') \<Longrightarrow> \<exists>t. r' = r\<lparr>runTime := t\<rparr> \<and> b = (limitTime r < t)"
  by (auto simp: updateTime_def Let_def split: prod.splits)

lemma updateMemory_spec:
  "updateMemory api r w = ((b, r'), w') \<Longrightarrow>
     \<exists>m. r' = r\<lparr>runMemory := m\<rparr> \<and> b = (limitMemory r < m) \<and> runMemory r \<le> m"
  by (rule exI [of _ "runMemory r'"])
    (auto simp: updateMemory_def Let_def split: prod.splits if_splits)

lemma watch_poll_within:
  assumes "watch_poll api r w = ((goOn, r'), w')" "watch_within r"
  shows "if goOn then watch_within r' else watch_stopped r'"
proof -
  obtain b w1 where b: "isRunning api (w_process r) w = (b, w1)" by fastforce
  define w2 where "w2 = snd (Sleep api 10 w1)"
  have s: "Sleep api 10 w1 = ((), w2)" by (simp add: w2_def prod_eq_iff)
  obtain o1 r1 w3 where t: "updateTime api r w2 = ((o1, r1), w3)" by (metis prod.exhaust)
  obtain o2 r2 w4 where m: "updateMemory api r1 w3 = ((o2, r2), w4)" by (metis prod.exhaust)
  from updateTime_spec [OF t] obtain tv where tv: "r1 = r\<lparr>runTime := tv\<rparr>" "o1 = (limitTime r < tv)"
    by blast
  from updateMemory_spec [OF m] obtain mv where
    mv: "r2 = r1\<lparr>runMemory := mv\<rparr>" "o2 = (limitMemory r1 < mv)" by blast
  from assms(1) b s t m show ?thesis
    using assms(2) tv mv
    by (auto simp: watch_poll_def watch_within_def watch_stopped_def Let_def split: if_splits)
qed

lemma watch_poll_frame:
  assumes "watch_poll api r w = ((goOn, r'), w')"
  shows "limitTime r' = limitTime r" "limitMemory r' = limitMemory r" "w_process r' = w_process r"
    "runMemory r \<le> runMemory r'"
  using assms
  by (auto simp: watch_poll_def Let_def split: prod.splits if_splits
      dest!: updateTime_spec updateMemory_spec)

lemma watch_end_frame:
  assumes "watch_end api r w = (r', w')"
  shows "timeLimited r' = timeLimited r" "memoryLimited r' = memoryLimited r"
    "limitTime r' = limitTime r" "limitMemory r' = limitMemory r" "runMemory r \<le> runMemory r'"
proof -
  obtain b w1 where b: "isRunning api (w_process r) w = (b, w1)" by fastforce
  let ?w2 = "if b then process_kill api (w_process r) 0 w1 else w1"
  obtain o1 r1 w3 where t: "updateTime api r ?w2 = ((o1, r1), w3)" by (metis prod.exhaust)
  obtain o2 r2 w4 where m: "updateMemory api r1 w3 = ((o2, r2), w4)" by (metis prod.exhaust)
  have r': "r' = r2" using assms b t m by (simp add: watch_end_def Let_def)
  from updateTime_spec [OF t] obtain tv where "r1 = r\<lparr>runTime := tv\<rparr>" by blast
  moreover from updateMemory_spec [OF m] obtain mv where
    "r2 = r1\<lparr>runMemory := mv\<rparr>" "runMemory r1 \<le> mv" by blast
  ultimately show "timeLimited r' = timeLimited r" "memoryLimited r' = memoryLimited r"
    "limitTime r' = limitTime r" "limitMemory r' = limitMemory r" "runMemory r \<le> runMemory r'"
    using r' by simp_all
qed

text \<open>The final update cannot undo a memory flag: the recorded peak never decreases.\<close>

definition watch_final :: "Watcher \<Rightarrow> bool" where
  "watch_final r \<longleftrightarrow> \<not> (timeLimited r \<and> memoryLimited r) \<and>
     (memoryLimited r \<longrightarrow> limitMemory r < runMemory r)"

lemma watch_end_final:
  "watch_stopped r \<Longrightarrow> watch_end api r w = (r', w') \<Longrightarrow> watch_final r'"
  using watch_end_frame [of api r w r' w']
  by (auto simp: watch_stopped_def watch_within_def watch_final_def intro: less_le_trans)

lemma doWatch_final:
  "doWatch api n r w = Some (r', w') \<Longrightarrow> watch_within r \<Longrightarrow> watch_final r'"
proof (induction n arbitrary: r w)
  case (Suc n)
  obtain goOn r1 w1 where poll: "watch_poll api r w = ((goOn, r1), w1)" by (metis prod.exhaust)
  have inv: "if goOn then watch_within r1 else watch_stopped r1"
    using poll Suc.prems(2) by (rule watch_poll_within)
  show ?case
  proof (cases goOn)
    case True
    with Suc poll inv show ?thesis by simp
  next
    case False
    with Suc.prems poll have "watch_end api r1 w1 = (r', w')" by simp
    with inv False show ?thesis by (auto intro: watch_end_final)
  qed
qed simp

section \<open>A process that neither computes nor allocates\<close>

text \<open>
  \<open>I\<close> holds of the worlds in which the process is alive and within its limits, and the calls of
  a turn stay among them: a process that sleeps or waits for input.
\<close>

definition idle_world :: "('w, 'x) process_api_scheme \<Rightarrow> Watcher \<Rightarrow> ('w \<Rightarrow> bool) \<Rightarrow> bool" where
  "idle_world api r I \<longleftrightarrow>
     (\<forall>w. I w \<longrightarrow>
        fst (GetExitCodeProcess api (w_process r) w) = Some STILL_ACTIVE \<and>
        I (snd (GetExitCodeProcess api (w_process r) w)) \<and>
        I (snd (Sleep api 10 w)) \<and>
        fst (getProcessTime api (w_process r) w) \<le> limitTime r \<and>
        I (snd (getProcessTime api (w_process r) w)) \<and>
        fst (getProcessMemory api (w_process r) w) \<le> limitMemory r \<and>
        I (snd (getProcessMemory api (w_process r) w)))"

lemma idle_poll:
  assumes idle: "idle_world api r I" and w: "I w" and m: "runMemory r \<le> limitMemory r"
  shows "\<exists>r' w'. watch_poll api r w = ((True, r'), w') \<and> I w' \<and> runMemory r' \<le> limitMemory r' \<and>
    w_process r' = w_process r \<and> limitTime r' = limitTime r \<and> limitMemory r' = limitMemory r"
proof -
  let ?h = "w_process r"
  obtain w1 where w1: "GetExitCodeProcess api ?h w = (Some STILL_ACTIVE, w1)" "I w1"
    using idle w unfolding idle_world_def by (metis prod.collapse)
  define w2 where "w2 = snd (Sleep api 10 w1)"
  have "I w2" using idle w1(2) by (simp add: idle_world_def w2_def)
  then obtain t w3 where w3: "getProcessTime api ?h w2 = (t, w3)" "t \<le> limitTime r" "I w3"
    using idle unfolding idle_world_def by (metis prod.collapse)
  then obtain v w4 where w4: "getProcessMemory api ?h w3 = (v, w4)" "v \<le> limitMemory r" "I w4"
    using idle unfolding idle_world_def by (metis prod.collapse)
  have "isRunning api ?h w = (True, w1)"
    by (simp add: isRunning_def getExitCode_def w1(1))
  moreover have "snd (Sleep api 10 w1) = w2" by (simp add: w2_def)
  ultimately show ?thesis
    using w3 w4 m
    by (auto simp: watch_poll_def updateTime_def updateMemory_def case_prod_beta Let_def not_less)
qed

lemma idle_never_ends:
  "idle_world api r I \<Longrightarrow> I w \<Longrightarrow> runMemory r \<le> limitMemory r \<Longrightarrow> doWatch api n r w = None"
proof (induction n arbitrary: r w)
  case (Suc n)
  from idle_poll [OF Suc.prems] obtain r' w' where
    r': "watch_poll api r w = ((True, r'), w')" "I w'" "runMemory r' \<le> limitMemory r'"
    "w_process r' = w_process r" "limitTime r' = limitTime r" "limitMemory r' = limitMemory r"
    by blast
  have "idle_world api r' I" using Suc.prems(1) r' by (simp add: idle_world_def)
  from Suc.IH [OF this r'(2,3)] r'(1) show ?case by simp
qed simp

section \<open>A process that computes\<close>

text \<open>
  \<open>cpu\<close> is the CPU time a process has used and \<open>stopped\<close> says that it has ended.  In a busy world
  neither goes back, time passes for a running process while the watcher sleeps, the calls report the
  two as they are, and a terminated process has ended.  \<open>I\<close> holds of the worlds this is said of.
\<close>

definition later :: "('w \<Rightarrow> bool) \<Rightarrow> ('w \<Rightarrow> bool) \<Rightarrow> ('w \<Rightarrow> nat) \<Rightarrow> 'w \<Rightarrow> 'w \<Rightarrow> bool" where
  "later I stopped cpu w w' \<longleftrightarrow> I w' \<and> (stopped w \<longrightarrow> stopped w') \<and> cpu w \<le> cpu w'"

definition busy_world ::
    "('w, 'x) process_api_scheme \<Rightarrow> HANDLE \<Rightarrow> ('w \<Rightarrow> bool) \<Rightarrow> ('w \<Rightarrow> bool) \<Rightarrow> ('w \<Rightarrow> nat) \<Rightarrow> bool" where
  "busy_world api h I stopped cpu \<longleftrightarrow>
     (\<forall>w. I w \<longrightarrow>
        later I stopped cpu w (snd (isRunning api h w)) \<and>
        fst (isRunning api h w) = (\<not> stopped (snd (isRunning api h w))) \<and>
        later I stopped cpu w (snd (Sleep api 10 w)) \<and>
        (stopped (snd (Sleep api 10 w)) \<or> cpu w < cpu (snd (Sleep api 10 w))) \<and>
        later I stopped cpu w (snd (getProcessTime api h w)) \<and>
        unat (fst (getProcessTime api h w)) = cpu (snd (getProcessTime api h w)) \<and>
        later I stopped cpu w (snd (getProcessMemory api h w)) \<and>
        later I stopped cpu w (process_kill api h 0 w) \<and> stopped (process_kill api h 0 w))"

lemma later_trans: "later I s c u v \<Longrightarrow> later I s c v w \<Longrightarrow> later I s c u w"
  by (auto simp: later_def)

text \<open>One poll: the loop is left, or the process has ended, or it has used more time within its limit.\<close>

lemma busy_poll:
  assumes busy: "busy_world api (w_process r) I stopped cpu" and w: "I w"
    and poll: "watch_poll api r w = ((goOn, r'), w')"
  shows "I w' \<and> (goOn \<longrightarrow> \<not> stopped w \<and> (stopped w' \<or> cpu w < cpu w' \<and> cpu w < unat (limitTime r)))"
proof -
  let ?h = "w_process r"
  obtain b w1 where b: "isRunning api ?h w = (b, w1)" by fastforce
  define w2 where "w2 = snd (Sleep api 10 w1)"
  have s: "Sleep api 10 w1 = ((), w2)" by (simp add: w2_def prod_eq_iff)
  obtain t w3 where t: "getProcessTime api ?h w2 = (t, w3)" by fastforce
  obtain m w4 where m: "getProcessMemory api ?h w3 = (m, w4)" by fastforce
  note at = busy [unfolded busy_world_def, rule_format]
  have 1: "later I stopped cpu w w1" "b = (\<not> stopped w1)" using at [OF w] b by simp_all
  then have I1: "I w1" by (simp add: later_def)
  have 2: "later I stopped cpu w1 w2" "stopped w2 \<or> cpu w1 < cpu w2" using at [OF I1] w2_def by auto
  then have I2: "I w2" by (simp add: later_def)
  have 3: "later I stopped cpu w2 w3" "unat t = cpu w3" using at [OF I2] t by simp_all
  then have I3: "I w3" by (simp add: later_def)
  have 4: "later I stopped cpu w3 w4" using at [OF I3] m by simp
  show ?thesis
    using poll b s t m 1 2 3 4
    by (auto simp: watch_poll_def updateTime_def updateMemory_def later_def not_less word_le_nat_alt
        Let_def split: if_splits)
qed

lemma busy_end:
  assumes busy: "busy_world api (w_process r) I stopped cpu" and w: "I w"
    and "watch_end api r w = (r', w')"
  shows "I w' \<and> stopped w'"
proof -
  let ?h = "w_process r"
  obtain b w1 where b: "isRunning api ?h w = (b, w1)" by fastforce
  define w2 where "w2 = (if b then process_kill api ?h 0 w1 else w1)"
  obtain t w3 where t: "getProcessTime api ?h w2 = (t, w3)" by fastforce
  obtain m w4 where m: "getProcessMemory api ?h w3 = (m, w4)" by fastforce
  note at = busy [unfolded busy_world_def, rule_format]
  have 1: "I w1" "b = (\<not> stopped w1)" using at [OF w] b by (simp_all add: later_def)
  then have 2: "I w2" "stopped w2" using at [OF 1(1)] by (simp_all add: w2_def later_def)
  have 3: "I w3" "stopped w3" using at [OF 2(1)] 2(2) t by (simp_all add: later_def)
  have "I w4" "stopped w4" using at [OF 3(1)] 3(2) m by (simp_all add: later_def)
  then show ?thesis
    using assms(3) b t m by (auto simp: watch_end_def updateTime_def updateMemory_def w2_def Let_def)
qed

lemma busy_returns:
  assumes "busy_world api (w_process r) I stopped cpu" "I w"
    and "stopped w \<and> 1 \<le> n \<or> unat (limitTime r) - cpu w + 2 \<le> n"
  shows "\<exists>r' w'. doWatch api n r w = Some (r', w') \<and> I w' \<and> stopped w'"
  using assms
proof (induction n arbitrary: r w)
  case (Suc n)
  obtain goOn r1 w1 where poll: "watch_poll api r w = ((goOn, r1), w1)" by (metis prod.exhaust)
  have inv: "I w1" "goOn \<Longrightarrow> \<not> stopped w \<and> (stopped w1 \<or> cpu w < cpu w1 \<and> cpu w < unat (limitTime r))"
    using busy_poll [OF Suc.prems(1,2) poll] by simp_all
  have busy1: "busy_world api (w_process r1) I stopped cpu"
    using Suc.prems(1) watch_poll_frame(3) [OF poll] by simp
  show ?case
  proof (cases goOn)
    case True
    then have "stopped w1 \<and> 1 \<le> n \<or> unat (limitTime r1) - cpu w1 + 2 \<le> n"
      using inv(2) Suc.prems(3) watch_poll_frame(1) [OF poll] by auto
    from Suc.IH [OF busy1 inv(1) this] True poll show ?thesis by simp
  next
    case False
    obtain r' w' where e: "watch_end api r1 w1 = (r', w')" by fastforce
    with busy_end [OF busy1 inv(1) e] False poll show ?thesis by simp
  qed
qed simp

section \<open>Properties\<close>

text \<open>
  When the watcher ends it has set at most one flag, and a memory flag means that the
  recorded peak is over the limit.
\<close>

theorem watcher_flags_sound:
  assumes "doWatch api n (Watcher_new h t m) w = Some (r, w')"
  shows "\<not> (timeLimited r \<and> memoryLimited r) \<and> (memoryLimited r \<longrightarrow> limitMemory r < runMemory r)"
  using doWatch_final [OF assms watch_new_within] by (simp add: watch_final_def)

definition hungry_os :: mem_os where
  "hungry_os = mem_os_new [] [] [259, 259, 259, 0] [5] [100, 4096]"

lemma hungry_run: "\<exists>w'. doWatch mem_processes 3 (Watcher_new 20 1000 2048) hungry_os =
    Some ((Watcher_new 20 1000 2048)\<lparr>runTime := 5, runMemory := 4096, memoryLimited := True\<rparr>, w')"
proof -
  have "map_option fst (doWatch mem_processes 3 (Watcher_new 20 1000 2048) hungry_os) =
    Some ((Watcher_new 20 1000 2048)\<lparr>runTime := 5, runMemory := 4096, memoryLimited := True\<rparr>)"
    by code_simp
  then show ?thesis by auto
qed

theorem watcher_flags_sound_witness:
  "\<exists>r w'. doWatch mem_processes 3 (Watcher_new 20 1000 2048) hungry_os = Some (r, w') \<and>
     memoryLimited r \<and> \<not> (timeLimited r \<and> memoryLimited r) \<and>
     (memoryLimited r \<longrightarrow> limitMemory r < runMemory r)"
proof -
  obtain r w' where run: "doWatch mem_processes 3 (Watcher_new 20 1000 2048) hungry_os = Some (r, w')"
    "memoryLimited r" using hungry_run by auto
  show ?thesis using watcher_flags_sound [OF run(1)] run by blast
qed

text \<open>
  C33: limits are on CPU time and memory only.  A submission that sleeps or waits for input stays
  within both, and the watcher polls it for ever.
\<close>

theorem idle_process_never_stopped:
  assumes "idle_world api (Watcher_new h t m) I" and "I w"
  shows "\<forall>n. doWatch api n (Watcher_new h t m) w = None"
proof
  fix n
  have "runMemory (Watcher_new h t m) \<le> limitMemory (Watcher_new h t m)"
    by (simp add: Watcher_new_def)
  with assms show "doWatch api n (Watcher_new h t m) w = None" by (rule idle_never_ends)
qed

theorem idle_process_never_stopped_witness:
  "\<forall>n. doWatch mem_processes n (Watcher_new 20 1000 2048) (mem_os_new [] [] [259] [5] [100]) = None"
proof (rule idle_process_never_stopped)
  show "idle_world mem_processes (Watcher_new 20 1000 2048)
      (\<lambda>w. os_codes w = [259] \<and> os_times w = [5] \<and> os_memory w = [100])"
    by (simp add: idle_world_def mem_processes_def mem_files_def file_api.defs Watcher_new_def
        STILL_ACTIVE_def getProcessTime_def getProcessMemory_def script_rest_def)
  show "os_codes (mem_os_new [] [] [259] [5] [100]) = [259] \<and>
      os_times (mem_os_new [] [] [259] [5] [100]) = [5] \<and>
      os_memory (mem_os_new [] [] [259] [5] [100]) = [100]"
    by (simp add: mem_os_new_def mem_fs.defs)
qed


text \<open>A process that computes all the time, and would end by itself after 5000 units of it.\<close>

definition spent :: "mem_os \<Rightarrow> int" where
  "spent w = min (fs_clock w) 5000"

definition loop_os :: "mem_os process_api" where
  "loop_os = mem_processes
     \<lparr>GetExitCodeProcess := \<lambda>h w. (Some (if os_killed w \<or> spent w = 5000 then 0 else STILL_ACTIVE), w),
      GetProcessTimes := \<lambda>h w. ((0, word_of_int (spent w)), w)\<rparr>"


end
