(* ===== verification/Executors.thy ===== *)
theory Executors
  imports Tasks Watching Matching
begin

text \<open>
  The three stages of a judgement, src/Judger/Excuter.cpp: the compiler, the runner and the
  matcher.  A stage is a function on the task; it answers whether it succeeded, and the task
  with the verdict and the figures it wrote.  The runner of the program is \<open>ExeDebugRunner\<close>: its
  main thread debugs the child while the watcher thread polls it, so it takes a schedule that
  says which of the two takes the next turn.  \<open>ExeRunner\<close> is the alternative based on a job.
\<close>

type_synonym 'w exc = "TaskBase \<Rightarrow> ('w, bool \<times> TaskBase) eff"

section \<open>The compiler\<close>

definition GCC_ARG :: tstring where
  "GCC_ARG = ''gcc.exe %s -o %s -O2 -Wall -lm --static -std=c99 -DONLINE_JUDGE''"

definition GPLUS_ARG :: tstring where
  "GPLUS_ARG = ''g++.exe %s -o %s -O2 -Wall -lm --static -DONLINE_JUDGE''"

text \<open>
  The error text is read in pieces of 1000 characters; each piece is appended as a C string,
  which ends at its first NUL.
\<close>

function read_pieces :: "tstring \<Rightarrow> tstring" where
  "read_pieces s =
     (let piece = take 1000 s
      in if length piece < 1000 then c_str piece else c_str piece @ read_pieces (drop 1000 s))"
  by pat_completeness auto
termination by (relation "measure length") auto

declare read_pieces.simps [simp del]

definition readCompileOutput :: "('w, 'x) file_api_scheme \<Rightarrow> tstring \<Rightarrow> 'w \<Rightarrow> tstring \<times> 'w" where
  "readCompileOutput api name w =
     (let (r, w1) = open_text api (c_str name) w
      in ((case r of None \<Rightarrow> '''' | Some (s, _) \<Rightarrow> read_pieces s), w1))"

text \<open>The process object is destroyed on every way out of the function.\<close>

definition leave_with ::
    "('w, 'x) process_api_scheme \<Rightarrow> ZProcessInOut \<Rightarrow> 'a \<Rightarrow> ('w, 'a) eff" where
  "leave_with api proc r = ebind (call (ZProcessInOut_destroy api proc)) (\<lambda>_. ret r)"

definition CppCompiler_exc :: "Config \<Rightarrow> ('w, 'x) process_api_scheme \<Rightarrow> 'w exc" where
  "CppCompiler_exc config api task =
     ebind (call (fileExist api (m_codeFile task))) (\<lambda>found.
       if \<not> found then ret (False, setResult (JE_SYSTEM config) task)
       else if m_language task \<noteq> CL_GCC config \<and> m_language task \<noteq> CL_GPLUS config
       then ret (False, setResult (JE_COMPLIE config) task)
       else
         let szArg = (if m_language task = CL_GCC config then GCC_ARG else GPLUS_ARG)
         in ebind (lift (sprintf_s 1024 szArg
                [ArgStr (c_str (m_codeFile task)), ArgStr (c_str (m_exeName task))])) (\<lambda>buffer.
            ebind (ZProcessInOut_create api buffer True
                (ZProcessInOut_new '''' (m_compilerOutput task))) (\<lambda>(ok, proc).
              if \<not> ok then leave_with api proc (False, setResult (JE_SYSTEM config) task)
              else
                ebind (call (waitExit api (m_hProcess proc) (m_limitCompileTime task))) (\<lambda>code.
                  if code \<noteq> 0
                  then ebind (call (readCompileOutput api (m_compilerOutput task))) (\<lambda>errorStr.
                         leave_with api proc
                           (False, setCompileError errorStr (setResult (JE_COMPLIE config) task)))
                  else leave_with api proc (True, task)))))"

section \<open>The runner\<close>

text \<open>
  The main thread: before \<open>start\<close>, in the debug loop with its continue status, or returned from
  it.  The watcher thread: polling, or ended.
\<close>

datatype main_state = Starting | Debugging DWORD | Returned bool

record run_state =
  r_main :: main_state
  r_proc :: ZProcessInOut
  r_watch :: Watcher
  r_ended :: bool

definition main_turn ::
    "('w, 'x) process_api_scheme \<Rightarrow> run_state \<Rightarrow> 'w \<Rightarrow> run_state \<times> 'w" where
  "main_turn api s w =
     (case r_main s of
        Starting \<Rightarrow>
          let (p, w1) = ZProcessDebug_enter api (r_proc s) w
          in (s\<lparr>r_proc := p, r_main := Debugging DBG_CONTINUE\<rparr>, w1)
      | Debugging status \<Rightarrow>
          (case ZProcessDebug_turn api status w of
             (DebugNext st, w1) \<Rightarrow> (s\<lparr>r_main := Debugging st\<rparr>, w1)
           | (DebugDone r, w1) \<Rightarrow> (s\<lparr>r_main := Returned r\<rparr>, w1))
      | Returned r \<Rightarrow> (s, w))"

definition watch_turn ::
    "('w, 'x) process_api_scheme \<Rightarrow> run_state \<Rightarrow> 'w \<Rightarrow> run_state \<times> 'w" where
  "watch_turn api s w =
     (if r_ended s then (s, w)
      else
        let ((goOn, r1), w1) = watch_poll api (r_watch s) w
        in if goOn then (s\<lparr>r_watch := r1\<rparr>, w1)
           else let (r2, w2) = watch_end api r1 w1 in (s\<lparr>r_watch := r2, r_ended := True\<rparr>, w2))"

text \<open>A schedule is a list of turns, \<open>True\<close> for the main thread.  It must let both threads end.\<close>

fun run_threads ::
    "('w, 'x) process_api_scheme \<Rightarrow> bool list \<Rightarrow> run_state \<Rightarrow> ('w, bool \<times> ZProcessInOut \<times> Watcher) eff" where
  "run_threads api [] s w =
     (case r_main s of
        Returned r \<Rightarrow> if r_ended s then Inr ((r, r_proc s, r_watch s), w) else Inl Diverges
      | _ \<Rightarrow> Inl Diverges)"
| "run_threads api (t # ts) s w =
     (let (s1, w1) = (if t then main_turn api s w else watch_turn api s w)
      in run_threads api ts s1 w1)"

definition KB_BYTES :: int where "KB_BYTES = 1024"
definition MB_BYTES :: "64 word" where "MB_BYTES = 1048576"
definition S_100NS :: "64 word" where "S_100NS = 10000000"
definition MS_100NS :: "64 word" where "MS_100NS = 10000"

text \<open>The time is divided as an unsigned number; the memory is first returned as a signed one.\<close>

definition time_ms :: "64 word \<Rightarrow> int" where
  "time_ms t = int32 (uint (t div MS_100NS))"

definition memory_kb :: "64 word \<Rightarrow> int" where
  "memory_kb m = int32 (sgn (sint m) * (\<bar>sint m\<bar> div KB_BYTES))"

definition ExeDebugRunner_exc ::
    "Config \<Rightarrow> ('w, 'x) process_api_scheme \<Rightarrow> bool list \<Rightarrow> 'w exc" where
  "ExeDebugRunner_exc config api schedule task =
     ebind (ZProcessDebug_create api 0 (m_exeName task) False
         (ZProcessInOut_new (m_curInputTestData task) (m_exeOutput task))) (\<lambda>(ok, process).
       if \<not> ok then leave_with api process (False, setResult (JE_SYSTEM config) task)
       else
         let maxMemory = word_of_int (m_limitMemory task) * MB_BYTES;
             maxTime = word_of_int (m_limitTime task) * S_100NS
         in ebind (run_threads api schedule
                \<lparr>r_main = Starting, r_proc = process,
                 r_watch = Watcher_new (m_hProcess process) maxTime maxMemory, r_ended = False\<rparr>)
              (\<lambda>(noError, proc, watcher).
                let task1 = setRunMemory (memory_kb (runMemory watcher))
                              (setRunTime (time_ms (runTime watcher)) task)
                in if memoryLimited watcher
                   then leave_with api proc (False, setResult (JE_MEMORY_LIMITED config) task1)
                   else if timeLimited watcher
                   then leave_with api proc (False, setResult (JE_TIME_LIMITED config) task1)
                   else
                     ebind (call (getExitCode api (m_hProcess proc))) (\<lambda>code.
                       if \<not> noError \<or> code \<noteq> 0
                       then leave_with api proc (False, setResult (JE_RUNTIME config) task1)
                       else leave_with api proc (True, task1))))"

section \<open>The runner based on a job\<close>

text \<open>
  \<open>ZProcessJob\<close> objects use the global counter of \<open>generateID\<close>, so this stage works on a world
  with that counter; the fuel bounds the messages of the job.
\<close>

definition on_world :: "('w, 'a) eff \<Rightarrow> ('w \<times> int, 'a) eff" where
  "on_world m gw = (case m (fst gw) of Inl f \<Rightarrow> Inl f | Inr (x, w) \<Rightarrow> Inr (x, (w, snd gw)))"

definition with_counter :: "(int \<Rightarrow> ('w, 'a \<times> int) eff) \<Rightarrow> ('w \<times> int, 'a) eff" where
  "with_counter m gw =
     (case m (snd gw) (fst gw) of Inl f \<Rightarrow> Inl f | Inr ((x, g), w) \<Rightarrow> Inr (x, (w, g)))"

definition ZProcessJob_destroy ::
    "('w, 'x) process_api_scheme \<Rightarrow> ZProcessJob \<Rightarrow> 'w \<Rightarrow> ZProcessJob \<times> 'w" where
  "ZProcessJob_destroy api p w =
     (let (h1, w1) = SAFE_CLOSE_HANDLE api (m_ioCPHandle p) w;
          (h2, w2) = ZJobObject_destroy api (m_job p) w1
      in ZProcessInOut_destroy api (p\<lparr>m_ioCPHandle := h1, m_job := h2\<rparr>) w2)"

definition ExeRunner_exc ::
    "Config \<Rightarrow> ('w, 'x) process_api_scheme \<Rightarrow> nat \<Rightarrow> ('w \<times> int) exc" where
  "ExeRunner_exc config api fuel task =
     ebind (with_counter (\<lambda>g. ZProcessJob_create api fuel (m_exeName task) False g
         (ZProcessJob_new (m_curInputTestData task) (m_exeOutput task)
            (int32 (m_limitTime task * 1000)) (int32 (m_limitMemory task * KB_BYTES))))) (\<lambda>(ok, process).
       let leave = (\<lambda>p r. ebind (on_world (call (ZProcessJob_destroy api p))) (\<lambda>_. ret r))
       in if \<not> ok then leave process (False, setResult (JE_SYSTEM config) task)
          else
            ebind (on_world (or_diverge (ZProcessJob_start api fuel process))) (\<lambda>(_, p).
              let code = m_exitCode p;
                  task1 = setRunMemory (int32 (uint (job_runMemory p)))
                            (setRunTime (int32 (uint (job_runTime p))) task)
              in if code = 0 then leave p (True, task1)
                 else if code = 1 then leave p (False, setResult (JE_TIME_LIMITED config) task1)
                 else if code = 2 then leave p (False, setResult (JE_MEMORY_LIMITED config) task1)
                 else leave p (False, setResult (JE_RUNTIME config) task1)))"

section \<open>The matcher\<close>

definition Matcher_compare_files ::
    "('w, 'x) file_api_scheme \<Rightarrow> tstring \<Rightarrow> tstring \<Rightarrow> ('w, int) eff" where
  "Matcher_compare_files api srcFile destFile =
     ebind (readFileBuffer api srcFile False) (\<lambda>srcBuffer.
       case srcBuffer of
         None \<Rightarrow> ret MATCHER_NOT_EXIST_SRC
       | Some src \<Rightarrow>
           ebind (readFileBuffer api destFile False) (\<lambda>dstBuffer.
             case dstBuffer of
               None \<Rightarrow> ret MATCHER_NOT_EXIST_DEST
             | Some dst \<Rightarrow> ret (Matcher_compare src dst)))"

definition matcher_verdict :: "Config \<Rightarrow> int \<Rightarrow> int" where
  "matcher_verdict config result =
     (if result = MATCHER_ACCEPT then JE_ACCEPT config
      else if result = MATCHER_WRONG_ANWSER then JE_WRONG_ANWSER config
      else if result = MATCHER_PRESENT_ERROR then JE_PRESENT config
      else JE_SYSTEM config)"

definition Matcher_exc :: "Config \<Rightarrow> ('w, 'x) file_api_scheme \<Rightarrow> 'w exc" where
  "Matcher_exc config api task =
     ebind (Matcher_compare_files api (m_curOutputTestData task) (m_exeOutput task)) (\<lambda>result.
       ret (result = MATCHER_ACCEPT, setResult (matcher_verdict config result) task))"

section \<open>The stages of the program\<close>

text \<open>
  The program runs submissions under the debugger.  The scheduler may choose differently in every
  run, so the schedule depends on the world.
\<close>

definition createCppCompiler :: "Config \<Rightarrow> ('w, 'x) process_api_scheme \<Rightarrow> 'w exc" where
  "createCppCompiler config api = CppCompiler_exc config api"

definition createExeRunner :: "Config \<Rightarrow> ('w, 'x) process_api_scheme \<Rightarrow> ('w \<Rightarrow> bool list) \<Rightarrow> 'w exc" where
  "createExeRunner config api schedule = (\<lambda>t w. ExeDebugRunner_exc config api (schedule w) t w)"

definition createMatcher :: "Config \<Rightarrow> ('w, 'x) file_api_scheme \<Rightarrow> 'w exc" where
  "createMatcher config api = Matcher_exc config api"

section \<open>The contract of a stage\<close>

text \<open>
  What \<open>JudgeCore\<close> relies on: a stage leaves the identity of the task alone, its test data and
  file names included, and the choice of the current test.
\<close>

definition cur_test :: "TaskBase \<Rightarrow> int \<times> tstring \<times> tstring" where
  "cur_test t = (m_curTestDataIndex t, m_curInputTestData t, m_curOutputTestData t)"

lemma cur_test_set [simp]:
  "cur_test (setRunTime v t) = cur_test t" "cur_test (setRunMemory v t) = cur_test t"
  "cur_test (setResult v t) = cur_test t" "cur_test (setCompileError s t) = cur_test t"
  by (simp_all add: cur_test_def setRunTime_def setRunMemory_def setResult_def setCompileError_def)

locale stage =
  fixes exc :: "'w exc"
  assumes stage_id: "exc t w = Inr ((ok, t'), w') \<Longrightarrow> task_id t' = task_id t"
    and stage_cur: "exc t w = Inr ((ok, t'), w') \<Longrightarrow> cur_test t' = cur_test t"
begin

lemma stage_yields: "yields (exc t) (\<lambda>(ok, t'). task_id t' = task_id t)"
  by (auto intro!: yieldsI dest: stage_id)

lemma stage_count:
  "exc t w = Inr ((ok, t'), w') \<Longrightarrow> getTestDataCount t' = getTestDataCount t"
  by (rule getTestDataCount_id) (rule stage_id)

lemma stage_files:
  "exc t w = Inr ((ok, t'), w') \<Longrightarrow> task_files t' = task_files t"
  using stage_id [of t w ok t' w'] by (simp add: task_id_def task_files_def)

lemma stage_inv:
  assumes "exc t w = Inr ((ok, t'), w')" "task_inv t"
  shows "task_inv t'"
proof -
  from stage_id [OF assms(1)] have data: "m_testData t' = m_testData t" by (simp add: task_id_def)
  from stage_cur [OF assms(1)] have cur: "m_curTestDataIndex t' = m_curTestDataIndex t"
    "m_curInputTestData t' = m_curInputTestData t" "m_curOutputTestData t' = m_curOutputTestData t"
    by (simp_all add: cur_test_def)
  show ?thesis
    using assms(2) stage_count [OF assms(1)] by (simp add: task_inv_def data cur)
qed

end

lemma yields_leave_with: "P r \<Longrightarrow> yields (leave_with api p r) P"
  unfolding leave_with_def by (intro yields_ebind yields_ret)

lemmas stage_intros = yields_ret yields_ebind yields_if yields_pair yields_leave_with

interpretation matcher: stage "Matcher_exc config api" for config api
  by unfold_locales (auto simp: Matcher_exc_def elim!: ebind_InrE)

text \<open>The outcomes of the compiler and of the runner, as relations between task and result.\<close>

definition compiler_outcome :: "Config \<Rightarrow> TaskBase \<Rightarrow> bool \<times> TaskBase \<Rightarrow> bool" where
  "compiler_outcome config t r \<longleftrightarrow>
     (let (ok, t') = r
      in if ok then t' = t
         else t' = setResult (JE_SYSTEM config) t \<or> t' = setResult (JE_COMPLIE config) t \<or>
           (\<exists>e. t' = setCompileError e (setResult (JE_COMPLIE config) t)))"

definition runner_outcome :: "Config \<Rightarrow> TaskBase \<Rightarrow> bool \<times> TaskBase \<Rightarrow> bool" where
  "runner_outcome config t r \<longleftrightarrow>
     (let (ok, t') = r
      in t' = setResult (JE_SYSTEM config) t \<and> \<not> ok \<or>
         (\<exists>tm mm. let u = setRunMemory mm (setRunTime tm t)
            in if ok then t' = u
               else \<exists>v \<in> {JE_MEMORY_LIMITED config, JE_TIME_LIMITED config, JE_RUNTIME config}.
                 t' = setResult v u))"

lemma compiler_yields: "yields (CppCompiler_exc config api t) (compiler_outcome config t)"
  unfolding CppCompiler_exc_def Let_def
  by (intro stage_intros) (auto simp: compiler_outcome_def)

lemma runner_yields: "yields (ExeDebugRunner_exc config api sched t) (runner_outcome config t)"
  unfolding ExeDebugRunner_exc_def Let_def
  by (intro stage_intros) (auto simp: runner_outcome_def Let_def)

lemma compiler_outcome_frame:
  assumes "compiler_outcome config t (ok, t')"
  shows "task_id t' = task_id t" "cur_test t' = cur_test t"
  using assms by (auto simp: compiler_outcome_def split: if_splits)

lemma runner_outcome_frame:
  assumes "runner_outcome config t (ok, t')"
  shows "task_id t' = task_id t" "cur_test t' = cur_test t"
  using assms by (auto simp: runner_outcome_def Let_def split: if_splits)

interpretation compiler: stage "CppCompiler_exc config api" for config api
  by unfold_locales (auto dest!: yieldsD [OF compiler_yields] intro: compiler_outcome_frame)

interpretation runner: stage "ExeDebugRunner_exc config api sched" for config api sched
  by unfold_locales (auto dest!: yieldsD [OF runner_yields] intro: runner_outcome_frame)

lemma job_runner_yields: "yields (ExeRunner_exc config api fuel t) (runner_outcome config t)"
  unfolding ExeRunner_exc_def Let_def
  by (intro stage_intros) (auto simp: runner_outcome_def Let_def)

interpretation job_runner: stage "ExeRunner_exc config api fuel" for config api fuel
  by unfold_locales (auto dest!: yieldsD [OF job_runner_yields] intro: runner_outcome_frame)

section \<open>The schedule does not matter for what the watcher guarantees\<close>

definition run_inv :: "run_state \<Rightarrow> bool" where
  "run_inv s \<longleftrightarrow> (if r_ended s then watch_final (r_watch s) else watch_within (r_watch s))"

lemma main_turn_watch:
  "main_turn api s w = (s', w') \<Longrightarrow> r_watch s' = r_watch s \<and> r_ended s' = r_ended s"
  by (auto simp: main_turn_def Let_def split: main_state.splits prod.splits debug_step.splits)

lemma watch_turn_inv:
  assumes "watch_turn api s w = (s', w')" "run_inv s"
  shows "run_inv s' \<and> limitMemory (r_watch s') = limitMemory (r_watch s)"
proof (cases "r_ended s")
  case False
  obtain goOn r1 w1 where poll: "watch_poll api (r_watch s) w = ((goOn, r1), w1)"
    by (metis prod.exhaust)
  from False assms(2) have "watch_within (r_watch s)" by (simp add: run_inv_def)
  from watch_poll_within [OF poll this] have p: "if goOn then watch_within r1 else watch_stopped r1" .
  note f = watch_poll_frame(2) [OF poll]
  show ?thesis
  proof (cases goOn)
    case True
    with assms(1) False poll p f show ?thesis by (auto simp: watch_turn_def run_inv_def)
  next
    case g: False
    obtain r2 w2 where e: "watch_end api r1 w1 = (r2, w2)" by fastforce
    with p g have "watch_final r2" by (auto intro: watch_end_final)
    with assms(1) False poll g e f watch_end_frame(4) [OF e] show ?thesis
      by (auto simp: watch_turn_def run_inv_def)
  qed
qed (use assms in \<open>simp add: watch_turn_def\<close>)

lemma run_threads_inv:
  "run_threads api ts s w = Inr ((r, p, wt), w') \<Longrightarrow> run_inv s \<Longrightarrow>
     watch_final wt \<and> limitMemory wt = limitMemory (r_watch s)"
proof (induction api ts s w rule: run_threads.induct)
  case (1 api s w)
  then show ?case by (auto simp: run_inv_def split: main_state.splits if_splits)
next
  case (2 api t ts s w)
  obtain s1 w1 where s1: "(if t then main_turn api s w else watch_turn api s w) = (s1, w1)" by fastforce
  then have "run_inv s1 \<and> limitMemory (r_watch s1) = limitMemory (r_watch s)"
    using "2.prems"(2) main_turn_watch [of api s w s1 w1] watch_turn_inv [of api s w s1 w1]
    by (auto simp: run_inv_def split: if_splits)
  with "2.IH" [OF s1 [symmetric]] "2.prems"(1) s1 show ?case by simp
qed

text \<open>The second form of the result of the runner: what a memory verdict means.\<close>

definition memory_meaning :: "Config \<Rightarrow> TaskBase \<Rightarrow> bool \<times> TaskBase \<Rightarrow> bool" where
  "memory_meaning config t r \<longleftrightarrow>
     (let (ok, t') = r
      in ok \<or> m_result t' \<in> {JE_SYSTEM config, JE_TIME_LIMITED config, JE_RUNTIME config} \<or>
         m_result t' = JE_MEMORY_LIMITED config \<and>
         (\<exists>bytes. word_of_int (m_limitMemory t) * MB_BYTES < bytes \<and>
            m_runMemory t' = memory_kb bytes))"

lemma yields_ebind_run:
  assumes "\<And>r p wt. watch_final wt \<Longrightarrow> limitMemory wt = limitMemory (r_watch s) \<Longrightarrow> yields (k r p wt) P"
    and "run_inv s"
  shows "yields (ebind (run_threads api ts s) (\<lambda>(r, p, wt). k r p wt)) P"
proof -
  have "P x" if run: "run_threads api ts s w = Inr ((r, p, wt), w1)" and k: "k r p wt w1 = Inr (x, w')"
    for w r p wt w1 x w'
    using run_threads_inv [OF run assms(2)] assms(1) k by (blast intro: yieldsD)
  then show ?thesis by (auto simp: yields_def elim!: ebind_InrE)
qed

lemma runner_memory_meaning: "yields (ExeDebugRunner_exc config api sched t) (memory_meaning config t)"
  unfolding ExeDebugRunner_exc_def Let_def
  by (intro yields_ebind_run stage_intros)
    (auto simp: memory_meaning_def watch_final_def run_inv_def watch_within_def Watcher_new_def)

text \<open>The calls that the compiler stage is made of do not look at \<open>TerminateProcess\<close>.\<close>

lemma no_terminate:
  fixes api :: "('w, 'x) process_api_scheme"
  shows "fileExist (api\<lparr>TerminateProcess := f\<rparr>) = fileExist api"
    "createInputFile (api\<lparr>TerminateProcess := f\<rparr>) p = createInputFile api p"
    "createOutputFile (api\<lparr>TerminateProcess := f\<rparr>) p = createOutputFile api p"
    "waitExit (api\<lparr>TerminateProcess := f\<rparr>) = waitExit api"
    "readCompileOutput (api\<lparr>TerminateProcess := f\<rparr>) = readCompileOutput api"
    "ZProcessInOut_destroy (api\<lparr>TerminateProcess := f\<rparr>) p = ZProcessInOut_destroy api p"
  by (simp_all add: fun_eq_iff fileExist_def createInputFile_def createOutputFile_def waitExit_def
      isRunning_def getExitCode_def readCompileOutput_def ZProcessInOut_destroy_def
      ZProcessBase_destroy_def SAFE_CLOSE_HANDLE_def case_prod_beta Let_def)

section \<open>What the compiler stage does\<close>

lemma read_pieces_all: "CHR 0x00 \<notin> set s \<Longrightarrow> read_pieces s = s"
proof (induction s rule: read_pieces.induct)
  case (1 s)
  have "CHR 0x00 \<notin> set (take 1000 s)" "CHR 0x00 \<notin> set (drop 1000 s)"
    using 1(2) by (auto dest: in_set_takeD in_set_dropD)
  with 1(1) have "length (take 1000 s) \<ge> 1000 \<Longrightarrow> read_pieces (drop 1000 s) = drop 1000 s"
    "c_str (take 1000 s) = take 1000 s" by (auto simp: c_str_id)
  then show ?case by (subst read_pieces.simps) (auto simp: Let_def)
qed

definition compile_command :: "Config \<Rightarrow> TaskBase \<Rightarrow> tstring" where
  "compile_command config t =
     (if m_language t = CL_GCC config then ''gcc.exe '' else ''g++.exe '') @ m_codeFile t @ '' -o '' @ m_exeName t @
     (if m_language t = CL_GCC config then '' -O2 -Wall -lm --static -std=c99 -DONLINE_JUDGE''
      else '' -O2 -Wall -lm --static -DONLINE_JUDGE'')"

lemma compile_args:
  "c_format GCC_ARG [ArgStr a, ArgStr b] =
     Some (''gcc.exe '' @ a @ '' -o '' @ b @ '' -O2 -Wall -lm --static -std=c99 -DONLINE_JUDGE'')"
  "c_format GPLUS_ARG [ArgStr a, ArgStr b] =
     Some (''g++.exe '' @ a @ '' -o '' @ b @ '' -O2 -Wall -lm --static -DONLINE_JUDGE'')"
  by (simp_all add: GCC_ARG_def GPLUS_ARG_def show_arg_def)

lemma compile_command_built:
  assumes "CHR 0x00 \<notin> set (m_codeFile t @ m_exeName t)" "length (m_codeFile t @ m_exeName t) \<le> 900"
  shows "sprintf_s 1024 (if m_language t = CL_GCC config then GCC_ARG else GPLUS_ARG)
      [ArgStr (c_str (m_codeFile t)), ArgStr (c_str (m_exeName t))] = Inr (compile_command config t)"
    and "lstrcpy_cmd (compile_command config t) = Inr (compile_command config t)"
proof -
  have len: "length (compile_command config t) < 1024" using assms(2) by (simp add: compile_command_def)
  have nul: "CHR 0x00 \<notin> set (compile_command config t)" using assms(1) by (simp add: compile_command_def)
  show "lstrcpy_cmd (compile_command config t) = Inr (compile_command config t)"
    using len by (simp add: lstrcpy_cmd_def c_str_id [OF nul] BUFSIZE_def)
  have "c_format (if m_language t = CL_GCC config then GCC_ARG else GPLUS_ARG)
      [ArgStr (c_str (m_codeFile t)), ArgStr (c_str (m_exeName t))] = Some (compile_command config t)"
    using assms(1) by (simp add: compile_args compile_command_def c_str_id)
  then show "sprintf_s 1024 (if m_language t = CL_GCC config then GCC_ARG else GPLUS_ARG)
      [ArgStr (c_str (m_codeFile t)), ArgStr (c_str (m_exeName t))] = Inr (compile_command config t)"
    using len by (rule sprintf_s_fits)
qed

section \<open>The last turns of a run\<close>

text \<open>The turns of a schedule without the end of the run.\<close>

fun run_turns ::
    "('w, 'x) process_api_scheme \<Rightarrow> bool list \<Rightarrow> run_state \<Rightarrow> 'w \<Rightarrow> run_state \<times> 'w" where
  "run_turns api [] s w = (s, w)"
| "run_turns api (t # ts) s w =
     (let (s1, w1) = (if t then main_turn api s w else watch_turn api s w) in run_turns api ts s1 w1)"

lemma run_threads_append:
  "run_threads api (ts @ us) s w = (let (s1, w1) = run_turns api ts s w in run_threads api us s1 w1)"
  by (induction ts arbitrary: s w) (auto split: prod.splits)

lemma run_turns_inv: "run_turns api ts s w = (s', w') \<Longrightarrow> run_inv s \<Longrightarrow> run_inv s'"
proof (induction ts arbitrary: s w)
  case (Cons t ts)
  obtain s1 w1 where turn: "(if t then main_turn api s w else watch_turn api s w) = (s1, w1)" by fastforce
  with Cons.prems(2) have "run_inv s1"
    using main_turn_watch [of api s w s1 w1] watch_turn_inv [of api s w s1 w1]
    by (cases t) (auto simp: run_inv_def)
  with Cons turn show ?case by simp
qed simp

text \<open>The state in which \<open>exc\<close> begins to run a task's program.\<close>

definition run_begin :: "TaskBase \<Rightarrow> ZProcessInOut \<Rightarrow> run_state" where
  "run_begin t p = \<lparr>r_main = Starting, r_proc = p,
     r_watch = Watcher_new (m_hProcess p) (word_of_int (m_limitTime t) * S_100NS)
       (word_of_int (m_limitMemory t) * MB_BYTES), r_ended = False\<rparr>"

lemma run_begin_inv: "run_inv (run_begin t p)"
  by (simp add: run_begin_def run_inv_def watch_new_within)

section \<open>Properties\<close>

text \<open>
  C18: whatever the schedule of the two threads, a run that fails has one of the four failing
  verdicts and keeps the task's identity, and a run that succeeds does not touch the verdict.
\<close>

theorem runner_verdict:
  assumes "ExeDebugRunner_exc config api sched t w = Inr ((ok, t'), w')"
  shows "task_id t' = task_id t \<and> cur_test t' = cur_test t \<and>
    (if ok then m_result t' = m_result t
     else m_result t' \<in> {JE_SYSTEM config, JE_MEMORY_LIMITED config, JE_TIME_LIMITED config, JE_RUNTIME config})"
proof -
  have out: "runner_outcome config t (ok, t')" by (rule yieldsD [OF runner_yields assms])
  then have "if ok then m_result t' = m_result t
     else m_result t' \<in> {JE_SYSTEM config, JE_MEMORY_LIMITED config, JE_TIME_LIMITED config, JE_RUNTIME config}"
    by (cases ok) (auto simp: runner_outcome_def Let_def)
  with runner_outcome_frame [OF out] show ?thesis by blast
qed

definition demo_task :: TaskBase where
  "demo_task =
     \<lparr>m_userName = ''zhoubao'', m_solutionID = 1001, m_problemID = 1000,
      m_limitCompileTime = 10000, m_limitTime = 1, m_limitMemory = 32, m_language = 0,
      m_runTime = 0, m_runMemory = 0, m_result = 0, m_passRate = 0,
      m_testData = [''1.out'', ''2.out''], m_curTestDataIndex = 0, m_curInputTestData = ''1.in'',
      m_curOutputTestData = ''1.out'', m_codeFile = ''1001.cpp'', m_compilerOutput = ''1001.txt'',
      m_exeName = ''1001.exe'', m_exeOutput = ''1001.out'', m_compileErrorStr = ''''\<rparr>"

definition greedy_os :: mem_os where
  "greedy_os = mem_os_new [(''1.in'', ''7'')] [EXIT_PROCESS_DEBUG_EVENT 0]
     [259, 259, 0] [5] [2 ^ 30]"

lemma greedy_run:
  "map_sum id fst (ExeDebugRunner_exc sample_config mem_processes [True, False, True] demo_task greedy_os)
     = Inr (False, demo_task\<lparr>m_runMemory := 2 ^ 20, m_result := 8\<rparr>)"
  by code_simp

theorem runner_verdict_witness:
  "m_result (demo_task\<lparr>m_runMemory := 2 ^ 20, m_result := 8\<rparr>)
     \<in> {JE_SYSTEM sample_config, JE_MEMORY_LIMITED sample_config, JE_TIME_LIMITED sample_config,
        JE_RUNTIME sample_config}"
proof -
  obtain w' where "ExeDebugRunner_exc sample_config mem_processes [True, False, True] demo_task greedy_os
      = Inr ((False, demo_task\<lparr>m_runMemory := 2 ^ 20, m_result := 8\<rparr>), w')"
    using greedy_run by (cases "ExeDebugRunner_exc sample_config mem_processes [True, False, True]
      demo_task greedy_os") auto
  from runner_verdict [OF this] show ?thesis by simp
qed



text \<open>
  C30: after its loop the watcher reads time and memory once more and compares neither with its limit.
  Whatever the two last readings are, a program that ends with code 0 between two polls passes its
  run, with these readings as its figures, after any turns that left the watcher polling.
\<close>

theorem final_overrun_accepted:
  assumes create: "ZProcessDebug_create api 0 (m_exeName t) False
      (ZProcessInOut_new (m_curInputTestData t) (m_exeOutput t)) w = Inr ((True, p), w1)"
    and turns: "run_turns api sched (run_begin t p) w1 = (s, w2)" "r_main s = Debugging st" "\<not> r_ended s"
    and leaves: "ZProcessDebug_turn api st w2 = (DebugDone True, w3)"
    and poll: "isRunning api (w_process (r_watch s)) w3 = (False, w4)"
      "isRunning api (w_process (r_watch s)) w4 = (False, w5)"
      "getProcessTime api (w_process (r_watch s)) w5 = (time, w6)"
      "getProcessMemory api (w_process (r_watch s)) w6 = (memory, w7)"
    and exit0: "getExitCode api (m_hProcess (r_proc s)) w7 = (0, w8)"
  shows "\<exists>w'. ExeDebugRunner_exc config api (sched @ [True, False]) t w =
    Inr ((True, setRunMemory (memory_kb (max memory (runMemory (r_watch s)))) (setRunTime (time_ms time) t)), w')"
proof -
  have "run_inv s" using run_turns_inv [OF turns(1) run_begin_inv] .
  then have flags: "\<not> timeLimited (r_watch s)" "\<not> memoryLimited (r_watch s)"
    using turns(3) by (simp_all add: run_inv_def watch_within_def)
  let ?r = "(r_watch s)\<lparr>runTime := time, runMemory := max memory (runMemory (r_watch s))\<rparr>"
  have main: "main_turn api s w2 = (s\<lparr>r_main := Returned True\<rparr>, w3)"
    using turns(2) leaves by (simp add: main_turn_def)
  have watch: "watch_turn api (s\<lparr>r_main := Returned True\<rparr>) w3 =
      (s\<lparr>r_main := Returned True, r_watch := ?r, r_ended := True\<rparr>, w7)"
    using turns(3) poll
    by (simp add: watch_turn_def watch_poll_def watch_end_def updateTime_def updateMemory_def Let_def max_def)
  have "run_threads api (sched @ [True, False]) (run_begin t p) w1 = Inr ((True, r_proc s, ?r), w7)"
    by (simp add: run_threads_append turns(1) main watch)
  then show ?thesis
    using create exit0 flags
    by (simp add: ExeDebugRunner_exc_def run_begin_def ebind_def call_def leave_with_def ret_def Let_def
        case_prod_beta)
qed

definition late_os :: mem_os where
  "late_os = mem_os_new [(''1.in'', ''7'')] [EXIT_PROCESS_DEBUG_EVENT 0] [259, 0] [5, 90000000] [100]"

theorem final_overrun_accepted_witness:
  "\<exists>w'. ExeDebugRunner_exc sample_config mem_processes ([True, False] @ [True, False]) demo_task late_os =
    Inr ((True, setRunMemory 0 (setRunTime 9000 demo_task)), w')"
proof -
  let ?p = "\<lparr>m_hProcess = 20, m_hThread = 21, m_hInput = 10, m_hOutput = 11, m_inputFile = ''1.in'',
    m_outputFile = ''1001.out''\<rparr>"
  let ?w1 = "late_os\<lparr>fs_files := [(''1001.out'', []), (''1.in'', ''7'')]\<rparr>"
  let ?r = "run_turns mem_processes [True, False] (run_begin demo_task ?p) ?w1"
  let ?s = "fst ?r" and ?w2 = "snd ?r"
  let ?w3 = "?w2\<lparr>os_events := []\<rparr>"
  let ?w6 = "?w3"
  have "\<exists>w'. ExeDebugRunner_exc sample_config mem_processes ([True, False] @ [True, False]) demo_task late_os =
    Inr ((True, setRunMemory (memory_kb (max 100 (runMemory (r_watch ?s)))) (setRunTime (time_ms 90000000) demo_task)), w')"
  proof (rule final_overrun_accepted [where ?w1.0 = ?w1 and p = ?p and s = ?s and ?w2.0 = ?w2 and ?w3.0 = ?w3 and ?w4.0 = ?w3
     and ?w5.0 = ?w3 and ?w6.0 = ?w3 and ?w7.0 = ?w3 and ?w8.0 = ?w3 and st = DBG_CONTINUE])
  qed code_simp+
  moreover have "memory_kb (max 100 (runMemory (r_watch ?s))) = 0" by code_simp
  moreover have "time_ms 90000000 = 9000" by code_simp
  ultimately show ?thesis by simp
qed

text \<open>
  the last sample, taken after the loop, is stored but compared with nothing.  A process that
  passes its time limit between the last poll and its exit succeeds with a run time of nine
  seconds under a limit of one second.
\<close>

theorem late_overrun_accepted:
  "\<exists>w'. ExeDebugRunner_exc sample_config mem_processes [True, False, True, False] demo_task
      (mem_os_new [(''1.in'', ''7'')] [EXIT_PROCESS_DEBUG_EVENT 0] [259, 0] [5, 90000000] [100])
     = Inr ((True, demo_task\<lparr>m_runTime := 9000\<rparr>), w') \<and> m_limitTime demo_task = 1"
proof -
  have "map_sum id fst (ExeDebugRunner_exc sample_config mem_processes [True, False, True, False] demo_task
      (mem_os_new [(''1.in'', ''7'')] [EXIT_PROCESS_DEBUG_EVENT 0] [259, 0] [5, 90000000] [100]))
     = Inr (True, demo_task\<lparr>m_runTime := 9000\<rparr>)" by code_simp
  then show ?thesis
    by (cases "ExeDebugRunner_exc sample_config mem_processes [True, False, True, False] demo_task
      (mem_os_new [(''1.in'', ''7'')] [EXIT_PROCESS_DEBUG_EVENT 0] [259, 0] [5, 90000000] [100])")
      (auto simp: demo_task_def)
qed

text \<open>
  The compiler stage never terminates the compiler process: its outcome is the same on a
  platform with any other \<open>TerminateProcess\<close>.  A compiler over its time limit keeps running.
\<close>

theorem compiler_never_killed:
  "CppCompiler_exc config (api\<lparr>TerminateProcess := f\<rparr>) t = CppCompiler_exc config api t"
  by (simp add: CppCompiler_exc_def ZProcessInOut_create_def create_suspended_def createProcess_def [abs_def]
      ZProcessInOut_start_def leave_with_def no_terminate Let_def cong: if_cong option.case_cong)




text \<open>A compiler that writes a message to its output and ends with the code 1.\<close>

definition failing_compiler :: "mem_os process_api" where
  "failing_compiler = mem_processes
     \<lparr>ResumeThread := \<lambda>h w. (1, w\<lparr>fs_files := (''1001.txt'', ''1001.cpp: error'') # fs_files w\<rparr>)\<rparr>"

definition compile_os :: mem_os where
  "compile_os = mem_os_new [(''1001.cpp'', ''int main( {}'')] [] [259, 1] [] []"


end
