(* ===== verification/Core.thy ===== *)
theory Core
  imports Executors
begin

text \<open>
  One judgement: src/Judger/JudgeCore.cpp and JudgeCore.h.  A core holds its three stages and a
  callback; \<open>judge\<close> compiles, runs and compares test after test, reports, and removes the
  temporary files.  A false result is a fatal error: a file could not be removed.
\<close>

section \<open>Removing a file\<close>

text \<open>\<open>k\<close> counts the attempts that are left of \<open>for (i=1; i<=attemp; ++i)\<close>.\<close>

fun safeRemove_loop :: "('w, 'x) file_api_scheme \<Rightarrow> tstring \<Rightarrow> int \<Rightarrow> nat \<Rightarrow> 'w \<Rightarrow> bool \<times> 'w" where
  "safeRemove_loop api name delayTime 0 w = (False, w)"
| "safeRemove_loop api name delayTime (Suc k) w =
     (let (ok, w1) = DeleteFile api (c_str name) w
      in if ok then (True, w1)
         else
           let (code, w2) = GetLastError api w1
           in if code = ERROR_FILE_NOT_FOUND then (True, w2)
              else safeRemove_loop api name delayTime k (snd (Sleep api delayTime w2)))"

definition safeRemoveFile :: "('w, 'x) file_api_scheme \<Rightarrow> tstring \<Rightarrow> 'w \<Rightarrow> bool \<times> 'w" where
  "safeRemoveFile api name w = safeRemove_loop api name 1000 10 w"

section \<open>The core\<close>

record 'w JudgeCore =
  m_id :: int
  m_compiler :: "'w exc"
  m_runner :: "'w exc"
  m_mather :: "'w exc"
  m_finishCB :: "(int \<Rightarrow> TaskBase \<Rightarrow> ('w, unit) eff) option"

text \<open>A new core has no stages yet; a call of one would go through a null pointer.\<close>

definition JudgeCore_new :: "int \<Rightarrow> (int \<Rightarrow> TaskBase \<Rightarrow> ('w, unit) eff) option \<Rightarrow> 'w JudgeCore" where
  "JudgeCore_new i cb =
     \<lparr>m_id = i, m_compiler = \<lambda>_. throw NullPointer, m_runner = \<lambda>_. throw NullPointer,
      m_mather = \<lambda>_. throw NullPointer, m_finishCB = cb\<rparr>"

definition setAllExcuter :: "'w exc \<Rightarrow> 'w exc \<Rightarrow> 'w exc \<Rightarrow> 'w JudgeCore \<Rightarrow> 'w JudgeCore" where
  "setAllExcuter compiler runner matcher core =
     core\<lparr>m_compiler := compiler, m_runner := runner, m_mather := matcher\<rparr>"

text \<open>
  The body of the loop up to the removal of the output file: whether the run succeeded, whether
  its output was accepted, and whether the output file is gone.
\<close>

definition judge_case ::
    "('w, 'x) file_api_scheme \<Rightarrow> 'w JudgeCore \<Rightarrow> int \<Rightarrow> TaskBase \<Rightarrow> ('w, (bool \<times> bool \<times> bool) \<times> TaskBase) eff" where
  "judge_case api core i task =
     ebind (lift (setTestDataIndex i task)) (\<lambda>t1.
     ebind (m_runner core t1) (\<lambda>(result, t2).
     ebind (if result then m_mather core t2 else ret (False, t2)) (\<lambda>(accepted, t3).
     ebind (call (safeRemoveFile api (m_exeOutput t3))) (\<lambda>removed.
       ret ((result, accepted, removed), t3)))))"

text \<open>
  The loop over the tests that are left, with the number of accepted tests and the two maxima;
  the first component of the result is false when the function returns from inside the loop.
\<close>

fun judge_loop ::
    "Config \<Rightarrow> ('w, 'x) file_api_scheme \<Rightarrow> 'w JudgeCore \<Rightarrow> nat \<Rightarrow> int \<Rightarrow> int \<times> int \<times> int \<Rightarrow> TaskBase \<Rightarrow>
       ('w, (bool \<times> int \<times> int \<times> int) \<times> TaskBase) eff" where
  "judge_loop config api core 0 i figures task = ret ((True, figures), task)"
| "judge_loop config api core (Suc k) i (accepted, maxTime, maxMemory) task =
     ebind (judge_case api core i task) (\<lambda>((result, acc, removed), t).
       let accepted1 = (if acc then accepted + 1 else accepted)
       in if \<not> removed then ret ((False, accepted1, maxTime, maxMemory), setResult (JE_SYSTEM config) t)
          else
            let maxTime1 = (if maxTime < m_runTime t then m_runTime t else maxTime);
                maxMemory1 = (if maxMemory < m_runMemory t then m_runMemory t else maxMemory)
            in if \<not> result then ret ((True, accepted1, maxTime1, maxMemory1), t)
               else judge_loop config api core k (i + 1) (accepted1, maxTime1, maxMemory1) t)"

definition doJudge ::
    "Config \<Rightarrow> ('w, 'x) file_api_scheme \<Rightarrow> 'w JudgeCore \<Rightarrow> 'w exc" where
  "doJudge config api core task =
     ebind (m_compiler core task) (\<lambda>(compiled, t1).
       if \<not> compiled then ret (False, t1)
       else
         let testCount = getTestDataCount t1
         in if testCount = 0 then ret (False, setResult (JE_SYSTEM config) t1)
            else
              ebind (judge_loop config api core (nat testCount) 0 (0, 0, 0) t1)
                (\<lambda>((finished, accepted, maxTime, maxMemory), t2).
                  if \<not> finished then ret (False, t2)
                  else ret (True, setRunMemory maxMemory (setRunTime maxTime
                         (setPassRate (of_int accepted / of_int (getTestDataCount t2)) t2)))))"

definition onTaskFinish :: "'w JudgeCore \<Rightarrow> TaskBase \<Rightarrow> ('w, unit) eff" where
  "onTaskFinish core task =
     (case m_finishCB core of None \<Rightarrow> ret () | Some cb \<Rightarrow> cb (m_id core) task)"

fun removeAll :: "('w, 'x) file_api_scheme \<Rightarrow> tstring list \<Rightarrow> 'w \<Rightarrow> bool \<times> 'w" where
  "removeAll api [] w = (True, w)"
| "removeAll api (f # fs) w =
     (let (ok, w1) = safeRemoveFile api f w in if \<not> ok then (False, w1) else removeAll api fs w1)"

definition doCleanUp :: "('w, 'x) file_api_scheme \<Rightarrow> TaskBase \<Rightarrow> 'w \<Rightarrow> bool \<times> 'w" where
  "doCleanUp api task w =
     removeAll api [m_codeFile task, m_compilerOutput task, m_exeOutput task, m_exeName task] w"

definition judge ::
    "Config \<Rightarrow> ('w, 'x) file_api_scheme \<Rightarrow> 'w JudgeCore \<Rightarrow> 'w exc" where
  "judge config api core task =
     ebind (doJudge config api core task) (\<lambda>(_, t1).
     ebind (onTaskFinish core t1) (\<lambda>_.
     ebind (call (doCleanUp api t1)) (\<lambda>ok. ret (ok, t1))))"

definition createJudgeCore ::
    "Config \<Rightarrow> ('w, 'x) process_api_scheme \<Rightarrow> ('w \<Rightarrow> bool list) \<Rightarrow> int \<Rightarrow>
       (int \<Rightarrow> TaskBase \<Rightarrow> ('w, unit) eff) option \<Rightarrow> 'w JudgeCore" where
  "createJudgeCore config api schedule i cb =
     setAllExcuter (createCppCompiler config api) (createExeRunner config api schedule)
       (createMatcher config api) (JudgeCore_new i cb)"

lemmas createJudgeCore_defs = createJudgeCore_def setAllExcuter_def JudgeCore_new_def
  createCppCompiler_def createExeRunner_def createMatcher_def

definition createTestJudgeCore ::
    "Config \<Rightarrow> ('w, 'x) process_api_scheme \<Rightarrow> ('w \<Rightarrow> bool list) \<Rightarrow> 'w JudgeCore" where
  "createTestJudgeCore config api schedule = createJudgeCore config api schedule 0 None"

section \<open>What a core can rely on\<close>

locale core_stages =
  compiler: stage "m_compiler core" + runner: stage "m_runner core" + matcher: stage "m_mather core"
  for core :: "'w JudgeCore"
begin

lemma judge_case_frame: "yields (judge_case api core i t) (\<lambda>(_, t'). task_id t' = task_id t)"
proof -
  let ?F = "\<lambda>(ok, t'). task_id t' = task_id t"
  have run: "yields (m_runner core t1) ?F" if "task_id t1 = task_id t" for t1
    using runner.stage_yields [of t1] that by simp
  have mat: "yields (m_mather core t2) ?F" if "task_id t2 = task_id t" for t2
    using matcher.stage_yields [of t2] that by simp
  have choice: "yields (lift (setTestDataIndex i t)) (\<lambda>t1. task_id t1 = task_id t)"
    by (intro yields_lift) (rule task_id_setTestDataIndex)
  have tail: "yields (ebind (call (safeRemoveFile api (m_exeOutput t3))) (\<lambda>removed. ret ((b, a, removed), t3)))
      (\<lambda>(_, t'). task_id t' = task_id t)" if "task_id t3 = task_id t" for b a t3
    using that by (intro yields_ebind yields_ret) simp
  show ?thesis
    unfolding judge_case_def
    by (intro yields_bind [OF choice] yields_bind_pair [OF run]
        yields_bind_pair [where Q = "\<lambda>ok t'. task_id t' = task_id t"])
      (auto intro: mat yields_ret tail)
qed

lemma judge_loop_frame:
  "yields (judge_loop config api core k i fig t) (\<lambda>(_, t'). task_id t' = task_id t)"
proof (induction k arbitrary: i fig t)
  case 0
  then show ?case by (simp add: yields_ret)
next
  case (Suc k)
  obtain a mt mm where fig: "fig = (a, mt, mm)" by (metis prod.exhaust)
  have rest: "yields (judge_loop config api core k (i + 1) f t1) (\<lambda>(_, t'). task_id t' = task_id t)"
    if "task_id t1 = task_id t" for f t1
    using Suc.IH [of "i + 1" f t1] that by simp
  show ?case
    unfolding fig judge_loop.simps Let_def
    by (intro yields_bind [OF judge_case_frame]) (auto intro: yields_ret rest split: prod.splits)
qed

lemma doJudge_frame: "yields (doJudge config api core t) (\<lambda>(_, t'). task_id t' = task_id t)"
proof -
  have loop: "yields (judge_loop config api core k 0 f t1) (\<lambda>(_, t'). task_id t' = task_id t)"
    if "task_id t1 = task_id t" for k f t1
    using judge_loop_frame [of config api k 0 f t1] that by simp
  have tail: "yields (ebind (judge_loop config api core k 0 f t1)
      (\<lambda>((fin, a, mt, mm), t2). if \<not> fin then ret (False, t2) else ret (True, setRunMemory mm
        (setRunTime mt (setPassRate (of_int a / of_int (getTestDataCount t2)) t2)))))
      (\<lambda>(_, t'). task_id t' = task_id t)" if "task_id t1 = task_id t" for k f t1
    using loop [OF that] by (rule yields_bind) (auto intro: yields_ret split: prod.splits)
  show ?thesis
    unfolding doJudge_def Let_def
    by (intro yields_bind [OF compiler.stage_yields]) (auto intro: yields_ret tail split: prod.splits)
qed

end

interpretation judger: core_stages "createJudgeCore config api schedule i cb"
  for config api schedule i cb
  by unfold_locales
    (auto simp: createJudgeCore_defs
      intro: compiler.stage_id compiler.stage_cur runner.stage_id runner.stage_cur
        matcher.stage_id matcher.stage_cur)

section \<open>The tests that were run\<close>

record case_obs =
  o_ok :: bool
  o_acc :: bool
  o_time :: int
  o_mem :: int

text \<open>What the loop saw of each test, without the figures it kept; the first component tells
  whether every removal succeeded.\<close>

fun judge_trace ::
    "('w, 'x) file_api_scheme \<Rightarrow> 'w JudgeCore \<Rightarrow> nat \<Rightarrow> int \<Rightarrow> TaskBase \<Rightarrow>
       ('w, (bool \<times> case_obs list) \<times> TaskBase) eff" where
  "judge_trace api core 0 i task = ret ((True, []), task)"
| "judge_trace api core (Suc k) i task =
     ebind (judge_case api core i task) (\<lambda>((result, acc, removed), t).
       let obs = \<lparr>o_ok = result, o_acc = acc, o_time = m_runTime t, o_mem = m_runMemory t\<rparr>
       in if \<not> removed then ret ((False, [obs]), t)
          else if \<not> result then ret ((True, [obs]), t)
          else ebind (judge_trace api core k (i + 1) t) (\<lambda>((fine, os), t'). ret ((fine, obs # os), t')))"

definition add_obs :: "case_obs \<Rightarrow> int \<times> int \<times> int \<Rightarrow> int \<times> int \<times> int" where
  "add_obs obs fig =
     (case fig of (a, mt, mm) \<Rightarrow>
       (if o_acc obs then a + 1 else a, max mt (o_time obs), max mm (o_mem obs)))"

text \<open>The shape of a run over \<open>k\<close> tests: it goes on exactly after the runs that succeed.\<close>

fun run_shape :: "nat \<Rightarrow> case_obs list \<Rightarrow> bool" where
  "run_shape 0 os = (os = [])"
| "run_shape (Suc k) [] = False"
| "run_shape (Suc k) (obs # os) =
     ((o_acc obs \<longrightarrow> o_ok obs) \<and> (if o_ok obs then run_shape k os else os = []))"

lemma fold_add_obs:
  "fold add_obs os (a, mt, mm) =
     (a + int (cnt o_acc os), fold max (map o_time os) mt, fold max (map o_mem os) mm)"
  by (induction os arbitrary: a mt mm) (simp_all add: add_obs_def max.commute)

lemma fold_max_Max: "fold max (xs :: int list) m = Max (insert m (set xs))"
proof (induction xs arbitrary: m)
  case (Cons a xs)
  have "Max (insert (max a m) (set xs)) = Max (insert a (insert m (set xs)))"
    by (cases "xs = []") (simp_all add: max.assoc)
  then show ?case by (simp add: Cons.IH insert_commute)
qed simp

lemma judge_case_acc:
  "judge_case api core i t w = Inr (((res, acc, removed), t'), w') \<Longrightarrow> acc \<Longrightarrow> res"
  by (auto simp: judge_case_def ebind_def ret_def split: sum.splits if_splits prod.splits)

lemma judge_loop_trace:
  "judge_loop config api core k i fig t w = Inr (((True, fig'), t'), w') \<Longrightarrow>
     \<exists>os. judge_trace api core k i t w = Inr (((True, os), t'), w') \<and> fig' = fold add_obs os fig \<and>
       run_shape k os"
proof (induction k arbitrary: i fig t w)
  case 0
  then show ?case by (auto simp: ret_def)
next
  case (Suc k)
  obtain a mt mm where fig: "fig = (a, mt, mm)" by (metis prod.exhaust)
  from Suc.prems obtain x w1 where x: "judge_case api core i t w = Inr (x, w1)"
    unfolding fig judge_loop.simps by (rule ebind_InrE)
  obtain res acc rem t1 where "x = ((res, acc, rem), t1)" by (metis prod.exhaust)
  with x have c: "judge_case api core i t w = Inr (((res, acc, rem), t1), w1)" by simp
  let ?obs = "\<lparr>o_ok = res, o_acc = acc, o_time = m_runTime t1, o_mem = m_runMemory t1\<rparr>"
  have add: "add_obs ?obs fig = (if acc then a + 1 else a,
      if mt < m_runTime t1 then m_runTime t1 else mt, if mm < m_runMemory t1 then m_runMemory t1 else mm)"
    by (simp add: add_obs_def fig max_def not_less)
  note acc = judge_case_acc [OF c]
  from Suc.prems c fig have rem: "rem" by (auto simp: ebind_def Let_def ret_def split: if_splits)
  show ?case
  proof (cases res)
    case True
    with Suc.prems c rem fig add have
      "judge_loop config api core k (i + 1) (add_obs ?obs fig) t1 w1 = Inr (((True, fig'), t'), w')"
      by (simp add: ebind_def Let_def)
    from Suc.IH [OF this] obtain os where
      "judge_trace api core k (i + 1) t1 w1 = Inr (((True, os), t'), w')"
      "fig' = fold add_obs os (add_obs ?obs fig)" "run_shape k os" by blast
    with True c rem show ?thesis
      by (intro exI [of _ "?obs # os"]) (simp add: ebind_def Let_def ret_def)
  next
    case False
    with Suc.prems c rem fig add acc show ?thesis
      by (intro exI [of _ "[?obs]"]) (auto simp: ebind_def Let_def ret_def)
  qed
qed

lemma run_shape_length: "run_shape k os \<Longrightarrow> length os \<le> k"
  by (induction k os rule: run_shape.induct) (auto split: if_splits)

lemma run_shape_all_accepted: "run_shape k os \<Longrightarrow> cnt o_acc os = k \<longleftrightarrow> length os = k \<and> list_all o_acc os"
proof -
  assume "run_shape k os"
  then have "length os \<le> k" by (rule run_shape_length)
  moreover have "cnt o_acc os = length os \<longleftrightarrow> list_all o_acc os"
    by (simp add: cnt_def list_all_iff filter_id_conv)
      (metis filter_id_conv length_filter_less nless_le)
  ultimately show ?thesis using cnt_le_length [of o_acc os] by auto
qed

text \<open>The figures of a judgement that ran its tests.\<close>

definition judge_report :: "TaskBase \<Rightarrow> case_obs list \<Rightarrow> TaskBase \<Rightarrow> bool" where
  "judge_report t os t' \<longleftrightarrow>
     (let n = length (m_testData t)
      in run_shape n os \<and>
         m_passRate t' = of_nat (cnt o_acc os) / of_nat n \<and>
         m_runTime t' = Max (insert 0 (o_time ` set os)) \<and>
         m_runMemory t' = Max (insert 0 (o_mem ` set os)))"

context core_stages
begin

lemma doJudge_report:
  assumes "doJudge config api core t w = Inr ((True, t'), w')"
  shows "\<exists>t1 w1 os t2. m_compiler core t w = Inr ((True, t1), w1) \<and>
    judge_trace api core (length (m_testData t)) 0 t1 w1 = Inr (((True, os), t2), w') \<and>
    judge_report t os t' \<and> m_result t' = m_result t2 \<and> m_testData t \<noteq> []"
proof -
  from assms obtain c t1 w1 where comp: "m_compiler core t w = Inr ((c, t1), w1)"
    unfolding doJudge_def by (elim ebind_InrE) (metis prod.exhaust)
  have n1: "getTestDataCount t1 = getTestDataCount t" using comp by (rule compiler.stage_count)
  from assms comp have c: c and n: "getTestDataCount t1 \<noteq> 0"
    by (auto simp: doJudge_def ebind_def Let_def ret_def split: if_splits)
  from assms comp c n obtain a mt mm t2 where
    l: "judge_loop config api core (nat (getTestDataCount t1)) 0 (0, 0, 0) t1 w1
      = Inr (((True, a, mt, mm), t2), w')"
    and t': "t' = setRunMemory mm (setRunTime mt
        (setPassRate (of_int a / of_int (getTestDataCount t2)) t2))"
    by (auto simp: doJudge_def ebind_def Let_def ret_def split: sum.splits if_splits)
  have n2: "getTestDataCount t2 = getTestDataCount t1"
    using yieldsD [OF judge_loop_frame l] by (intro getTestDataCount_id) simp
  have k: "nat (getTestDataCount t1) = length (m_testData t)" using n1 by (simp add: getTestDataCount_def)
  from judge_loop_trace [OF l] obtain os where
    os: "judge_trace api core (length (m_testData t)) 0 t1 w1 = Inr (((True, os), t2), w')"
    "(a, mt, mm) = fold add_obs os (0, 0, 0)" "run_shape (length (m_testData t)) os"
    unfolding k by blast
  have "judge_report t os t'"
    using os(2,3) t' n1 n2
    by (simp add: judge_report_def fold_add_obs fold_max_Max getTestDataCount_def)
  moreover have "m_testData t \<noteq> []" using n n1 by (auto simp: getTestDataCount_def)
  ultimately show ?thesis using comp c os t' by auto
qed

end

section \<open>Removed files stay removed\<close>

text \<open>
  The documented behaviour of the calls: a successful \<open>DeleteFile\<close> removes the file, the error
  code 2 says that it is not there, and none of the three calls brings a file back.
\<close>

definition removal_law :: "('w, 'x) file_api_scheme \<Rightarrow> (tstring \<Rightarrow> 'w \<Rightarrow> bool) \<Rightarrow> bool" where
  "removal_law api gone \<longleftrightarrow>
     (\<forall>n w. fst (DeleteFile api n w) \<longrightarrow> gone n (snd (DeleteFile api n w))) \<and>
     (\<forall>n w. \<not> fst (DeleteFile api n w) \<longrightarrow>
        fst (GetLastError api (snd (DeleteFile api n w))) = ERROR_FILE_NOT_FOUND \<longrightarrow>
        gone n (snd (GetLastError api (snd (DeleteFile api n w))))) \<and>
     (\<forall>m n w. gone m w \<longrightarrow> gone m (snd (DeleteFile api n w))) \<and>
     (\<forall>m w. gone m w \<longrightarrow> gone m (snd (GetLastError api w))) \<and>
     (\<forall>m d w. gone m w \<longrightarrow> gone m (snd (Sleep api d w)))"

lemma safeRemove_gone:
  "removal_law api gone \<Longrightarrow> safeRemove_loop api f d k w = (ok, w') \<Longrightarrow>
     (ok \<longrightarrow> gone (c_str f) w') \<and> (\<forall>m. gone m w \<longrightarrow> gone m w')"
  by (induction k arbitrary: w) (auto simp: Let_def case_prod_beta removal_law_def split: if_splits)

lemma removeAll_gone:
  "removal_law api gone \<Longrightarrow> removeAll api fs w = (ok, w') \<Longrightarrow>
     (ok \<longrightarrow> (\<forall>f \<in> set fs. gone (c_str f) w')) \<and> (\<forall>m. gone m w \<longrightarrow> gone m w')"
proof (induction fs arbitrary: w)
  case (Cons f fs)
  obtain b w1 where r: "safeRemoveFile api f w = (b, w1)" by fastforce
  from safeRemove_gone [OF Cons.prems(1) r [unfolded safeRemoveFile_def]] Cons.IH [of w1] Cons.prems r
  show ?case by (cases b) auto
qed simp

section \<open>No assertion fails\<close>

context core_stages
begin

lemma judge_loop_avoids:
  assumes "\<And>t. avoids AssertionFailed (m_runner core t)" "\<And>t. avoids AssertionFailed (m_mather core t)"
  shows "0 \<le> i \<Longrightarrow> i + int k \<le> getTestDataCount t \<Longrightarrow>
    avoids AssertionFailed (judge_loop config api core k i fig t)"
proof (induction k arbitrary: i fig t)
  case 0
  then show ?case by (simp add: avoids_ret)
next
  case (Suc k)
  obtain a mt mm where fig: "fig = (a, mt, mm)" by (metis prod.exhaust)
  from setTestDataIndex_ok [of i t] Suc.prems have "setTestDataIndex i t \<noteq> Inl AssertionFailed" by auto
  then have c: "avoids AssertionFailed (judge_case api core i t)"
    unfolding judge_case_def using assms
    by (intro avoids_intros avoids_lift) auto
  have rest: "avoids AssertionFailed (judge_loop config api core k (i + 1) f t1)"
    if "task_id t1 = task_id t" for f t1
    using Suc.prems getTestDataCount_id [OF that] by (intro Suc.IH) auto
  show ?case
    unfolding fig judge_loop.simps Let_def
    by (rule avoids_bind [OF c judge_case_frame]) (auto intro: avoids_ret rest split: prod.splits)
qed

lemma doJudge_avoids:
  assumes "\<And>t. avoids AssertionFailed (m_compiler core t)"
    "\<And>t. avoids AssertionFailed (m_runner core t)" "\<And>t. avoids AssertionFailed (m_mather core t)"
  shows "avoids AssertionFailed (doJudge config api core t)"
proof -
  have "avoids AssertionFailed (judge_loop config api core (nat (getTestDataCount u)) 0 f u)" for f u
    by (rule judge_loop_avoids) (use assms in \<open>auto simp: getTestDataCount_def\<close>)
  then show ?thesis
    unfolding doJudge_def Let_def by (intro avoids_intros assms) (auto intro: avoids_ret)
qed

end

lemma avoids_leave_with: "avoids f (leave_with api p r)"
  unfolding leave_with_def by (intro avoids_intros)

lemma sprintf_avoids: "sprintf_s n s as \<noteq> Inl AssertionFailed"
  by (simp add: sprintf_s_def split: option.splits)

lemma create_avoids:
  assumes "\<And>q. avoids AssertionFailed (start q)"
  shows "avoids AssertionFailed (create_suspended api flags start cmd b p)"
proof -
  have "lstrcpy_cmd cmd \<noteq> Inl AssertionFailed" by (simp add: lstrcpy_cmd_def)
  then show ?thesis
    unfolding create_suspended_def Let_def using assms
    by (intro avoids_intros avoids_lift) (auto intro!: avoids_intros split: option.splits)
qed

lemma compiler_avoids: "avoids AssertionFailed (CppCompiler_exc config api t)"
proof -
  have "avoids AssertionFailed (ZProcessInOut_create api cmd True p)" for cmd p
    unfolding ZProcessInOut_create_def ZProcessInOut_start_def
    by (intro avoids_intros create_avoids)
  then show ?thesis
    unfolding CppCompiler_exc_def Let_def
    by (intro avoids_intros avoids_lift sprintf_avoids avoids_leave_with)
qed

lemma run_threads_avoids: "avoids AssertionFailed (run_threads api ts s)"
proof -
  have "run_threads api ts s w \<noteq> Inl AssertionFailed" for w
    by (induction api ts s w rule: run_threads.induct)
      (auto split: main_state.splits prod.splits if_splits)
  then show ?thesis by (simp add: avoids_def)
qed

lemma runner_avoids: "avoids AssertionFailed (\<lambda>w. ExeDebugRunner_exc config api (schedule w) t w)"
proof -
  have "avoids AssertionFailed (or_diverge (ZProcessDebug_start api fuel q))" for fuel q
    by (simp add: avoids_def or_diverge_def split: option.split)
  then have "avoids AssertionFailed (ZProcessDebug_create api fuel cmd b p)" for fuel cmd b p
    unfolding ZProcessDebug_create_def by (intro avoids_intros create_avoids)
  then have "avoids AssertionFailed (ExeDebugRunner_exc config api sched t)" for sched
    unfolding ExeDebugRunner_exc_def Let_def
    by (intro avoids_intros run_threads_avoids avoids_leave_with)
  then show ?thesis by (simp add: avoids_def)
qed

lemma matcher_avoids: "avoids AssertionFailed (Matcher_exc config api t)"
proof -
  have "avoids AssertionFailed (readFileBuffer api f b)" for f b
    by (auto simp: avoids_def readFileBuffer_def Let_def split: option.splits prod.splits)
  then show ?thesis
    unfolding Matcher_exc_def Matcher_compare_files_def
    by (intro avoids_intros) (auto intro!: avoids_intros split: option.splits)
qed

section \<open>The verdict of a test\<close>

definition test_verdict :: "Config \<Rightarrow> bool \<Rightarrow> bool \<Rightarrow> int \<Rightarrow> bool" where
  "test_verdict config ok acc v \<longleftrightarrow>
     (if acc then v = JE_ACCEPT config
      else if ok then v \<in> {JE_WRONG_ANWSER config, JE_PRESENT config, JE_SYSTEM config}
      else v \<in> {JE_SYSTEM config, JE_MEMORY_LIMITED config, JE_TIME_LIMITED config, JE_RUNTIME config})"

lemma judge_case_verdict:
  "yields (judge_case api (createJudgeCore config api schedule i cb) k t)
     (\<lambda>((ok, acc, removed), t'). test_verdict config ok acc (m_result t'))"
proof -
  let ?core = "createJudgeCore config api schedule i cb"
  have run: "yields (m_runner ?core t1) (\<lambda>(ok, t2). \<not> ok \<longrightarrow> test_verdict config False False (m_result t2))" for t1
    by (intro yieldsI) (auto simp: createJudgeCore_defs runner_outcome_def test_verdict_def
        Let_def dest!: yieldsD [OF runner_yields])
  have mat: "yields (m_mather ?core t2) (\<lambda>(acc, t3). test_verdict config True acc (m_result t3))" for t2
    unfolding createJudgeCore_defs Matcher_exc_def
    by (simp, intro yields_ebind yields_ret) (simp add: test_verdict_def matcher_verdict_def)
  have tail: "yields (ebind (if ok then m_mather ?core t2 else ret (False, t2)) (\<lambda>(acc, t3).
      ebind (call (safeRemoveFile api (m_exeOutput t3))) (\<lambda>removed. ret ((ok, acc, removed), t3))))
      (\<lambda>((ok, acc, removed), t'). test_verdict config ok acc (m_result t'))"
    if "\<not> ok \<longrightarrow> test_verdict config False False (m_result t2)" for ok t2
  proof (rule yields_bind_pair)
    show "yields (if ok then m_mather ?core t2 else ret (False, t2))
        (\<lambda>(acc, t3). test_verdict config ok acc (m_result t3))"
      using that mat by (auto intro: yields_ret)
  qed (auto intro: yields_ebind yields_ret)
  show ?thesis
    unfolding judge_case_def
    by (intro yields_bind [OF yields_True] yields_bind_pair [OF run] tail)
qed

lemma judge_trace_verdict:
  "judge_trace api (createJudgeCore config api schedule i cb) (Suc n) k t w = Inr (((True, os), t'), w') \<Longrightarrow>
     os \<noteq> [] \<and> test_verdict config (o_ok (last os)) (o_acc (last os)) (m_result t')"
proof (induction n arbitrary: k t w os)
  case (0 k t w os)
  let ?core = "createJudgeCore config api schedule i cb"
  obtain ok acc removed t1 w1 where c: "judge_case api ?core k t w = Inr (((ok, acc, removed), t1), w1)"
    using 0 by (auto elim!: ebind_InrE)
  with yieldsD [OF judge_case_verdict c] 0 show ?case
    by (auto simp: ebind_def ret_def Let_def split: if_splits)
next
  case (Suc n k t w os)
  let ?core = "createJudgeCore config api schedule i cb"
  obtain ok acc removed t1 w1 where c: "judge_case api ?core k t w = Inr (((ok, acc, removed), t1), w1)"
    using Suc.prems by (auto elim!: ebind_InrE)
  show ?case
  proof (cases "removed \<and> ok")
    case False
    with yieldsD [OF judge_case_verdict c] Suc.prems c show ?thesis
      by (auto simp: ebind_def ret_def Let_def split: if_splits)
  next
    case True
    with Suc.prems c obtain os' where rest: "judge_trace api ?core (Suc n) (k + 1) t1 w1 = Inr (((True, os'), t'), w')"
      and os: "os = \<lparr>o_ok = ok, o_acc = acc, o_time = m_runTime t1, o_mem = m_runMemory t1\<rparr> # os'"
      by (auto simp: ebind_def [of "judge_case api ?core k t"] Let_def ret_def simp del: judge_trace.simps
          simp: judge_trace.simps(2) [of _ _ "Suc n"] elim!: ebind_InrE)
    from Suc.IH [OF rest] os show ?thesis by simp
  qed
qed

lemma doJudge_tests:
  assumes "doJudge config api (createJudgeCore config api schedule i cb) t w = Inr ((True, t'), w')"
  shows "\<exists>t1 w1 os t2. CppCompiler_exc config api t w = Inr ((True, t1), w1) \<and>
    judge_trace api (createJudgeCore config api schedule i cb) (length (m_testData t)) 0 t1 w1
      = Inr (((True, os), t2), w') \<and>
    judge_report t os t' \<and> os \<noteq> [] \<and> test_verdict config (o_ok (last os)) (o_acc (last os)) (m_result t')"
proof -
  obtain t1 w1 os t2 where r: "m_compiler (createJudgeCore config api schedule i cb) t w = Inr ((True, t1), w1)"
    "judge_trace api (createJudgeCore config api schedule i cb) (length (m_testData t)) 0 t1 w1 =
      Inr (((True, os), t2), w')" "judge_report t os t'" "m_result t' = m_result t2" "m_testData t \<noteq> []"
    using judger.doJudge_report [OF assms] by blast
  then obtain n where n: "length (m_testData t) = Suc n" by (cases "m_testData t") auto
  from judge_trace_verdict [OF r(2) [unfolded n]] r n show ?thesis
    by (auto simp: createJudgeCore_defs simp del: judge_trace.simps)
qed

section \<open>Properties\<close>

text \<open>
  C5: the figures of a judgement are those of the tests that were run.  The tests are run in order
  up to the first run that fails; the pass rate is the number of accepted outputs over the number
  of all tests, time and memory are the maxima over the tests run, and the verdict is the one
  written for the last of them.
\<close>

theorem judge_figures:
  assumes "doJudge config api (createJudgeCore config api schedule i cb) t w = Inr ((True, t'), w')"
  shows "\<exists>t1 w1 os t2. CppCompiler_exc config api t w = Inr ((True, t1), w1) \<and>
    judge_trace api (createJudgeCore config api schedule i cb) (length (m_testData t)) 0 t1 w1
      = Inr (((True, os), t2), w') \<and>
    run_shape (length (m_testData t)) os \<and>
    m_passRate t' = of_nat (cnt o_acc os) / of_nat (length (m_testData t)) \<and>
    m_runTime t' = Max (insert 0 (o_time ` set os)) \<and>
    m_runMemory t' = Max (insert 0 (o_mem ` set os)) \<and> m_result t' = m_result t2"
  using judger.doJudge_report [OF assms]
  by (auto simp: judge_report_def Let_def createJudgeCore_defs)

text \<open>Two tests; the program prints nothing, which is right for the second test only.\<close>

definition two_tests_os :: mem_os where
  "two_tests_os = mem_os_new
     [(''1001.cpp'', ''int main(){}''), (''1.in'', ''1 2''), (''1.out'', ''3''), (''2.in'', ''''), (''2.out'', '''')]
     [EXIT_PROCESS_DEBUG_EVENT 0, EXIT_PROCESS_DEBUG_EVENT 0] [0] [70000] [4096]"

definition demo_core :: "mem_os JudgeCore" where
  "demo_core = createJudgeCore sample_config mem_processes (\<lambda>_. [True, True, False]) 0 None"

lemma two_tests_run:
  "map_sum id fst (doJudge sample_config mem_processes demo_core demo_task two_tests_os) =
     Inr (True, demo_task\<lparr>m_result := 4, m_passRate := 1 / 2, m_runTime := 7, m_runMemory := 4,
        m_curTestDataIndex := 1, m_curInputTestData := ''2.in'', m_curOutputTestData := ''2.out''\<rparr>)"
  by code_simp

lemma map_sum_InrE:
  assumes "map_sum id fst x = Inr r"
  obtains w where "x = Inr (r, w)"
  using assms by (cases x) auto

theorem judge_figures_witness:
  "\<exists>os. run_shape 2 os \<and> (1 / 2 :: rat) = of_nat (cnt o_acc os) / of_nat 2 \<and>
     7 = Max (insert 0 (o_time ` set os))"
proof -
  obtain w where "doJudge sample_config mem_processes demo_core demo_task two_tests_os =
     Inr ((True, demo_task\<lparr>m_result := 4, m_passRate := 1 / 2, m_runTime := 7, m_runMemory := 4,
        m_curTestDataIndex := 1, m_curInputTestData := ''2.in'', m_curOutputTestData := ''2.out''\<rparr>), w)"
    using two_tests_run by (rule map_sum_InrE) blast
  from judge_figures [OF this [unfolded demo_core_def]] show ?thesis
    by (auto simp: demo_task_def eval_nat_numeral)
qed

text \<open>
  The verdict of a judgement is that of the last test that was run, whatever the tests before it:
  accepted if its output was, one of the matcher's other verdicts if only the run succeeded, and one
  of the runner's if that failed.
\<close>

theorem last_test_decides:
  assumes "doJudge config api (createJudgeCore config api schedule i cb) t w = Inr ((True, t'), w')"
  shows "\<exists>t1 w1 os t2. CppCompiler_exc config api t w = Inr ((True, t1), w1) \<and>
    judge_trace api (createJudgeCore config api schedule i cb) (length (m_testData t)) 0 t1 w1
      = Inr (((True, os), t2), w') \<and>
    os \<noteq> [] \<and> test_verdict config (o_ok (last os)) (o_acc (last os)) (m_result t')"
  using doJudge_tests [OF assms] by blast

theorem last_test_decides_witness:
  "\<exists>t' w' (os :: case_obs list). doJudge sample_config mem_processes demo_core demo_task two_tests_os = Inr ((True, t'), w') \<and>
     m_passRate t' = 1 / 2 \<and> os \<noteq> [] \<and>
     test_verdict sample_config (o_ok (last os)) (o_acc (last os)) (JE_ACCEPT sample_config)"
proof -
  obtain w where j: "doJudge sample_config mem_processes demo_core demo_task two_tests_os =
     Inr ((True, demo_task\<lparr>m_result := 4, m_passRate := 1 / 2, m_runTime := 7, m_runMemory := 4,
        m_curTestDataIndex := 1, m_curInputTestData := ''2.in'', m_curOutputTestData := ''2.out''\<rparr>), w)"
    using two_tests_run by (rule map_sum_InrE) blast
  from last_test_decides [OF j [unfolded demo_core_def]] obtain os :: "case_obs list" where
    "os \<noteq> []" "test_verdict sample_config (o_ok (last os)) (o_acc (last os)) 4" by auto
  with j show ?thesis by (auto simp: sample_config_def Config_new_def)
qed

text \<open>
  The verdict of a test replaces that of the test before it.  A submission that fails the first
  test and passes the last one is recorded as accepted, with a pass rate below one.
\<close>

theorem wrong_answer_overwritten:
  "\<exists>t' w'. judge sample_config mem_processes demo_core demo_task two_tests_os = Inr ((True, t'), w') \<and>
     m_result t' = JE_ACCEPT sample_config \<and> m_passRate t' = 1 / 2"
proof -
  let ?t = "demo_task\<lparr>m_result := 4, m_passRate := 1 / 2, m_runTime := 7, m_runMemory := 4,
        m_curTestDataIndex := 1, m_curInputTestData := ''2.in'', m_curOutputTestData := ''2.out''\<rparr>"
  have "map_sum id fst (judge sample_config mem_processes demo_core demo_task two_tests_os) = Inr (True, ?t)"
    by code_simp
  then show ?thesis
    by (rule map_sum_InrE) (auto simp: sample_config_def Config_new_def)
qed

text \<open>
  C28: when \<open>judge\<close> returns true, the four temporary files of the task are gone: its source, the
  compiler's messages, the output and the program.
\<close>

theorem judge_leaves_no_files:
  assumes "removal_law api gone"
    and "judge config api (createJudgeCore config api schedule i cb) t w = Inr ((True, t'), w')"
  shows "\<forall>f \<in> set (task_files t). gone (c_str f) w'"
proof -
  let ?core = "createJudgeCore config api schedule i cb"
  obtain x w1 where x: "doJudge config api ?core t w = Inr (x, w1)" and
    rest: "(case x of (_, t1) \<Rightarrow> ebind (onTaskFinish ?core t1) (\<lambda>_.
      ebind (call (doCleanUp api t1)) (\<lambda>ok. ret (ok, t1)))) w1 = Inr ((True, t'), w')"
    using assms(2) unfolding judge_def by (rule ebind_InrE)
  obtain b u where "x = (b, u)" by fastforce
  with x rest have j: "doJudge config api ?core t w = Inr ((b, u), w1)" and
    r: "ebind (onTaskFinish ?core u) (\<lambda>_. ebind (call (doCleanUp api u)) (\<lambda>ok. ret (ok, u))) w1
      = Inr ((True, t'), w')" by simp_all
  from r obtain w2 where "ebind (call (doCleanUp api u)) (\<lambda>ok. ret (ok, u)) w2 = Inr ((True, t'), w')"
    by (rule ebind_InrE)
  then have c: "doCleanUp api u w2 = (True, w')" "t' = u"
    by (auto simp: call_ebind prod_eq_iff)
  from yieldsD [OF judger.doJudge_frame j] have "task_files u = task_files t"
    by (simp add: task_id_def task_files_def)
  with removeAll_gone [OF assms(1), of "task_files u" w2 True w'] c show ?thesis
    by (simp add: doCleanUp_def task_files_def)
qed

lemma mem_removal_law: "removal_law mem_processes (\<lambda>n w. map_of (fs_files w) n = None)"
proof -
  have gone: "map_of (filter (\<lambda>p. fst p \<noteq> n) xs) m = (if m = n then None else map_of xs m)"
    for n m and xs :: "(tstring \<times> string) list"
    by (induction xs) auto
  show ?thesis
    by (auto simp: removal_law_def mem_processes_def file_api.defs mem_files_def fs_delete_def gone
        ERROR_FILE_NOT_FOUND_def)
qed

theorem judge_leaves_no_files_witness:
  "\<exists>t' w'. judge sample_config mem_processes demo_core demo_task two_tests_os = Inr ((True, t'), w') \<and>
     (\<forall>f \<in> set (task_files demo_task). map_of (fs_files w') (c_str f) = None)"
proof -
  have "map_sum id fst (map_sum id fst (judge sample_config mem_processes demo_core demo_task two_tests_os))
      = Inr True" by code_simp
  then obtain t' w' where j: "judge sample_config mem_processes demo_core demo_task two_tests_os = Inr ((True, t'), w')"
    by (elim map_sum_InrE) auto
  from judge_leaves_no_files [OF mem_removal_law j [unfolded demo_core_def]] j show ?thesis by blast
qed


end
