(* ===== verification/TaskQueue.thy ===== *)
theory TaskQueue
  imports Prelude
begin

text \<open>
  The queue between the threads: \<open>TaskMgr\<close> of src/Commen/TaskMgr.h on the spin lock and the
  semaphore of Commen/ZLock.h.  The methods are modelled twice: as whole calls, which is how
  the rest of the development uses them, and step by step for any number of threads, where a
  step is one access to the lock, to the semaphore or to the list.
\<close>

section \<open>Lock and semaphore\<close>

text \<open>\<open>lock\<close> exchanges the mark with 1 until the old mark was 0; one exchange is one step.\<close>

definition ZSimpleLock_exchange :: "bool \<Rightarrow> bool \<times> bool" where
  "ZSimpleLock_exchange m_mark = (\<not> m_mark, True)"

definition ZSimpleLock_unlock :: "bool \<Rightarrow> bool" where
  "ZSimpleLock_unlock m_mark = False"

definition SEMAPHORE_MAX :: nat where
  "SEMAPHORE_MAX = 32767"

text \<open>\<open>ReleaseSemaphore\<close> fails, and its result is dropped, when the count is at the maximum.\<close>

definition ZSemaphore_push :: "nat \<Rightarrow> nat" where
  "ZSemaphore_push n = (if n < SEMAPHORE_MAX then n + 1 else n)"

text \<open>\<open>pop\<close> waits while the count is 0.\<close>

definition ZSemaphore_pop :: "nat \<Rightarrow> nat option" where
  "ZSemaphore_pop n = (if n = 0 then None else Some (n - 1))"

section \<open>The queue, one call at a time\<close>

record 't TaskMgr =
  m_pool :: "'t list"
  m_lock :: bool
  m_semap :: nat

definition TaskMgr_new :: "'t TaskMgr" where
  "TaskMgr_new = \<lparr>m_pool = [], m_lock = False, m_semap = 0\<rparr>"

definition TaskMgr_add :: "'t \<Rightarrow> 't TaskMgr \<Rightarrow> 't TaskMgr" where
  "TaskMgr_add task q = q\<lparr>m_pool := m_pool q @ [task], m_semap := ZSemaphore_push (m_semap q)\<rparr>"

definition TaskMgr_addFront :: "'t \<Rightarrow> 't TaskMgr \<Rightarrow> 't TaskMgr" where
  "TaskMgr_addFront task q = q\<lparr>m_pool := task # m_pool q, m_semap := ZSemaphore_push (m_semap q)\<rparr>"

text \<open>\<open>None\<close> is a call that waits; the front of an empty list is a fault.\<close>

definition TaskMgr_get :: "'t TaskMgr \<Rightarrow> ('t \<times> 't TaskMgr) option outcome" where
  "TaskMgr_get q =
     (case ZSemaphore_pop (m_semap q) of
        None \<Rightarrow> Inr None
      | Some n \<Rightarrow>
          (case m_pool q of
             [] \<Rightarrow> Inl OutOfRange
           | task # p \<Rightarrow> Inr (Some (task, q\<lparr>m_pool := p, m_semap := n\<rparr>))))"

definition TaskMgr_empty :: "'t TaskMgr \<Rightarrow> bool" where
  "TaskMgr_empty q \<longleftrightarrow> m_pool q = []"

section \<open>The contract of a pool of tasks\<close>

text \<open>
  What the judging cell, the database manager and the network rely on: a pool stands for a list;
  \<open>put\<close> and \<open>put_front\<close> extend it while there is room, \<open>take\<close> waits exactly on the empty
  list and otherwise delivers the head.
\<close>

locale task_pool =
  fixes abs :: "'q \<Rightarrow> 't list"
    and inv :: "'q \<Rightarrow> bool"
    and room :: nat
    and new :: 'q
    and put :: "'t \<Rightarrow> 'q \<Rightarrow> 'q"
    and put_front :: "'t \<Rightarrow> 'q \<Rightarrow> 'q"
    and take_from :: "'q \<Rightarrow> ('t \<times> 'q) option outcome"
  assumes new_inv: "inv new" and new_abs: "abs new = []"
    and put_law: "inv q \<Longrightarrow> length (abs q) < room \<Longrightarrow> inv (put t q) \<and> abs (put t q) = abs q @ [t]"
    and put_front_law:
      "inv q \<Longrightarrow> length (abs q) < room \<Longrightarrow> inv (put_front t q) \<and> abs (put_front t q) = t # abs q"
    and take_empty: "inv q \<Longrightarrow> abs q = [] \<Longrightarrow> take_from q = Inr None"
    and take_head: "inv q \<Longrightarrow> abs q = t # ts \<Longrightarrow>
      \<exists>q'. take_from q = Inr (Some (t, q')) \<and> inv q' \<and> abs q' = ts"
begin

lemma take_cases:
  assumes "inv q"
  obtains "abs q = []" "take_from q = Inr None"
  | t q' where "take_from q = Inr (Some (t, q'))" "inv q'" "abs q = t # abs q'"
  using assms take_empty take_head by (cases "abs q") (auto, metis)

lemma take_some:
  "inv q \<Longrightarrow> take_from q = Inr (Some (t, q')) \<Longrightarrow> inv q' \<and> abs q = t # abs q'"
  by (rule take_cases) auto

lemma take_total: "inv q \<Longrightarrow> \<exists>r. take_from q = Inr r"
  by (rule take_cases) auto

text \<open>Putting a list of tasks and taking them again gives them in the same order.\<close>

fun take_all :: "nat \<Rightarrow> 'q \<Rightarrow> 't list" where
  "take_all 0 q = []"
| "take_all (Suc n) q =
     (case take_from q of Inr (Some (t, q')) \<Rightarrow> t # take_all n q' | _ \<Rightarrow> [])"

lemma put_all:
  "inv q \<Longrightarrow> length (abs q) + length ts \<le> room \<Longrightarrow>
     inv (fold put ts q) \<and> abs (fold put ts q) = abs q @ ts"
proof (induction ts arbitrary: q)
  case (Cons t ts)
  then have "inv (put t q) \<and> abs (put t q) = abs q @ [t]" by (intro put_law) auto
  with Cons show ?case by auto
qed simp

lemma take_all_abs: "inv q \<Longrightarrow> n = length (abs q) \<Longrightarrow> take_all n q = abs q"
proof (induction n arbitrary: q)
  case (Suc n)
  from Suc.prems(1) show ?case
  proof (cases rule: take_cases)
    case 2
    with Suc show ?thesis by simp
  qed (use Suc in simp)
qed simp

lemma in_order: "length ts \<le> room \<Longrightarrow> take_all (length ts) (fold put ts new) = ts"
  using put_all [of new ts] take_all_abs [of "fold put ts new"] by (simp add: new_inv new_abs)

end

definition TaskMgr_inv :: "'t TaskMgr \<Rightarrow> bool" where
  "TaskMgr_inv q \<longleftrightarrow> m_semap q = length (m_pool q) \<and> \<not> m_lock q"

interpretation tasks: task_pool m_pool TaskMgr_inv SEMAPHORE_MAX TaskMgr_new TaskMgr_add
  TaskMgr_addFront TaskMgr_get
  by unfold_locales
    (auto simp: TaskMgr_inv_def TaskMgr_new_def TaskMgr_add_def TaskMgr_addFront_def
      TaskMgr_get_def ZSemaphore_push_def ZSemaphore_pop_def)

section \<open>The steps of a thread\<close>

text \<open>
  The program counter of a thread: outside, or inside \<open>add\<close> (or \<open>addFront\<close>, when the flag is
  set) or \<open>get\<close>, with the value it carries.
\<close>

datatype 't pc =
    Idle
  | AddEnter bool 't
  | AddHave bool 't
  | AddPushed
  | AddSignalled
  | GetEnter
  | GetToken
  | GetHave
  | GetTook 't
  | GetDone 't
  | Crashed

datatype 't event = Put bool 't | Take 't

text \<open>\<open>None\<close> says that the thread cannot move: it waits for the semaphore or is outside.\<close>

fun thread_step :: "'t pc \<Rightarrow> 't TaskMgr \<Rightarrow> ('t pc \<times> 't TaskMgr \<times> 't event option) option" where
  "thread_step (AddEnter f t) q =
     (let (got, mark) = ZSimpleLock_exchange (m_lock q)
      in Some (if got then AddHave f t else AddEnter f t, q\<lparr>m_lock := mark\<rparr>, None))"
| "thread_step (AddHave f t) q =
     Some (AddPushed, q\<lparr>m_pool := (if f then t # m_pool q else m_pool q @ [t])\<rparr>, Some (Put f t))"
| "thread_step AddPushed q = Some (AddSignalled, q\<lparr>m_semap := ZSemaphore_push (m_semap q)\<rparr>, None)"
| "thread_step AddSignalled q = Some (Idle, q\<lparr>m_lock := ZSimpleLock_unlock (m_lock q)\<rparr>, None)"
| "thread_step GetEnter q =
     (case ZSemaphore_pop (m_semap q) of
        None \<Rightarrow> None | Some n \<Rightarrow> Some (GetToken, q\<lparr>m_semap := n\<rparr>, None))"
| "thread_step GetToken q =
     (let (got, mark) = ZSimpleLock_exchange (m_lock q)
      in Some (if got then GetHave else GetToken, q\<lparr>m_lock := mark\<rparr>, None))"
| "thread_step GetHave q =
     (case m_pool q of
        [] \<Rightarrow> Some (Crashed, q, None)
      | t # p \<Rightarrow> Some (GetTook t, q\<lparr>m_pool := p\<rparr>, Some (Take t)))"
| "thread_step (GetTook t) q = Some (GetDone t, q\<lparr>m_lock := ZSimpleLock_unlock (m_lock q)\<rparr>, None)"
| "thread_step pc q = None"

record 't qsys =
  queue :: "'t TaskMgr"
  pcs :: "'t pc list"

definition outside :: "'t pc \<Rightarrow> bool" where
  "outside pc \<longleftrightarrow> (case pc of Idle \<Rightarrow> True | GetDone t \<Rightarrow> True | _ \<Rightarrow> False)"

definition entry :: "'t pc \<Rightarrow> bool" where
  "entry pc \<longleftrightarrow> (case pc of AddEnter f t \<Rightarrow> True | GetEnter \<Rightarrow> True | _ \<Rightarrow> False)"

inductive qstep :: "'t qsys \<Rightarrow> 't event option \<Rightarrow> 't qsys \<Rightarrow> bool" where
  call_op: "i < length (pcs s) \<Longrightarrow> outside (pcs s ! i) \<Longrightarrow> entry pc \<Longrightarrow>
     qstep s None (s\<lparr>pcs := (pcs s)[i := pc]\<rparr>)"
| run_op: "i < length (pcs s) \<Longrightarrow> thread_step (pcs s ! i) (queue s) = Some (pc, q, e) \<Longrightarrow>
     qstep s e (s\<lparr>queue := q, pcs := (pcs s)[i := pc]\<rparr>)"

definition qsys_new :: "nat \<Rightarrow> 't qsys" where
  "qsys_new n = \<lparr>queue = TaskMgr_new, pcs = replicate n Idle\<rparr>"

text \<open>The states reached from the start, with the list of events so far.\<close>

inductive qreach :: "nat \<Rightarrow> 't event list \<Rightarrow> 't qsys \<Rightarrow> bool" for n where
  start: "qreach n [] (qsys_new n)"
| step: "qreach n es s \<Longrightarrow> qstep s e s' \<Longrightarrow>
     qreach n (case e of None \<Rightarrow> es | Some ev \<Rightarrow> es @ [ev]) s'"

section \<open>The invariant\<close>

fun holds :: "'t pc \<Rightarrow> bool" where
  "holds (AddHave f t) = True"
| "holds AddPushed = True"
| "holds AddSignalled = True"
| "holds GetHave = True"
| "holds (GetTook t) = True"
| "holds pc = False"

fun has_token :: "'t pc \<Rightarrow> bool" where
  "has_token GetToken = True"
| "has_token GetHave = True"
| "has_token pc = False"

fun unsignalled :: "'t pc \<Rightarrow> bool" where
  "unsignalled AddPushed = True"
| "unsignalled pc = False"

fun is_crashed :: "'t pc \<Rightarrow> bool" where
  "is_crashed Crashed = True"
| "is_crashed pc = False"

definition qinv :: "'t qsys \<Rightarrow> bool" where
  "qinv s \<longleftrightarrow>
     cnt holds (pcs s) = (if m_lock (queue s) then 1 else 0) \<and>
     m_semap (queue s) + cnt has_token (pcs s) + cnt unsignalled (pcs s) \<le> length (m_pool (queue s)) \<and>
     cnt is_crashed (pcs s) = 0"

lemma qinv_new: "qinv (qsys_new n)"
proof -
  have "cnt P (replicate n (Idle :: 't pc)) = 0" if "\<not> P Idle" for P
    using that by (simp add: cnt_zero)
  from this [of holds] this [of has_token] this [of unsignalled] this [of is_crashed]
  show ?thesis by (simp add: qinv_def qsys_new_def TaskMgr_new_def)
qed

lemma qinv_call:
  assumes "qinv s" "i < length (pcs s)" "outside (pcs s ! i)" "entry pc"
  shows "qinv (s\<lparr>pcs := (pcs s)[i := pc]\<rparr>)"
proof -
  have "\<not> holds (pcs s ! i)" "\<not> has_token (pcs s ! i)" "\<not> unsignalled (pcs s ! i)" "\<not> is_crashed (pcs s ! i)"
    using assms(3) by (auto simp: outside_def split: pc.splits)
  moreover have "\<not> holds pc" "\<not> has_token pc" "\<not> unsignalled pc" "\<not> is_crashed pc"
    using assms(4) by (auto simp: entry_def split: pc.splits)
  ultimately show ?thesis
    using assms cnt_update [OF assms(2), of holds pc] cnt_update [OF assms(2), of has_token pc]
      cnt_update [OF assms(2), of unsignalled pc] cnt_update [OF assms(2), of is_crashed pc]
    by (simp add: qinv_def)
qed

lemma qinv_run:
  assumes "qinv s" "i < length (pcs s)" "thread_step (pcs s ! i) (queue s) = Some (pc, q, e)"
  shows "qinv (s\<lparr>queue := q, pcs := (pcs s)[i := pc]\<rparr>)"
proof -
  note u = cnt_update [OF assms(2), of holds pc] cnt_update [OF assms(2), of has_token pc]
    cnt_update [OF assms(2), of unsignalled pc] cnt_update [OF assms(2), of is_crashed pc]
  have pos: "P (pcs s ! i) \<Longrightarrow> 0 < cnt P (pcs s)" for P
    using assms(2) by (rule cnt_pos)
  show ?thesis
    using assms(1,3) u pos [of holds] pos [of has_token] pos [of unsignalled]
    by (cases "pcs s ! i")
      (auto simp: qinv_def ZSimpleLock_exchange_def ZSimpleLock_unlock_def ZSemaphore_push_def
        ZSemaphore_pop_def split: if_splits list.splits)
qed

lemma qinv_step: "qstep s e s' \<Longrightarrow> qinv s \<Longrightarrow> qinv s'"
  by (induction rule: qstep.induct) (auto intro: qinv_call qinv_run)

lemma qinv_reach: "qreach n es s \<Longrightarrow> qinv s"
  by (induction rule: qreach.induct) (auto intro: qinv_new qinv_step)

section \<open>The events replayed on a list\<close>

definition put_values :: "'t event list \<Rightarrow> 't list" where
  "put_values es = concat (map (\<lambda>e. case e of Put f t \<Rightarrow> [t] | Take t \<Rightarrow> []) es)"

definition taken_values :: "'t event list \<Rightarrow> 't list" where
  "taken_values es = concat (map (\<lambda>e. case e of Put f t \<Rightarrow> [] | Take t \<Rightarrow> [t]) es)"

definition only_back :: "'t event list \<Rightarrow> bool" where
  "only_back es \<longleftrightarrow> list_all (\<lambda>e. case e of Put f t \<Rightarrow> \<not> f | Take t \<Rightarrow> True) es"

lemma values_append [simp]:
  "put_values (es @ fs) = put_values es @ put_values fs"
  "taken_values (es @ fs) = taken_values es @ taken_values fs"
  "only_back (es @ fs) \<longleftrightarrow> only_back es \<and> only_back fs"
  by (simp_all add: put_values_def taken_values_def only_back_def)

lemma thread_step_pool:
  "thread_step pc q = Some (pc', q', e) \<Longrightarrow>
     (case e of None \<Rightarrow> m_pool q' = m_pool q
      | Some (Put f t) \<Rightarrow> m_pool q' = (if f then t # m_pool q else m_pool q @ [t])
      | Some (Take t) \<Rightarrow> m_pool q = t # m_pool q')"
  by (cases pc) (auto simp: ZSimpleLock_exchange_def split: option.splits list.splits if_splits)

lemma qstep_pool:
  "qstep s e s' \<Longrightarrow>
     (case e of None \<Rightarrow> m_pool (queue s') = m_pool (queue s)
      | Some (Put f t) \<Rightarrow>
          m_pool (queue s') = (if f then t # m_pool (queue s) else m_pool (queue s) @ [t])
      | Some (Take t) \<Rightarrow> m_pool (queue s) = t # m_pool (queue s'))"
proof (induction rule: qstep.induct)
  case (run_op i s pc q e)
  from thread_step_pool [OF run_op(2)] show ?case by (simp split: option.splits event.splits)
qed simp

lemma reach_mset:
  "qreach n es s \<Longrightarrow> mset (put_values es) = mset (taken_values es) + mset (m_pool (queue s))"
proof (induction rule: qreach.induct)
  case start
  show ?case by (simp add: qsys_new_def TaskMgr_new_def put_values_def taken_values_def)
next
  case (step es s e s')
  from qstep_pool [OF step(2)] step.IH show ?case
    by (auto simp: put_values_def taken_values_def split: option.splits event.splits if_splits)
qed

lemma reach_fifo:
  "qreach n es s \<Longrightarrow> only_back es \<Longrightarrow> put_values es = taken_values es @ m_pool (queue s)"
proof (induction rule: qreach.induct)
  case start
  show ?case by (simp add: qsys_new_def TaskMgr_new_def put_values_def taken_values_def)
next
  case (step es s e s')
  from qstep_pool [OF step(2)] step.IH step.prems show ?case
    by (auto simp: put_values_def taken_values_def only_back_def split: option.splits event.splits if_splits)
qed

section \<open>The steps refine the whole calls\<close>

text \<open>
  An event stands for one whole call; a \<open>Take\<close> only fits if \<open>get\<close> does not wait and delivers
  that task.
\<close>

fun call_event :: "'t event \<Rightarrow> 't TaskMgr \<Rightarrow> 't TaskMgr option" where
  "call_event (Put f t) q = Some (if f then TaskMgr_addFront t q else TaskMgr_add t q)"
| "call_event (Take t) q =
     (case TaskMgr_get q of Inr (Some (u, q')) \<Rightarrow> if u = t then Some q' else None | _ \<Rightarrow> None)"

fun replay :: "'t event list \<Rightarrow> 't TaskMgr \<Rightarrow> 't TaskMgr option" where
  "replay [] q = Some q"
| "replay (e # es) q = (case call_event e q of None \<Rightarrow> None | Some q' \<Rightarrow> replay es q')"

lemma replay_append:
  "replay (es @ fs) q = (case replay es q of None \<Rightarrow> None | Some q' \<Rightarrow> replay fs q')"
  by (induction es arbitrary: q) (auto split: option.splits)

text \<open>Seen from outside the queue is free and its semaphore counts the tasks.\<close>

definition settled :: "'t list \<Rightarrow> 't TaskMgr" where
  "settled p = \<lparr>m_pool = p, m_lock = False, m_semap = length p\<rparr>"

lemma call_event_settled:
  "length p < SEMAPHORE_MAX \<Longrightarrow>
     call_event (Put f t) (settled p) = Some (settled (if f then t # p else p @ [t]))"
  "call_event (Take t) (settled (t # p)) = Some (settled p)"
  by (simp_all add: settled_def TaskMgr_addFront_def TaskMgr_add_def ZSemaphore_push_def
      TaskMgr_get_def ZSemaphore_pop_def)

lemma pool_bound: "qreach n es s \<Longrightarrow> length (m_pool (queue s)) \<le> length (put_values es)"
  using arg_cong [OF reach_mset, of n es s size] by simp

lemma replay_settled:
  "qreach n es s \<Longrightarrow> length (put_values es) \<le> SEMAPHORE_MAX \<Longrightarrow>
     replay es TaskMgr_new = Some (settled (m_pool (queue s)))"
proof (induction rule: qreach.induct)
  case start
  show ?case by (simp add: qsys_new_def TaskMgr_new_def settled_def)
next
  case (step es s e s')
  show ?case
  proof (cases e)
    case None
    with step qstep_pool [OF step(2)] show ?thesis by simp
  next
    case (Some ev)
    from step.prems Some have bound: "length (put_values es) + length (put_values [ev]) \<le> SEMAPHORE_MAX"
      by simp
    with step.IH have IH: "replay es TaskMgr_new = Some (settled (m_pool (queue s)))" by simp
    have "call_event ev (settled (m_pool (queue s))) = Some (settled (m_pool (queue s')))"
    proof (cases ev)
      case (Put f t)
      from bound Put pool_bound [OF step(1)] have "length (m_pool (queue s)) < SEMAPHORE_MAX"
        by (simp add: put_values_def)
      with qstep_pool [OF step(2)] Some Put show ?thesis
        by (simp add: call_event_settled del: call_event.simps)
    next
      case (Take t)
      with qstep_pool [OF step(2)] Some show ?thesis
        by (simp add: call_event_settled del: call_event.simps)
    qed
    with Some IH show ?thesis by (simp add: replay_append)
  qed
qed

text \<open>While the semaphore has room its count is exact.\<close>

definition exact :: "'t qsys \<Rightarrow> bool" where
  "exact s \<longleftrightarrow>
     m_semap (queue s) + cnt has_token (pcs s) + cnt unsignalled (pcs s) = length (m_pool (queue s))"

lemma exact_step:
  assumes "qstep s e s'" "qinv s" "exact s" "length (m_pool (queue s)) \<le> SEMAPHORE_MAX"
  shows "exact s'"
  using assms
proof (induction rule: qstep.induct)
  case (call_op i s pc)
  then have "\<not> has_token (pcs s ! i)" "\<not> unsignalled (pcs s ! i)" "\<not> has_token pc" "\<not> unsignalled pc"
    by (auto simp: outside_def entry_def split: pc.splits)
  with call_op cnt_update [OF call_op(1), of has_token pc] cnt_update [OF call_op(1), of unsignalled pc]
  show ?case by (simp add: exact_def)
next
  case (run_op i s pc q e)
  note u = cnt_update [OF run_op(1), of has_token pc] cnt_update [OF run_op(1), of unsignalled pc]
  have pos: "P (pcs s ! i) \<Longrightarrow> 0 < cnt P (pcs s)" for P
    using run_op(1) by (rule cnt_pos)
  show ?case
    using run_op(2,4,5) u pos [of has_token] pos [of unsignalled]
    by (cases "pcs s ! i")
      (auto simp: exact_def ZSimpleLock_exchange_def ZSimpleLock_unlock_def ZSemaphore_push_def
        ZSemaphore_pop_def split: if_splits list.splits)
qed

lemma exact_reach:
  "qreach n es s \<Longrightarrow> length (put_values es) \<le> SEMAPHORE_MAX \<Longrightarrow> exact s"
proof (induction rule: qreach.induct)
  case start
  show ?case by (simp add: exact_def qsys_new_def TaskMgr_new_def cnt_zero)
next
  case (step es s e s')
  then have "length (put_values es) \<le> SEMAPHORE_MAX" by (simp split: option.splits)
  with step pool_bound [OF step(1)] qinv_reach [OF step(1)] show ?case
    by (intro exact_step [OF step(2)]) auto
qed

lemma outside_flags: "outside pc \<Longrightarrow> \<not> holds pc \<and> \<not> has_token pc \<and> \<not> unsignalled pc"
  by (cases pc) (auto simp: outside_def)

lemma outside_free:
  "list_all outside ps \<Longrightarrow> cnt holds ps = 0 \<and> cnt has_token ps = 0 \<and> cnt unsignalled ps = 0"
  using outside_flags by (auto simp: cnt_zero list_all_iff)

lemma settled_outside:
  assumes "qreach n es s" "length (put_values es) \<le> SEMAPHORE_MAX" "list_all outside (pcs s)"
  shows "queue s = settled (m_pool (queue s))"
  using qinv_reach [OF assms(1)] exact_reach [OF assms(1,2)] outside_free [OF assms(3)]
  by (cases "queue s") (auto simp: qinv_def exact_def settled_def split: if_splits)

section \<open>Properties\<close>

text \<open>
  C9: in every reachable state, for any number of threads and any interleaving, no thread has
  taken the front of an empty list, and at most one thread is between \<open>lock\<close> and \<open>unlock\<close>.
\<close>

theorem queue_threads_safe:
  assumes "qreach n es s" and "i < length (pcs s)" and "j < length (pcs s)"
  shows "\<not> is_crashed (pcs s ! i) \<and> (holds (pcs s ! i) \<and> holds (pcs s ! j) \<longrightarrow> i = j)"
proof -
  from qinv_reach [OF assms(1)] have crashed: "cnt is_crashed (pcs s) = 0" and "cnt holds (pcs s) \<le> 1"
    by (auto simp: qinv_def)
  then show ?thesis
    using assms(2,3) cnt_pos [of i "pcs s" is_crashed] cnt_le_one_unique [of holds "pcs s" i j] by auto
qed

text \<open>
  No interleaving loses or duplicates a task, and if tasks are only put at the back they are
  taken in the order in which they were put.
\<close>

theorem queue_linear:
  assumes "qreach n es s"
  shows "mset (put_values es) = mset (taken_values es) + mset (m_pool (queue s)) \<and>
    (only_back es \<longrightarrow> put_values es = taken_values es @ m_pool (queue s))"
  using reach_mset [OF assms] reach_fifo [OF assms] by blast

text \<open>
  C8: as long as no more than 32767 tasks were ever put, every interleaving of the steps of any
  number of threads refines whole calls made one after the other: the calls, in the order in which
  they touched the list, can be made one at a time, each \<open>get\<close> delivering what it delivered, and
  leave the same list; and when no thread is inside a call the whole queue is the one they leave.
\<close>

theorem queue_refines_calls:
  assumes "qreach n es s" and "length (put_values es) \<le> SEMAPHORE_MAX"
  shows "\<exists>q. replay es TaskMgr_new = Some q \<and> m_pool q = m_pool (queue s) \<and>
    (list_all outside (pcs s) \<longrightarrow> queue s = q)"
  using replay_settled [OF assms] settled_outside [OF assms] by (auto simp: settled_def)

lemma reach_call:
  "qreach n es s \<Longrightarrow> i < length (pcs s) \<Longrightarrow> outside (pcs s ! i) \<Longrightarrow> entry pc \<Longrightarrow>
     qreach n es (s\<lparr>pcs := (pcs s)[i := pc]\<rparr>)"
  using qreach.step [OF _ qstep.call_op, of n es s i pc] by simp

lemma reach_run:
  "qreach n es s \<Longrightarrow> i < length (pcs s) \<Longrightarrow> thread_step (pcs s ! i) (queue s) = Some (pc, q, e) \<Longrightarrow>
     qreach n (case e of None \<Rightarrow> es | Some ev \<Rightarrow> es @ [ev]) (s\<lparr>queue := q, pcs := (pcs s)[i := pc]\<rparr>)"
  by (rule qreach.step) (auto intro: qstep.run_op)

text \<open>Two threads: the first has put 7 and holds the lock, the second waits for it.\<close>

definition busy_queue :: "nat qsys" where
  "busy_queue = \<lparr>queue = \<lparr>m_pool = [7], m_lock = True, m_semap = 0\<rparr>, pcs = [AddPushed, AddEnter False 8]\<rparr>"

lemma busy_queue_reached: "qreach 2 [Put False 7] busy_queue"
proof -
  have s0: "qreach 2 [] (qsys_new 2 :: nat qsys)" by (rule qreach.start)
  have s1: "qreach 2 [] \<lparr>queue = TaskMgr_new, pcs = [AddEnter False (7 :: nat), Idle]\<rparr>"
    using reach_call [OF s0, of 0 "AddEnter False 7"]
    by (simp add: qsys_new_def outside_def entry_def numeral_2_eq_2)
  have s2: "qreach 2 [] \<lparr>queue = TaskMgr_new, pcs = [AddEnter False (7 :: nat), AddEnter False 8]\<rparr>"
    using reach_call [OF s1, of 1 "AddEnter False 8"] by (simp add: outside_def entry_def)
  have s3: "qreach 2 [] \<lparr>queue = TaskMgr_new\<lparr>m_lock := True\<rparr>, pcs = [AddHave False (7 :: nat), AddEnter False 8]\<rparr>"
    using reach_run [OF s2, of 0 "AddHave False 7" "TaskMgr_new\<lparr>m_lock := True\<rparr>" None]
    by (simp add: ZSimpleLock_exchange_def TaskMgr_new_def)
  show ?thesis
    using reach_run [OF s3, of 0 AddPushed "\<lparr>m_pool = [7], m_lock = True, m_semap = 0\<rparr>" "Some (Put False 7)"]
    by (simp add: busy_queue_def TaskMgr_new_def)
qed

theorem queue_threads_safe_witness:
  "\<not> is_crashed (pcs busy_queue ! 0) \<and> holds (pcs busy_queue ! 0) \<and> \<not> holds (pcs busy_queue ! 1)"
  using queue_threads_safe [OF busy_queue_reached, of 0 1] by (simp add: busy_queue_def)

theorem queue_linear_witness:
  "mset (put_values [Put False (7 :: nat)]) =
     mset (taken_values [Put False (7 :: nat)]) + mset (m_pool (queue busy_queue)) \<and>
   put_values [Put False (7 :: nat)] = taken_values [Put False 7] @ m_pool (queue busy_queue)"
  using queue_linear [OF busy_queue_reached] by (simp add: only_back_def)

theorem queue_refines_calls_witness:
  "\<exists>q. replay [Put False (7 :: nat)] TaskMgr_new = Some q \<and> m_pool q = m_pool (queue busy_queue)"
  using queue_refines_calls [OF busy_queue_reached] by (auto simp: put_values_def SEMAPHORE_MAX_def)

text \<open>The count of the semaphore stops at its maximum while the list grows on.\<close>

lemma semaphore_overflow:
  "SEMAPHORE_MAX \<le> length ts \<Longrightarrow> m_semap (fold TaskMgr_add ts TaskMgr_new) = SEMAPHORE_MAX \<and>
     m_pool (fold TaskMgr_add ts TaskMgr_new) = ts"
proof -
  have "m_pool (fold TaskMgr_add ts q) = m_pool q @ ts \<and>
      m_semap (fold TaskMgr_add ts q) = min SEMAPHORE_MAX (m_semap q + length ts)"
    if "m_semap q \<le> SEMAPHORE_MAX" for q :: "'a TaskMgr"
    using that by (induction ts arbitrary: q) (auto simp: TaskMgr_add_def ZSemaphore_push_def)
  from this [of TaskMgr_new] show "SEMAPHORE_MAX \<le> length ts \<Longrightarrow> ?thesis"
    by (simp add: TaskMgr_new_def)
qed

end
