(* ===== verification/Cell.thy ===== *)
theory Cell
  imports TaskQueue Tasks
begin

text \<open>
  The judging cell of src/Judger/JudgeCell.cpp and JudgeCell.h: a fixed number of worker threads
  that take tasks from one queue, and \<open>stop\<close>, which puts an empty task at the front of the
  queue for every worker and then waits for the threads.  A call of the queue is one step; the
  theory TaskQueue shows that its calls can be seen so.  The outcome of \<open>judge\<close> is free: a
  judgement that meets a fatal error ends its worker.
\<close>

section \<open>The cell\<close>

text \<open>Where a worker is in \<open>CoreThreadObj::work\<close>.\<close>

datatype 't worker = WGet | WJudge 't | WSleep | WEnd

record 't JudgeCell =
  m_tasks :: "'t option TaskMgr"
  m_cores :: "'t worker list"
  c_stopped :: bool
  c_fault :: bool
  c_added :: "'t list"
  c_judged :: "'t list"

definition JudgeCell_new :: "int \<Rightarrow> 't JudgeCell" where
  "JudgeCell_new n =
     \<lparr>m_tasks = TaskMgr_new, m_cores = replicate (nat n) WGet, c_stopped = False,
      c_fault = False, c_added = [], c_judged = []\<rparr>"

text \<open>The constructor makes the work directory before the workers; what \<open>makeDir\<close> returns is dropped.\<close>

definition JudgeCell_construct :: "('w, 'x) file_api_scheme \<Rightarrow> int \<Rightarrow> 'w \<Rightarrow> 't JudgeCell \<times> 'w" where
  "JudgeCell_construct api n w = (let (_, w1) = makeDir api WORK_DIR w in (JudgeCell_new n, w1))"

definition JudgeCell_addTask :: "'t \<Rightarrow> 't JudgeCell \<Rightarrow> 't JudgeCell" where
  "JudgeCell_addTask task c = c\<lparr>m_tasks := TaskMgr_add (Some task) (m_tasks c), c_added := c_added c @ [task]\<rparr>"

text \<open>\<open>stop\<close> up to the point where it waits for the threads.\<close>

definition JudgeCell_stop :: "'t JudgeCell \<Rightarrow> 't JudgeCell" where
  "JudgeCell_stop c =
     c\<lparr>m_tasks := fold (\<lambda>_. TaskMgr_addFront None) (m_cores c) (m_tasks c), c_stopped := True\<rparr>"

text \<open>
  One step of worker \<open>i\<close>; \<open>fatal\<close> is the negation of what \<open>judge\<close> returns, and matters only when a
  judgement ends.  \<open>None\<close> is a worker that waits or has ended.
\<close>

definition set_core :: "nat \<Rightarrow> 't worker \<Rightarrow> 't JudgeCell \<Rightarrow> 't JudgeCell" where
  "set_core i x c = c\<lparr>m_cores := (m_cores c)[i := x]\<rparr>"

definition work_step :: "bool \<Rightarrow> nat \<Rightarrow> 't JudgeCell \<Rightarrow> 't JudgeCell option" where
  "work_step fatal i c =
     (case m_cores c ! i of
        WGet \<Rightarrow>
          (case TaskMgr_get (m_tasks c) of
             Inl f \<Rightarrow> Some (c\<lparr>c_fault := True\<rparr>)
           | Inr None \<Rightarrow> None
           | Inr (Some (None, q)) \<Rightarrow> Some (set_core i WEnd (c\<lparr>m_tasks := q\<rparr>))
           | Inr (Some (Some task, q)) \<Rightarrow> Some (set_core i (WJudge task) (c\<lparr>m_tasks := q\<rparr>)))
      | WJudge task \<Rightarrow>
          Some (set_core i (if fatal then WEnd else WSleep) (c\<lparr>c_judged := c_judged c @ [task]\<rparr>))
      | WSleep \<Rightarrow> Some (set_core i WGet c)
      | WEnd \<Rightarrow> None)"

inductive worker_step :: "'t JudgeCell \<Rightarrow> 't JudgeCell \<Rightarrow> bool" where
  "i < length (m_cores c) \<Longrightarrow> work_step fatal i c = Some c' \<Longrightarrow> worker_step c c'"

inductive cell_step :: "'t JudgeCell \<Rightarrow> 't JudgeCell \<Rightarrow> bool" where
  add_task: "cell_step c (JudgeCell_addTask t c)"
| stop_cell: "\<not> c_stopped c \<Longrightarrow> cell_step c (JudgeCell_stop c)"
| work: "worker_step c c' \<Longrightarrow> cell_step c c'"

inductive cell_reach :: "int \<Rightarrow> 't JudgeCell \<Rightarrow> bool" for n where
  "cell_reach n (JudgeCell_new n)"
| "cell_reach n c \<Longrightarrow> cell_step c c' \<Longrightarrow> cell_reach n c'"

inductive_cases worker_stepE: "worker_step c c'"

section \<open>Conservation of tasks\<close>

definition in_work :: "'t worker \<Rightarrow> 't list" where
  "in_work x = (case x of WJudge t \<Rightarrow> [t] | _ \<Rightarrow> [])"

definition working :: "'t JudgeCell \<Rightarrow> 't list" where
  "working c = concat (map in_work (m_cores c))"

definition queued :: "'t JudgeCell \<Rightarrow> 't list" where
  "queued c = List.map_filter (\<lambda>x. x) (m_pool (m_tasks c))"

lemma map_filter_simps [simp]:
  "List.map_filter f [] = []"
  "List.map_filter f (x # xs) = (case f x of None \<Rightarrow> List.map_filter f xs | Some y \<Rightarrow> y # List.map_filter f xs)"
  "List.map_filter f (xs @ ys) = List.map_filter f xs @ List.map_filter f ys"
  by (simp_all add: List.map_filter_def split: option.splits)

lemma working_update:
  "i < length ws \<Longrightarrow> mset (concat (map in_work (ws[i := x]))) + mset (in_work (ws ! i)) =
     mset (concat (map in_work ws)) + mset (in_work x)"
proof (induction ws arbitrary: i)
  case (Cons w ws)
  then show ?case by (cases i) (auto simp: ac_simps)
qed simp

definition pool_ok :: "'t TaskMgr \<Rightarrow> bool" where
  "pool_ok q \<longleftrightarrow> m_semap q \<le> length (m_pool q)"

lemma get_ok:
  assumes "pool_ok q"
  shows "TaskMgr_get q = Inr None \<and> m_semap q = 0 \<or>
    (\<exists>t q'. TaskMgr_get q = Inr (Some (t, q')) \<and> pool_ok q' \<and> m_pool q = t # m_pool q' \<and>
      m_semap q = Suc (m_semap q'))"
  using assms
  by (cases "m_pool q") (auto simp: TaskMgr_get_def ZSemaphore_pop_def pool_ok_def)

lemma stop_pool:
  "m_pool (fold (\<lambda>_. TaskMgr_addFront None) ws q) = replicate (length ws) None @ m_pool q \<and>
   m_semap (fold (\<lambda>_. TaskMgr_addFront None) ws q) =
     (if m_semap q \<le> SEMAPHORE_MAX then min SEMAPHORE_MAX (m_semap q + length ws) else m_semap q)"
proof (induction ws arbitrary: q)
  case (Cons w ws)
  have "replicate (length ws) None @ None # m_pool q = None # replicate (length ws) None @ m_pool q"
    by (simp add: replicate_app_Cons_same)
  with Cons show ?case
    by (auto simp: TaskMgr_addFront_def ZSemaphore_push_def)
qed auto

definition live :: "'t worker \<Rightarrow> bool" where
  "live x \<longleftrightarrow> x \<noteq> WEnd"

text \<open>
  The invariant: the semaphore never promises more than the list holds, no fault has happened, and
  every added task is queued, in work or judged.  Once the cell is stopped the queue starts with an
  empty task for every worker that is still live, and the semaphore lets them in.
\<close>

definition cell_inv :: "'t JudgeCell \<Rightarrow> bool" where
  "cell_inv c \<longleftrightarrow> pool_ok (m_tasks c) \<and> m_semap (m_tasks c) \<le> SEMAPHORE_MAX \<and> \<not> c_fault c \<and>
     mset (c_added c) = mset (c_judged c) + mset (working c) + mset (queued c) \<and>
     (c_stopped c \<and> length (m_cores c) \<le> SEMAPHORE_MAX \<longrightarrow>
        cnt live (m_cores c) \<le> m_semap (m_tasks c) \<and>
        (\<exists>k rest. m_pool (m_tasks c) = replicate k None @ rest \<and> cnt live (m_cores c) \<le> k))"

lemma cell_inv_new: "cell_inv (JudgeCell_new n)"
  by (auto simp: cell_inv_def JudgeCell_new_def pool_ok_def TaskMgr_new_def working_def queued_def
      in_work_def)

lemma cell_inv_add: "cell_inv c \<Longrightarrow> cell_inv (JudgeCell_addTask t c)"
proof -
  assume inv: "cell_inv c"
  have "\<exists>k' rest'. (replicate k None @ rest) @ [Some t] = replicate k' None @ rest' \<and> l \<le> k'"
    if "l \<le> k" for k l :: nat and rest
    using that by (intro exI [of _ k] exI [of _ "rest @ [Some t]"]) simp
  with inv show ?thesis
    by (auto simp: cell_inv_def JudgeCell_addTask_def TaskMgr_add_def ZSemaphore_push_def pool_ok_def
        working_def queued_def)
qed

lemma cell_inv_stop: "cell_inv c \<Longrightarrow> cell_inv (JudgeCell_stop c)"
proof -
  assume inv: "cell_inv c"
  let ?q = "fold (\<lambda>_. TaskMgr_addFront None) (m_cores c) (m_tasks c)"
  have pool: "m_pool ?q = replicate (length (m_cores c)) None @ m_pool (m_tasks c)"
    using stop_pool by blast
  have sem: "m_semap ?q = min SEMAPHORE_MAX (m_semap (m_tasks c) + length (m_cores c))"
    using stop_pool [of "m_cores c" "m_tasks c"] inv by (simp add: cell_inv_def)
  have none: "List.map_filter (\<lambda>x. x) (replicate k (None :: 'a option)) = []" for k
    by (induction k) auto
  have live: "cnt live (m_cores c) \<le> length (m_cores c)" by (rule cnt_le_length)
  then have "\<exists>k rest. m_pool ?q = replicate k None @ rest \<and> cnt live (m_cores c) \<le> k"
    using pool by blast
  with inv pool sem live none show ?thesis
    by (auto simp: cell_inv_def JudgeCell_stop_def pool_ok_def working_def queued_def)
qed

lemma set_core_working:
  assumes "i < length (m_cores c)"
  shows "mset (working (set_core i x c)) + mset (in_work (m_cores c ! i)) =
    mset (working c) + mset (in_work x)"
  using working_update [OF assms] by (simp add: working_def set_core_def)

lemma set_core_simps [simp]:
  "m_tasks (set_core i x c) = m_tasks c" "c_stopped (set_core i x c) = c_stopped c"
  "c_fault (set_core i x c) = c_fault c" "c_added (set_core i x c) = c_added c"
  "c_judged (set_core i x c) = c_judged c" "queued (set_core i x c) = queued c"
  "m_cores (set_core i x c) = (m_cores c)[i := x]"
  by (simp_all add: set_core_def queued_def)

lemma working_frame [simp]:
  "working (c\<lparr>m_tasks := q\<rparr>) = working c" "working (c\<lparr>c_judged := js\<rparr>) = working c"
  "queued (c\<lparr>c_judged := js\<rparr>) = queued c"
  by (simp_all add: working_def queued_def)

lemma live_update:
  "i < length ws \<Longrightarrow> cnt live (ws[i := x]) + (if live (ws ! i) then 1 else 0) =
     cnt live ws + (if live x then 1 else 0)"
  using cnt_update [of i ws live x] by simp

lemma cell_inv_take:
  assumes inv: "cell_inv c" and i: "i < length (m_cores c)" and w: "m_cores c ! i = WGet"
    and get: "TaskMgr_get (m_tasks c) = Inr (Some (t, q))"
  shows "cell_inv (set_core i (case t of None \<Rightarrow> WEnd | Some task \<Rightarrow> WJudge task) (c\<lparr>m_tasks := q\<rparr>))"
    and "c_stopped c \<Longrightarrow> length (m_cores c) \<le> SEMAPHORE_MAX \<Longrightarrow> t = None"
proof -
  let ?x = "case t of None \<Rightarrow> WEnd | Some task \<Rightarrow> WJudge task"
  from get_ok [of "m_tasks c"] get inv have
    q: "pool_ok q" "m_pool (m_tasks c) = t # m_pool q" "m_semap (m_tasks c) = Suc (m_semap q)"
    by (auto simp: cell_inv_def)
  have lw: "live (m_cores c ! i)" using w by (simp add: live_def)
  have pos: "0 < cnt live (m_cores c)" using i lw by (rule cnt_pos)
  have head: "t = None" if s: "c_stopped c" "length (m_cores c) \<le> SEMAPHORE_MAX"
  proof -
    from inv s obtain k rest where k: "m_pool (m_tasks c) = replicate k None @ rest"
      "cnt live (m_cores c) \<le> k" by (auto simp: cell_inv_def)
    with pos obtain k' where "k = Suc k'" by (cases k) auto
    with k q(2) show ?thesis by simp
  qed
  then show "c_stopped c \<Longrightarrow> length (m_cores c) \<le> SEMAPHORE_MAX \<Longrightarrow> t = None" .
  have work: "mset (working (set_core i ?x (c\<lparr>m_tasks := q\<rparr>))) = mset (working c) + mset (in_work ?x)"
    using set_core_working [of i "c\<lparr>m_tasks := q\<rparr>" ?x] i w by (simp add: in_work_def)
  have queue: "mset (queued c) = mset (queued (c\<lparr>m_tasks := q\<rparr>)) + mset (in_work ?x)"
    using q(2) by (cases t) (simp_all add: queued_def in_work_def)
  have stop: "cnt live ((m_cores c)[i := ?x]) \<le> m_semap q \<and>
      (\<exists>k rest. m_pool q = replicate k None @ rest \<and> cnt live ((m_cores c)[i := ?x]) \<le> k)"
    if s: "c_stopped c" "length (m_cores c) \<le> SEMAPHORE_MAX"
  proof -
    from head [OF s] have x: "?x = WEnd" by simp
    have less: "Suc (cnt live ((m_cores c)[i := ?x])) = cnt live (m_cores c)"
      using live_update [OF i, of ?x] lw x by (simp add: live_def)
    from inv s obtain k rest where k: "m_pool (m_tasks c) = replicate k None @ rest"
      "cnt live (m_cores c) \<le> k" and sem: "cnt live (m_cores c) \<le> m_semap (m_tasks c)"
      by (auto simp: cell_inv_def)
    with pos obtain k' where "k = Suc k'" by (cases k) auto
    with k q less sem show ?thesis by (auto intro!: exI [of _ k'])
  qed
  show "cell_inv (set_core i ?x (c\<lparr>m_tasks := q\<rparr>))"
    using inv q work queue stop by (simp add: cell_inv_def)
qed

lemma cell_inv_work:
  assumes inv: "cell_inv c" and i: "i < length (m_cores c)" and step: "work_step fatal i c = Some c'"
  shows "cell_inv c'"
proof (cases "m_cores c ! i")
  case WGet
  from get_ok [of "m_tasks c"] inv step WGet obtain t q where
    get: "TaskMgr_get (m_tasks c) = Inr (Some (t, q))"
    by (auto simp: work_step_def cell_inv_def)
  with step WGet have "c' = set_core i (case t of None \<Rightarrow> WEnd | Some task \<Rightarrow> WJudge task) (c\<lparr>m_tasks := q\<rparr>)"
    by (cases t) (simp_all add: work_step_def)
  with cell_inv_take(1) [OF inv i WGet get] show ?thesis by simp
next
  case (WJudge task)
  let ?x = "if fatal then WEnd else WSleep"
  from WJudge step have c': "c' = set_core i ?x (c\<lparr>c_judged := c_judged c @ [task]\<rparr>)"
    by (simp add: work_step_def)
  have work: "mset (working c') + {#task#} = mset (working c)"
    using set_core_working [of i "c\<lparr>c_judged := c_judged c @ [task]\<rparr>" ?x] i WJudge c'
    by (simp add: in_work_def)
  have "cnt live ((m_cores c)[i := ?x]) \<le> cnt live (m_cores c)"
    using live_update [OF i, of ?x] WJudge by (simp add: live_def split: if_splits)
  with inv c' work show ?thesis
    by (auto simp: cell_inv_def intro: le_trans)
next
  case WSleep
  with step have c': "c' = set_core i WGet c" by (simp add: work_step_def)
  have "mset (working c') = mset (working c)"
    using set_core_working [OF i, of WGet] WSleep c' by (simp add: in_work_def)
  moreover have "cnt live ((m_cores c)[i := WGet]) = cnt live (m_cores c)"
    using live_update [OF i, of WGet] WSleep by (simp add: live_def)
  ultimately show ?thesis using inv c' by (simp add: cell_inv_def)
next
  case WEnd
  with step show ?thesis by (simp add: work_step_def)
qed

lemma cell_inv_step: "cell_step c c' \<Longrightarrow> cell_inv c \<Longrightarrow> cell_inv c'"
  by (induction rule: cell_step.induct)
    (auto intro: cell_inv_add cell_inv_stop cell_inv_work elim: worker_stepE)

lemma cell_inv_reach: "cell_reach n c \<Longrightarrow> cell_inv c"
  by (induction rule: cell_reach.induct) (auto intro: cell_inv_new cell_inv_step)

lemma work_step_cores:
  assumes "i < length (m_cores c)" "work_step fatal i c = Some c'"
  shows "length (m_cores c') = length (m_cores c) \<and> c_stopped c' = c_stopped c"
  using assms by (auto simp: work_step_def split: worker.splits sum.splits option.splits prod.splits)

lemma reach_cores: "cell_reach n c \<Longrightarrow> length (m_cores c) = nat n"
proof (induction rule: cell_reach.induct)
  case (2 c c')
  from 2(2,3) show ?case
    by (induction rule: cell_step.induct)
      (auto simp: JudgeCell_addTask_def JudgeCell_stop_def elim!: worker_stepE dest!: work_step_cores)
qed (simp add: JudgeCell_new_def)

section \<open>Stopping\<close>

text \<open>How many steps a worker still takes once the cell is stopped.\<close>

fun rank :: "'t worker \<Rightarrow> nat" where
  "rank WEnd = 0" | "rank WGet = 1" | "rank WSleep = 2" | "rank (WJudge t) = 3"

definition cell_rank :: "'t JudgeCell \<Rightarrow> nat" where
  "cell_rank c = sum_list (map rank (m_cores c))"

lemma sum_map_update:
  "i < length xs \<Longrightarrow> sum_list (map f (xs[i := y])) + f (xs ! i) = sum_list (map f xs) + (f y :: nat)"
proof (induction xs arbitrary: i)
  case (Cons x xs)
  then show ?case by (cases i) auto
qed simp

lemma sum_list_update_less:
  "i < length xs \<Longrightarrow> f y < f (xs ! i) \<Longrightarrow> sum_list (map f (xs[i := y])) < sum_list (map f xs :: nat list)"
  using sum_map_update [of i xs f y] by linarith

lemma stopped_step_rank:
  assumes inv: "cell_inv c" and s: "c_stopped c" "length (m_cores c) \<le> SEMAPHORE_MAX"
    and i: "i < length (m_cores c)" and step: "work_step fatal i c = Some c'"
  shows "cell_rank c' < cell_rank c"
proof (cases "m_cores c ! i")
  case WGet
  from get_ok [of "m_tasks c"] inv step WGet obtain t q where
    get: "TaskMgr_get (m_tasks c) = Inr (Some (t, q))"
    by (auto simp: work_step_def cell_inv_def)
  with cell_inv_take(2) [OF inv i WGet get s] step WGet show ?thesis
    using sum_list_update_less [OF i, of rank WEnd] by (auto simp: work_step_def cell_rank_def)
next
  case (WJudge task)
  with step show ?thesis
    using sum_list_update_less [OF i, of rank "if fatal then WEnd else WSleep"]
    by (auto simp: work_step_def cell_rank_def)
next
  case WSleep
  with step show ?thesis
    using sum_list_update_less [OF i, of rank WGet] by (auto simp: work_step_def cell_rank_def)
qed (use step in \<open>simp add: work_step_def\<close>)

lemma stopped_progress:
  assumes inv: "cell_inv c" and s: "c_stopped c" "length (m_cores c) \<le> SEMAPHORE_MAX"
    and i: "i < length (m_cores c)" and l: "live (m_cores c ! i)"
  shows "\<exists>c'. work_step fatal i c = Some c'"
proof (cases "m_cores c ! i")
  case WGet
  have "0 < cnt live (m_cores c)" using i l by (rule cnt_pos)
  with inv s have "m_semap (m_tasks c) \<noteq> 0" by (auto simp: cell_inv_def)
  with get_ok [of "m_tasks c"] inv obtain t q where "TaskMgr_get (m_tasks c) = Inr (Some (t, q))"
    by (auto simp: cell_inv_def)
  with WGet show ?thesis by (cases t) (simp_all add: work_step_def)
qed (use l in \<open>simp_all add: work_step_def live_def\<close>)

text \<open>
  Letting the workers run: each turn names a worker and the outcome of its judgement; turns of
  workers that cannot move are skipped.
\<close>

fun run_workers :: "(nat \<times> bool) list \<Rightarrow> 't JudgeCell \<Rightarrow> 't JudgeCell" where
  "run_workers [] c = c"
| "run_workers ((i, fatal) # ts) c =
     run_workers ts (if i < length (m_cores c)
       then (case work_step fatal i c of None \<Rightarrow> c | Some c' \<Rightarrow> c') else c)"

definition all_ended :: "'t JudgeCell \<Rightarrow> bool" where
  "all_ended c \<longleftrightarrow> list_all (\<lambda>x. \<not> live x) (m_cores c)"

lemma stop_terminates:
  assumes "cell_inv c" "c_stopped c" "length (m_cores c) \<le> SEMAPHORE_MAX"
  shows "\<exists>ts. length ts \<le> cell_rank c \<and> all_ended (run_workers ts c)"
  using assms
proof (induction "cell_rank c" arbitrary: c rule: less_induct)
  case less
  show ?case
  proof (cases "all_ended c")
    case True
    then show ?thesis by (intro exI [of _ "[]"]) simp
  next
    case False
    then obtain i where i: "i < length (m_cores c)" "live (m_cores c ! i)"
      by (auto simp: all_ended_def list_all_length)
    from stopped_progress [OF less.prems i, of False] obtain c' where c': "work_step False i c = Some c'" by blast
    have rank: "cell_rank c' < cell_rank c" using less.prems i(1) c' by (rule stopped_step_rank)
    have "cell_inv c'" using less.prems(1) i(1) c' by (rule cell_inv_work)
    with less.hyps [OF rank] less.prems work_step_cores [OF i(1) c'] obtain ts where
      "length ts \<le> cell_rank c'" "all_ended (run_workers ts c')" by auto
    with i(1) c' rank show ?thesis by (intro exI [of _ "(i, False) # ts"]) simp
  qed
qed

lemma stopped_worker_step:
  assumes "cell_inv c" "c_stopped c" "length (m_cores c) \<le> SEMAPHORE_MAX" "worker_step c c'"
  shows "cell_rank c' < cell_rank c"
  using assms by (auto elim!: worker_stepE intro: stopped_step_rank)

section \<open>Properties\<close>

text \<open>
  C10: in every reachable state of the cell each task that was added is queued, with one worker, or
  judged, with its multiplicity; and no worker has taken from an empty list.
\<close>

theorem cell_conserves_tasks:
  assumes "cell_reach n c"
  shows "mset (c_added c) = mset (c_judged c) + mset (working c) + mset (queued c) \<and> \<not> c_fault c"
  using cell_inv_reach [OF assms] by (simp add: cell_inv_def)


text \<open>Two workers, one task queued, then stopped.\<close>

definition stopped_cell :: "nat JudgeCell" where
  "stopped_cell = JudgeCell_stop (JudgeCell_addTask 7 (JudgeCell_new 2))"

lemma stopped_cell_reached: "cell_reach 2 stopped_cell"
proof -
  have "cell_reach 2 (JudgeCell_addTask (7 :: nat) (JudgeCell_new 2))"
    by (rule cell_reach.intros(2) [OF cell_reach.intros(1) cell_step.add_task])
  moreover have "\<not> c_stopped (JudgeCell_addTask (7 :: nat) (JudgeCell_new 2))"
    by (simp add: JudgeCell_addTask_def JudgeCell_new_def)
  ultimately show ?thesis
    unfolding stopped_cell_def by (blast intro: cell_reach.intros cell_step.stop_cell)
qed

theorem cell_conserves_tasks_witness:
  "mset (c_added stopped_cell) = mset (c_judged stopped_cell) + mset (working stopped_cell) +
     mset (queued stopped_cell) \<and> \<not> c_fault stopped_cell"
  by (rule cell_conserves_tasks [OF stopped_cell_reached])


end
