(* ===== verification/Database.thy ===== *)
theory Database
  imports Tasks TaskQueue
begin

text \<open>
  Access to the database: \<open>ZMySql\<close>, \<open>ZMySqlRes\<close> and \<open>ZMysqlRow\<close> of src/acm/ZMySql.cpp and
  Commen/ZMySql.h.  The client library is not part of src/; its calls extend the record of
  platform functions.  A result set is the list of its field names and the rows not yet fetched;
  a column that is NULL in the database is a null pointer in the row.
\<close>

section \<open>The client library\<close>

record MYSQL_RES =
  res_fields :: "string list"
  res_rows :: "string option list list"

record 'w db_api = "'w file_api" +
  mysql_library_init :: "'w \<Rightarrow> int \<times> 'w"
  mysql_library_end :: "'w \<Rightarrow> unit \<times> 'w"
  mysql_options :: "int \<Rightarrow> string \<Rightarrow> 'w \<Rightarrow> int \<times> 'w"
  mysql_init :: "'w \<Rightarrow> bool \<times> 'w"
  mysql_real_connect :: "string \<Rightarrow> string \<Rightarrow> string \<Rightarrow> string \<Rightarrow> int \<Rightarrow> 'w \<Rightarrow> bool \<times> 'w"
  mysql_select_db :: "string \<Rightarrow> 'w \<Rightarrow> int \<times> 'w"
  mysql_close :: "'w \<Rightarrow> unit \<times> 'w"
  mysql_real_query :: "string \<Rightarrow> 'w \<Rightarrow> int \<times> 'w"
  mysql_store_result :: "'w \<Rightarrow> MYSQL_RES option \<times> 'w"
  mysql_real_escape_string :: "string \<Rightarrow> string"
  mysql_free_result :: "MYSQL_RES \<Rightarrow> 'w \<Rightarrow> unit \<times> 'w"
  mysql_errno :: "'w \<Rightarrow> int"
  mysql_error :: "'w \<Rightarrow> string"
  mysql_affected_rows :: "'w \<Rightarrow> 64 word"
  mysql_insert_id :: "'w \<Rightarrow> 64 word"

section \<open>Rows and results\<close>

fun ZMysqlRow_new :: "string option list \<Rightarrow> StringTool list outcome" where
  "ZMysqlRow_new [] = Inr []"
| "ZMysqlRow_new (v # vs) =
     bind_outcome (StringTool_setText v \<lparr>st_value = ''''\<rparr>) (\<lambda>x.
       bind_outcome (ZMysqlRow_new vs) (\<lambda>xs. Inr (x # xs)))"

definition ZMysqlRow_col :: "StringTool list \<Rightarrow> nat \<Rightarrow> StringTool outcome" where
  "ZMysqlRow_col row i = (if i < length row then Inr (row ! i) else Inl OutOfRange)"

definition ZMySqlRes_rows :: "MYSQL_RES \<Rightarrow> nat" where
  "ZMySqlRes_rows res = length (res_rows res)"

definition ZMySqlRes_cols :: "MYSQL_RES \<Rightarrow> int" where
  "ZMySqlRes_cols res = int (length (res_fields res))"

definition ZMySqlRes_getField :: "MYSQL_RES \<Rightarrow> int \<Rightarrow> string outcome" where
  "ZMySqlRes_getField res i =
     (if i \<ge> 0 \<and> i < ZMySqlRes_cols res then Inr (res_fields res ! nat i) else Inl AssertionFailed)"

text \<open>The loop of \<open>fieldIndex\<close>, with the number of fields that are left.\<close>

fun fieldIndex_from :: "string list \<Rightarrow> int \<Rightarrow> string \<Rightarrow> int" where
  "fieldIndex_from [] i field = - 1"
| "fieldIndex_from (f # fs) i field = (if field = f then i else fieldIndex_from fs (i + 1) field)"

definition ZMySqlRes_fieldIndex :: "MYSQL_RES \<Rightarrow> string \<Rightarrow> int" where
  "ZMySqlRes_fieldIndex res field = fieldIndex_from (res_fields res) 0 field"

definition ZMySqlRes_fetchRow :: "MYSQL_RES \<Rightarrow> (StringTool list option \<times> MYSQL_RES) outcome" where
  "ZMySqlRes_fetchRow res =
     (case res_rows res of
        [] \<Rightarrow> Inr (None, res)
      | r # rs \<Rightarrow> bind_outcome (ZMysqlRow_new r) (\<lambda>row. Inr (Some row, res\<lparr>res_rows := rs\<rparr>)))"

lemma fieldIndex_from_spec:
  "fieldIndex_from fs i f = (case find_first_of f fs of None \<Rightarrow> - 1 | Some k \<Rightarrow> i + int k)"
  by (induction fs arbitrary: i) (auto split: option.splits)

section \<open>The connection\<close>

definition ZMySql_loadService :: "('w, 'x) db_api_scheme \<Rightarrow> 'w \<Rightarrow> bool \<times> 'w" where
  "ZMySql_loadService api w = (let (r, w1) = mysql_library_init api w in (r = 0, w1))"

definition ZMySql_unloadService :: "('w, 'x) db_api_scheme \<Rightarrow> 'w \<Rightarrow> unit \<times> 'w" where
  "ZMySql_unloadService api w = mysql_library_end api w"

definition ZMySql_setOption :: "('w, 'x) db_api_scheme \<Rightarrow> int \<Rightarrow> string \<Rightarrow> 'w \<Rightarrow> bool \<times> 'w" where
  "ZMySql_setOption api opt arg w = (let (r, w1) = mysql_options api opt (c_str arg) w in (r = 0, w1))"

text \<open>\<open>MYSQL_SET_CHARSET_NAME\<close> is the eighth option of the library.\<close>

definition ZMySql_setCharSet :: "('w, 'x) db_api_scheme \<Rightarrow> string \<Rightarrow> 'w \<Rightarrow> bool \<times> 'w" where
  "ZMySql_setCharSet api charset w = ZMySql_setOption api 7 (c_str charset) w"

definition ZMySql_connect ::
    "('w, 'x) db_api_scheme \<Rightarrow> string \<Rightarrow> int \<Rightarrow> string \<Rightarrow> string \<Rightarrow> string \<Rightarrow> 'w \<Rightarrow> bool \<times> 'w" where
  "ZMySql_connect api host port user passwd db w =
     (let (ok, w1) = mysql_init api w
      in if \<not> ok then (False, w1)
         else mysql_real_connect api (c_str host) (c_str user) (c_str passwd) (c_str db) port w1)"

definition ZMySql_selectDB :: "('w, 'x) db_api_scheme \<Rightarrow> string \<Rightarrow> 'w \<Rightarrow> bool \<times> 'w" where
  "ZMySql_selectDB api db w = (let (r, w1) = mysql_select_db api (c_str db) w in (r = 0, w1))"

definition ZMySql_disconect :: "('w, 'x) db_api_scheme \<Rightarrow> 'w \<Rightarrow> bool \<times> 'w" where
  "ZMySql_disconect api w = (let (_, w1) = mysql_close api w in (True, w1))"

definition ZMySql_query :: "('w, 'x) db_api_scheme \<Rightarrow> string \<Rightarrow> 'w \<Rightarrow> bool \<times> 'w" where
  "ZMySql_query api sql w = (let (r, w1) = mysql_real_query api sql w in (r = 0, w1))"

definition ZMySql_storeResult :: "('w, 'x) db_api_scheme \<Rightarrow> 'w \<Rightarrow> MYSQL_RES option \<times> 'w" where
  "ZMySql_storeResult api w = mysql_store_result api w"

text \<open>A result is freed with the object that holds it, at most once.\<close>

definition ZMySqlRes_destroy :: "('w, 'x) db_api_scheme \<Rightarrow> MYSQL_RES option \<Rightarrow> 'w \<Rightarrow> MYSQL_RES option \<times> 'w" where
  "ZMySqlRes_destroy api held w =
     (case held of None \<Rightarrow> (None, w) | Some r \<Rightarrow> (let (_, w1) = mysql_free_result api r w in (None, w1)))"

definition ZMySql_errorNo :: "('w, 'x) db_api_scheme \<Rightarrow> 'w \<Rightarrow> int" where
  "ZMySql_errorNo api w = mysql_errno api w"

definition ZMySql_error :: "('w, 'x) db_api_scheme \<Rightarrow> 'w \<Rightarrow> string" where
  "ZMySql_error api w = c_str (mysql_error api w)"

definition ZMySql_getAffectedRows :: "('w, 'x) db_api_scheme \<Rightarrow> 'w \<Rightarrow> 64 word" where
  "ZMySql_getAffectedRows api w = mysql_affected_rows api w"

definition ZMySql_getInsertID :: "('w, 'x) db_api_scheme \<Rightarrow> 'w \<Rightarrow> 64 word" where
  "ZMySql_getInsertID api w = mysql_insert_id api w"

lemma destroyed_twice:
  "ZMySqlRes_destroy api (fst (ZMySqlRes_destroy api r w)) w' = (None, w')"
  by (simp add: ZMySqlRes_destroy_def case_prod_beta split: option.split)

text \<open>The buffer of twice the length is filled with NUL before the call, and cut at its first NUL after it.\<close>

definition ZMySql_escapeString :: "('w, 'x) db_api_scheme \<Rightarrow> string \<Rightarrow> string" where
  "ZMySql_escapeString api str =
     trimPartString (mysql_real_escape_string api str @
        replicate (2 * length str - length (mysql_real_escape_string api str)) (CHR 0x00)) (CHR 0x00)"

lemma c_str_append_nul: "c_str (s @ replicate n (CHR 0x00)) = c_str s"
  by (cases n) (simp_all add: c_str_def takeWhile_tail)

lemma escapeString_c_str: "ZMySql_escapeString api s = c_str (mysql_real_escape_string api s)"
  by (simp add: ZMySql_escapeString_def trimPartString_NUL c_str_append_nul)

end
