(* ===== verification/DBManager.thy ===== *)
theory DBManager
  imports Database
begin

text \<open>
  The database manager of src/Judger/DBManager.cpp and DBManager.h: a thread that reads pending
  submissions and a thread that writes finished ones.  The SQL texts are those of the source;
  \<open>sprintf_s\<close> into a buffer of 1024 characters ends the program when a text does not fit.
  \<open>wc\<close> and \<open>mb\<close> stand for the conversions between the two kinds of text.
\<close>

section \<open>The statements\<close>

definition sqlSelectProblem :: string where
  "sqlSelectProblem = ''SELECT solution.solution_id, solution.problem_id, '' @
     ''solution.user_id, solution.language, '' @
     ''problem.time_limit, problem.memory_limit, solution.result '' @
     ''FROM solution, problem '' @
     ''WHERE solution.problem_id = problem.problem_id and '' @
     ''(solution.result=%d or solution.result=%d) limit 20''"

definition sqlUpdateSolutionCompiling :: string where
  "sqlUpdateSolutionCompiling = ''UPDATE `solution` SET `result`=%d '' @ ''WHERE `solution_id` = %d''"

definition sqlUpdateSolution :: string where
  "sqlUpdateSolution = ''UPDATE `solution` SET `result`=%d, `time`=%d, '' @
     ''`memory`=%d, `judgetime`=NOW(), `pass_rate`=%f '' @ ''WHERE `solution_id` = %d''"

definition sqlSelectCode :: string where
  "sqlSelectCode = ''SELECT source FROM source_code WHERE solution_id=%d''"

definition sqlDeleteCompile :: string where
  "sqlDeleteCompile = ''DELETE FROM `compileinfo` WHERE `solution_id`=%d''"

definition sqlInsertCompile :: string where
  "sqlInsertCompile = ''INSERT INTO `compileinfo`(solution_id, error)VALUES(%d, '' @
     [CHR 0x22] @ ''%s'' @ [CHR 0x22] @ '')''"

definition sqlUpdateUserSolved :: string where
  "sqlUpdateUserSolved = ''UPDATE `users` SET `solved`='' @
     ''(SELECT count(DISTINCT `problem_id`) FROM `solution` WHERE `user_id`='' @ [CHR 0x27] @ ''%s'' @
     [CHR 0x27] @ '' AND `result`=%d) '' @ ''WHERE `user_id`='' @ [CHR 0x27] @ ''%s'' @ [CHR 0x27]"

definition sqlUpdateUserSubmit :: string where
  "sqlUpdateUserSubmit = ''UPDATE `users` SET `submit`='' @
     ''(SELECT count(*) FROM `solution` WHERE `user_id`='' @ [CHR 0x27] @ ''%s'' @ [CHR 0x27] @ '') '' @
     ''WHERE `user_id`='' @ [CHR 0x27] @ ''%s'' @ [CHR 0x27]"

definition sqlUpdateProblemAccept :: string where
  "sqlUpdateProblemAccept = ''UPDATE `problem` SET `accepted`='' @
     ''(SELECT count(*) FROM `solution` WHERE `problem_id`='' @ [CHR 0x27] @ ''%d'' @ [CHR 0x27] @
     '' AND `result`='' @ [CHR 0x27] @ ''%d'' @ [CHR 0x27] @ '') '' @
     ''WHERE `problem_id`='' @ [CHR 0x27] @ ''%d'' @ [CHR 0x27]"

definition sqlUpdateProblemSubmit :: string where
  "sqlUpdateProblemSubmit = ''UPDATE `problem` SET `submit`='' @
     ''(SELECT count(*) FROM `solution` WHERE `problem_id`='' @ [CHR 0x27] @ ''%d'' @ [CHR 0x27] @ '')'' @
     ''WHERE `problem_id`='' @ [CHR 0x27] @ ''%d'' @ [CHR 0x27]"

section \<open>Writing a finished task\<close>

text \<open>\<open>ECHO_SQL_ERROR\<close> logs a failed statement and goes on.\<close>

definition send_sql :: "('w, 'x) db_api_scheme \<Rightarrow> string outcome \<Rightarrow> ('w, bool) eff" where
  "send_sql api sql = ebind (lift sql) (\<lambda>buffer. call (ZMySql_query api (c_str buffer)))"

definition sql_1024 :: "string \<Rightarrow> fmt_arg list \<Rightarrow> string outcome" where
  "sql_1024 fmt args = sprintf_s 1024 fmt args"

definition updateSolution :: "('w, 'x) db_api_scheme \<Rightarrow> TaskBase \<Rightarrow> ('w, unit) eff" where
  "updateSolution api task =
     ebind (send_sql api (sql_1024 sqlUpdateSolution
       [ArgInt (m_result task), ArgInt (m_runTime task), ArgInt (m_runMemory task),
        ArgFloat (m_passRate task), ArgInt (m_solutionID task)])) (\<lambda>_. ret ())"

definition updateProblem :: "Config \<Rightarrow> ('w, 'x) db_api_scheme \<Rightarrow> TaskBase \<Rightarrow> ('w, unit) eff" where
  "updateProblem config api task =
     ebind (send_sql api (sql_1024 sqlUpdateProblemAccept
       [ArgInt (m_problemID task), ArgInt (JE_ACCEPT config), ArgInt (m_problemID task)])) (\<lambda>_.
     ebind (send_sql api (sql_1024 sqlUpdateProblemSubmit
       [ArgInt (m_problemID task), ArgInt (m_problemID task)])) (\<lambda>_. ret ()))"

definition updateUser ::
    "(string \<Rightarrow> string) \<Rightarrow> Config \<Rightarrow> ('w, 'x) db_api_scheme \<Rightarrow> TaskBase \<Rightarrow> ('w, unit) eff" where
  "updateUser wc config api task =
     (let userName = c_str (wcharToChar wc (m_userName task))
      in ebind (send_sql api (sql_1024 sqlUpdateUserSolved
           [ArgStr userName, ArgInt (JE_ACCEPT config), ArgStr userName])) (\<lambda>_.
         ebind (send_sql api (sql_1024 sqlUpdateUserSubmit [ArgStr userName, ArgStr userName])) (\<lambda>_. ret ())))"

definition updateInfo ::
    "(string \<Rightarrow> string) \<Rightarrow> Config \<Rightarrow> ('w, 'x) db_api_scheme \<Rightarrow> TaskBase \<Rightarrow> ('w, unit) eff" where
  "updateInfo wc config api task =
     ebind (send_sql api (sql_1024 sqlDeleteCompile [ArgInt (m_solutionID task)])) (\<lambda>_.
       if m_result task = JE_COMPLIE config
       then
         let errorStr = ZMySql_escapeString api (wcharToChar wc (m_compileErrorStr task))
         in ebind (send_sql api (sql_1024 sqlInsertCompile
              [ArgInt (m_solutionID task), ArgStr (c_str errorStr)])) (\<lambda>_. ret ())
       else ret ())"

definition write_task ::
    "(string \<Rightarrow> string) \<Rightarrow> Config \<Rightarrow> ('w, 'x) db_api_scheme \<Rightarrow> TaskBase \<Rightarrow> ('w, unit) eff" where
  "write_task wc config api task =
     ebind (updateSolution api task) (\<lambda>_.
     ebind (updateUser wc config api task) (\<lambda>_.
     ebind (updateProblem config api task) (\<lambda>_. updateInfo wc config api task)))"

section \<open>The manager and its write thread\<close>

record DBManager =
  m_running :: bool
  m_finishTask :: "TaskBase option TaskMgr"

definition DBManager_new :: DBManager where
  "DBManager_new = \<lparr>m_running = True, m_finishTask = TaskMgr_new\<rparr>"

definition addFinishTask :: "TaskBase \<Rightarrow> DBManager \<Rightarrow> DBManager" where
  "addFinishTask task m = m\<lparr>m_finishTask := TaskMgr_add (Some task) (m_finishTask m)\<rparr>"

text \<open>\<open>stop\<close> up to the point where it waits for the two threads.\<close>

definition DBManager_stop :: "DBManager \<Rightarrow> DBManager" where
  "DBManager_stop m = m\<lparr>m_running := False, m_finishTask := TaskMgr_addFront None (m_finishTask m)\<rparr>"

text \<open>
  One turn of the write loop: \<open>Ended\<close> when the loop is left, \<open>Waiting\<close> when \<open>get\<close> waits,
  \<open>Turned\<close> when a task was written.
\<close>

datatype turn = Ended | Waiting | Turned

definition doWrite_turn ::
    "(string \<Rightarrow> string) \<Rightarrow> Config \<Rightarrow> ('w, 'x) db_api_scheme \<Rightarrow> DBManager \<Rightarrow> ('w, turn \<times> DBManager) eff" where
  "doWrite_turn wc config api m =
     (if \<not> m_running m then ret (Ended, m)
      else
        case TaskMgr_get (m_finishTask m) of
          Inl f \<Rightarrow> throw f
        | Inr None \<Rightarrow> ret (Waiting, m)
        | Inr (Some (None, q)) \<Rightarrow> ret (Ended, m\<lparr>m_finishTask := q\<rparr>)
        | Inr (Some (Some task, q)) \<Rightarrow>
            ebind (write_task wc config api task) (\<lambda>_. ret (Turned, m\<lparr>m_finishTask := q\<rparr>)))"

section \<open>The read thread\<close>

text \<open>Every early return of \<open>tryLoadCode\<close> leaves the task without a source file.\<close>

definition tryLoadCode ::
    "(string \<Rightarrow> string) \<Rightarrow> ('w, 'x) db_api_scheme \<Rightarrow> TaskBase \<Rightarrow> ('w, unit) eff" where
  "tryLoadCode wc api task =
     ebind (send_sql api (sql_1024 sqlSelectCode [ArgInt (m_solutionID task)])) (\<lambda>ok.
       if \<not> ok then ret ()
       else ebind (call (ZMySql_storeResult api)) (\<lambda>res.
         case res of
           None \<Rightarrow> ret ()
         | Some r \<Rightarrow>
             ebind (lift (ZMySqlRes_fetchRow r)) (\<lambda>(rowData, _).
               case rowData of
                 None \<Rightarrow> ret ()
               | Some row \<Rightarrow>
                   ebind (lift (ZMysqlRow_col row 0)) (\<lambda>code.
                   ebind (call (makeDir api (getFilePath (m_codeFile task)))) (\<lambda>_.
                   ebind (call (write_file api (c_str (wcharToChar wc (m_codeFile task)))
                       (StringTool_asString code))) (\<lambda>_. ret ()))))))"

definition column_int :: "StringTool list \<Rightarrow> nat \<Rightarrow> int outcome" where
  "column_int row i = bind_outcome (ZMysqlRow_col row i) (\<lambda>c. Inr (StringTool_asInt c))"

definition row_task ::
    "(string \<Rightarrow> string) \<Rightarrow> Config \<Rightarrow> ('w, 'x) db_api_scheme \<Rightarrow> StringTool list \<Rightarrow> ('w, TaskBase) eff" where
  "row_task mb config api row =
     ebind (lift (ZMysqlRow_col row 2)) (\<lambda>c2.
     ebind (lift (column_int row 0)) (\<lambda>solution.
     ebind (lift (column_int row 1)) (\<lambda>problem.
     ebind (lift (column_int row 3)) (\<lambda>language.
     ebind (lift (column_int row 4)) (\<lambda>runtime.
     ebind (lift (column_int row 5)) (\<lambda>runmemory.
       TaskBase_new mb config api solution problem (charToWChar mb (StringTool_asString c2))
         language 10000 runtime runmemory))))))"

text \<open>\<open>recivCB\<close> is the callback that hands a task to the cell; a null pointer fails the assertion.\<close>

definition DBManager_onRecivTask :: "(TaskBase \<Rightarrow> ('w, unit) eff) option \<Rightarrow> TaskBase \<Rightarrow> ('w, unit) eff" where
  "DBManager_onRecivTask recivCB task =
     (case recivCB of None \<Rightarrow> throw AssertionFailed | Some cb \<Rightarrow> cb task)"

text \<open>
  The loop over the rows.  A failed update leaves the loop, with the rest of the rows unread.
\<close>

fun read_rows ::
    "(string \<Rightarrow> string) \<Rightarrow> (string \<Rightarrow> string) \<Rightarrow> Config \<Rightarrow> ('w, 'x) db_api_scheme \<Rightarrow>
       (TaskBase \<Rightarrow> ('w, unit) eff) option \<Rightarrow> string option list list \<Rightarrow> ('w, unit) eff" where
  "read_rows mb wc config api recivCB [] = ret ()"
| "read_rows mb wc config api recivCB (r # rs) =
     ebind (lift (ZMysqlRow_new r)) (\<lambda>row.
     ebind (row_task mb config api row) (\<lambda>task.
     ebind (tryLoadCode wc api task) (\<lambda>_.
     ebind (send_sql api (sql_1024 sqlUpdateSolutionCompiling
         [ArgInt (JE_COMPILING config), ArgInt (m_solutionID task)])) (\<lambda>ok.
       if \<not> ok then ret ()
       else ebind (DBManager_onRecivTask recivCB task) (\<lambda>_. read_rows mb wc config api recivCB rs)))))"

definition doRead_turn ::
    "(string \<Rightarrow> string) \<Rightarrow> (string \<Rightarrow> string) \<Rightarrow> Config \<Rightarrow> ('w, 'x) db_api_scheme \<Rightarrow>
       (TaskBase \<Rightarrow> ('w, unit) eff) option \<Rightarrow> DBManager \<Rightarrow> ('w, turn) eff" where
  "doRead_turn mb wc config api recivCB m =
     (if \<not> m_running m then ret Ended
      else
        ebind (call (Sleep api 1000)) (\<lambda>_.
        ebind (send_sql api (sql_1024 sqlSelectProblem
            [ArgInt (JE_PENDING config), ArgInt (JE_REJUDGE config)])) (\<lambda>ok.
          if \<not> ok then ret Ended
          else ebind (call (ZMySql_storeResult api)) (\<lambda>res.
            case res of
              None \<Rightarrow> ret Turned
            | Some r \<Rightarrow>
                ebind (read_rows mb wc config api recivCB (res_rows r)) (\<lambda>_. ret Turned)))))"

section \<open>The statements of one finished task\<close>

definition write_statements ::
    "(string \<Rightarrow> string) \<Rightarrow> Config \<Rightarrow> ('w, 'x) db_api_scheme \<Rightarrow> TaskBase \<Rightarrow> string outcome list" where
  "write_statements wc config api task =
     (let userName = c_str (wcharToChar wc (m_userName task))
      in [sql_1024 sqlUpdateSolution
            [ArgInt (m_result task), ArgInt (m_runTime task), ArgInt (m_runMemory task),
             ArgFloat (m_passRate task), ArgInt (m_solutionID task)],
          sql_1024 sqlUpdateUserSolved [ArgStr userName, ArgInt (JE_ACCEPT config), ArgStr userName],
          sql_1024 sqlUpdateUserSubmit [ArgStr userName, ArgStr userName],
          sql_1024 sqlUpdateProblemAccept
            [ArgInt (m_problemID task), ArgInt (JE_ACCEPT config), ArgInt (m_problemID task)],
          sql_1024 sqlUpdateProblemSubmit [ArgInt (m_problemID task), ArgInt (m_problemID task)],
          sql_1024 sqlDeleteCompile [ArgInt (m_solutionID task)]] @
         (if m_result task = JE_COMPLIE config
          then [sql_1024 sqlInsertCompile [ArgInt (m_solutionID task),
                  ArgStr (c_str (ZMySql_escapeString api (wcharToChar wc (m_compileErrorStr task))))]]
          else []))"

fun send_all :: "('w, 'x) db_api_scheme \<Rightarrow> string outcome list \<Rightarrow> ('w, unit) eff" where
  "send_all api [] = ret ()"
| "send_all api (x # xs) = ebind (send_sql api x) (\<lambda>_. send_all api xs)"

lemma write_task_statements:
  "write_task wc config api task = send_all api (write_statements wc config api task)"
  by (simp add: write_task_def updateSolution_def updateUser_def updateProblem_def updateInfo_def
      write_statements_def Let_def ebind_assoc)

definition run_query :: "('w, 'x) db_api_scheme \<Rightarrow> string \<Rightarrow> 'w \<Rightarrow> 'w" where
  "run_query api sql w = snd (mysql_real_query api (c_str sql) w)"

lemma send_all_run:
  "list_all (\<lambda>x. \<not> isl x) xs \<Longrightarrow> send_all api xs w = Inr ((), fold (run_query api) (map projr xs) w)"
proof (induction xs arbitrary: w)
  case Nil
  show ?case by (simp add: ret_def)
next
  case (Cons x xs)
  then obtain s where "x = Inr s" by (cases x) auto
  with Cons show ?case
    by (simp add: send_sql_def ebind_def lift_def call_def ZMySql_query_def run_query_def case_prod_beta Let_def)
qed

lemma length_show_fixed6: "0 \<le> r \<Longrightarrow> r \<le> 1 \<Longrightarrow> length (show_fixed6 r) \<le> 8"
proof -
  assume r: "0 \<le> r" "r \<le> 1"
  let ?m = "nat (round (r * 1000000))"
  have "round (r * 1000000) \<le> round (1000000 :: rat)" using r by (intro round_mono) simp
  then have "?m \<le> 1000000" by simp
  then have "?m div 1000000 < 10 ^ 1" by (simp add: div_less_iff_less_mult)
  then have "length (show_nat (?m div 1000000)) \<le> 1" by (intro length_show_nat) auto
  moreover have "length (show_nat (?m mod 1000000)) \<le> 6" by (intro length_show_nat) auto
  ultimately show ?thesis using r by (simp add: show_fixed6_def Let_def length_pad_zero)
qed

lemmas sql_texts = sqlUpdateSolution_def sqlUpdateUserSolved_def sqlUpdateUserSubmit_def
  sqlUpdateProblemAccept_def sqlUpdateProblemSubmit_def sqlDeleteCompile_def sqlInsertCompile_def

lemma format_isl:
  "c_format fmt args = Some s \<Longrightarrow> length s < 1024 \<Longrightarrow> \<not> isl (sql_1024 fmt args)"
  by (simp add: sql_1024_def sprintf_s_def)

text \<open>Formatting never yields more than the format and the shown arguments together.\<close>

definition arg_length :: "fmt_arg \<Rightarrow> nat" where
  "arg_length a =
     (case a of ArgInt i \<Rightarrow> length (show_int i) | ArgStr s \<Rightarrow> length s | ArgFloat r \<Rightarrow> length (show_fixed6 r))"

lemma show_arg_length: "show_arg d a = Some s \<Longrightarrow> length s = arg_length a"
  by (auto simp: show_arg_def arg_length_def split: fmt_arg.splits if_splits)

lemma c_format_length:
  "c_format fmt args = Some s \<Longrightarrow> length s \<le> length fmt + sum_list (map arg_length args)"
proof (induction fmt args arbitrary: s rule: c_format.induct)
  case (3 c d fs args)
  then show ?case
    by (fastforce split: if_splits list.splits option.splits dest: show_arg_length)
qed (auto split: if_splits)

lemma statement_fits:
  assumes "c_format fmt args \<noteq> None" "length fmt + sum_list (map arg_length args) < 1024"
  shows "\<not> isl (sql_1024 fmt args)"
proof -
  obtain s where s: "c_format fmt args = Some s" using assms(1) by blast
  with c_format_length [OF s] assms(2) have "length s < 1024" by linarith
  with s show ?thesis by (rule format_isl)
qed

lemma int_length: "is_int32 i \<Longrightarrow> arg_length (ArgInt i) \<le> 11"
  by (simp add: arg_length_def length_show_int)

section \<open>What a finished task does to the database\<close>

text \<open>The six statements of a task that has a result other than a compile error, as texts.\<close>

definition quoted :: "string \<Rightarrow> string" where
  "quoted s = [CHR 0x27] @ s @ [CHR 0x27]"

definition finished_statements :: "Config \<Rightarrow> string \<Rightarrow> TaskBase \<Rightarrow> string list" where
  "finished_statements config user task =
     [''UPDATE `solution` SET `result`='' @ show_int (m_result task) @
        '', `time`='' @ show_int (m_runTime task) @ '', `memory`='' @ show_int (m_runMemory task) @
        '', `judgetime`=NOW(), `pass_rate`='' @ show_fixed6 (m_passRate task) @
        '' WHERE `solution_id` = '' @ show_int (m_solutionID task),
      ''UPDATE `users` SET `solved`=(SELECT count(DISTINCT `problem_id`) FROM `solution` WHERE `user_id`='' @
        quoted user @ '' AND `result`='' @ show_int (JE_ACCEPT config) @ '') WHERE `user_id`='' @ quoted user,
      ''UPDATE `users` SET `submit`=(SELECT count(*) FROM `solution` WHERE `user_id`='' @
        quoted user @ '') WHERE `user_id`='' @ quoted user,
      ''UPDATE `problem` SET `accepted`=(SELECT count(*) FROM `solution` WHERE `problem_id`='' @
        quoted (show_int (m_problemID task)) @ '' AND `result`='' @ quoted (show_int (JE_ACCEPT config)) @
        '') WHERE `problem_id`='' @ quoted (show_int (m_problemID task)),
      ''UPDATE `problem` SET `submit`=(SELECT count(*) FROM `solution` WHERE `problem_id`='' @
        quoted (show_int (m_problemID task)) @ '')WHERE `problem_id`='' @
        quoted (show_int (m_problemID task)),
      ''DELETE FROM `compileinfo` WHERE `solution_id`='' @ show_int (m_solutionID task)]"

lemma c_str_twice: "c_str (c_str s) = c_str s"
  by (rule c_str_id) (auto simp: c_str_def dest: set_takeWhileD)

lemma solution_text:
  "c_format sqlUpdateSolution [ArgInt a, ArgInt b, ArgInt c, ArgFloat r, ArgInt d] =
     Some (''UPDATE `solution` SET `result`='' @ show_int a @ '', `time`='' @ show_int b @
        '', `memory`='' @ show_int c @ '', `judgetime`=NOW(), `pass_rate`='' @ show_fixed6 r @
        '' WHERE `solution_id` = '' @ show_int d)"
  by (simp add: sql_texts show_arg_def)

lemma user_texts:
  "c_format sqlUpdateUserSolved [ArgStr u, ArgInt a, ArgStr u] =
     Some (''UPDATE `users` SET `solved`=(SELECT count(DISTINCT `problem_id`) FROM `solution` WHERE `user_id`='' @
        quoted u @ '' AND `result`='' @ show_int a @ '') WHERE `user_id`='' @ quoted u)"
  "c_format sqlUpdateUserSubmit [ArgStr u, ArgStr u] =
     Some (''UPDATE `users` SET `submit`=(SELECT count(*) FROM `solution` WHERE `user_id`='' @
        quoted u @ '') WHERE `user_id`='' @ quoted u)"
  by (simp_all add: sql_texts show_arg_def quoted_def)

lemma problem_texts:
  "c_format sqlUpdateProblemAccept [ArgInt p, ArgInt a, ArgInt p] =
     Some (''UPDATE `problem` SET `accepted`=(SELECT count(*) FROM `solution` WHERE `problem_id`='' @
        quoted (show_int p) @ '' AND `result`='' @ quoted (show_int a) @
        '') WHERE `problem_id`='' @ quoted (show_int p))"
  "c_format sqlUpdateProblemSubmit [ArgInt p, ArgInt p] =
     Some (''UPDATE `problem` SET `submit`=(SELECT count(*) FROM `solution` WHERE `problem_id`='' @
        quoted (show_int p) @ '')WHERE `problem_id`='' @ quoted (show_int p))"
  by (simp_all add: sql_texts show_arg_def quoted_def)

lemma compile_texts:
  "c_format sqlDeleteCompile [ArgInt s] =
     Some (''DELETE FROM `compileinfo` WHERE `solution_id`='' @ show_int s)"
  "c_format sqlInsertCompile [ArgInt s, ArgStr e] =
     Some (''INSERT INTO `compileinfo`(solution_id, error)VALUES('' @ show_int s @ '', '' @
        [CHR 0x22] @ e @ [CHR 0x22] @ '')'')"
  by (simp_all add: sql_texts show_arg_def)

lemma sql_1024_fits: "c_format fmt args = Some s \<Longrightarrow> length s < 1024 \<Longrightarrow> sql_1024 fmt args = Inr s"
  by (simp add: sql_1024_def sprintf_s_fits)

definition task_ints :: "Config \<Rightarrow> TaskBase \<Rightarrow> int list" where
  "task_ints config task = [m_result task, m_runTime task, m_runMemory task, m_solutionID task,
     m_problemID task, JE_ACCEPT config]"

lemma finished_statements_fit:
  assumes "list_all is_int32 (task_ints config task)" "0 \<le> m_passRate task" "m_passRate task \<le> 1"
    and "length (c_str (wcharToChar wc (m_userName task))) \<le> 400"
    and "m_result task \<noteq> JE_COMPLIE config"
  shows "write_statements wc config api task =
    map Inr (finished_statements config (c_str (wcharToChar wc (m_userName task))) task)"
proof -
  let ?u = "c_str (wcharToChar wc (m_userName task))"
  note ints = assms(1) [unfolded task_ints_def, simplified]
  note len = length_show_int [of "m_result task"] length_show_int [of "m_runTime task"]
    length_show_int [of "m_runMemory task"] length_show_int [of "m_solutionID task"]
    length_show_int [of "m_problemID task"] length_show_int [of "JE_ACCEPT config"]
    length_show_fixed6 [OF assms(2,3)]
  show ?thesis
    unfolding write_statements_def finished_statements_def Let_def
    using assms(4,5) ints len
    by (simp add: sql_1024_fits [OF solution_text] sql_1024_fits [OF user_texts(1)]
        sql_1024_fits [OF user_texts(2)] sql_1024_fits [OF problem_texts(1)]
        sql_1024_fits [OF problem_texts(2)] sql_1024_fits [OF compile_texts(1)] quoted_def)
qed

text \<open>A database in memory that records the statements it is sent, and answers each with success.\<close>

record mem_db = mem_fs +
  db_log :: "string list"

definition mem_sql :: "'a mem_db_scheme db_api" where
  "mem_sql = file_api.extend mem_files
     \<lparr>mysql_library_init = \<lambda>w. (0, w), mysql_library_end = \<lambda>w. ((), w),
      mysql_options = \<lambda>opt arg w. (0, w), mysql_init = \<lambda>w. (True, w),
      mysql_real_connect = \<lambda>h u p d port w. (True, w), mysql_select_db = \<lambda>d w. (0, w),
      mysql_close = \<lambda>w. ((), w),
      mysql_real_query = \<lambda>sql w. (0, w\<lparr>db_log := db_log w @ [sql]\<rparr>),
      mysql_store_result = \<lambda>w. (None, w), mysql_real_escape_string = \<lambda>s. s,
      mysql_free_result = \<lambda>r w. ((), w), mysql_errno = \<lambda>w. 0, mysql_error = \<lambda>w. '''',
      mysql_affected_rows = \<lambda>w. 0, mysql_insert_id = \<lambda>w. 0\<rparr>"

definition mem_db_new :: mem_db where
  "mem_db_new = mem_fs.extend (mem_fs_new []) \<lparr>db_log = []\<rparr>"

section \<open>Properties\<close>

lemma write_finished:
  assumes "list_all is_int32 (task_ints config task)" "0 \<le> m_passRate task" "m_passRate task \<le> 1"
    and "length (c_str (wcharToChar wc (m_userName task))) \<le> 400"
    and "m_result task \<noteq> JE_COMPLIE config"
  shows "write_task wc config api task w = Inr ((), fold (run_query api)
    (finished_statements config (c_str (wcharToChar wc (m_userName task))) task) w)"
  using finished_statements_fit [OF assms, of api]
  by (simp add: write_task_statements send_all_run list_all_iff o_def)

lemma write_turn_head:
  assumes "m_running m" and "TaskMgr_inv (m_finishTask m)"
    and "m_pool (m_finishTask m) = Some task # rest"
    and "list_all is_int32 (task_ints config task)" "0 \<le> m_passRate task" "m_passRate task \<le> 1"
    and "length (c_str (wcharToChar wc (m_userName task))) \<le> 400"
    and "m_result task \<noteq> JE_COMPLIE config"
  shows "\<exists>q. doWrite_turn wc config api m w = Inr ((Turned, m\<lparr>m_finishTask := q\<rparr>),
      fold (run_query api)
        (finished_statements config (c_str (wcharToChar wc (m_userName task))) task) w) \<and>
    m_pool q = rest \<and> TaskMgr_inv q"
proof -
  obtain q where "TaskMgr_get (m_finishTask m) = Inr (Some (Some task, q))" "TaskMgr_inv q" "m_pool q = rest"
    using tasks.take_head [OF assms(2,3)] by blast
  with write_finished [OF assms(4-8), of api w] assms(1) show ?thesis
    by (intro exI [of _ q]) (simp add: doWrite_turn_def ebind_def ret_def)
qed


lemma sql_1024_cases: "sql_1024 fmt args = Inl InvalidParameter \<or> \<not> isl (sql_1024 fmt args)"
  by (auto simp: sql_1024_def sprintf_s_def split: option.splits)

lemma send_all_fault:
  "Inl InvalidParameter \<in> set xs \<Longrightarrow> list_all (\<lambda>x. x = Inl InvalidParameter \<or> \<not> isl x) xs \<Longrightarrow>
     send_all api xs w = Inl InvalidParameter"
proof (induction xs arbitrary: w)
  case (Cons x xs)
  then show ?case
    by (cases x) (auto simp: send_sql_def ebind_def lift_def call_def split: prod.splits)
qed simp

lemma write_statements_cases:
  "list_all (\<lambda>x. x = Inl InvalidParameter \<or> \<not> isl x) (write_statements wc config api task)"
  unfolding write_statements_def Let_def using sql_1024_cases by simp

text \<open>
  C39: a compile error whose escaped text has 1024 characters or more does not fit the buffer of
  the INSERT statement: writing the task ends the program through the invalid-parameter handler.
\<close>

theorem long_compile_error_aborts:
  assumes "m_result task = JE_COMPLIE config"
    and "1024 \<le> length (c_str (mysql_real_escape_string api (wcharToChar wc (m_compileErrorStr task))))"
  shows "write_task wc config api task w = Inl InvalidParameter"
proof -
  let ?e = "c_str (c_str (mysql_real_escape_string api (wcharToChar wc (m_compileErrorStr task))))"
  have "sql_1024 sqlInsertCompile [ArgInt (m_solutionID task), ArgStr ?e] = Inl InvalidParameter"
    unfolding sql_1024_def
    by (rule sprintf_s_overflow [OF compile_texts(2)]) (use assms(2) in \<open>simp add: c_str_twice\<close>)
  then have "Inl InvalidParameter \<in> set (write_statements wc config api task)"
    using assms(1) by (simp add: write_statements_def escapeString_c_str Let_def)
  then show ?thesis
    unfolding write_task_statements by (rule send_all_fault) (rule write_statements_cases)
qed

text \<open>
  \<open>stop\<close> loses the tasks that are finished and not yet written: a write thread at the head of
  its loop leaves it without a statement, and one that waits for a task is handed the empty task,
  with every finished task still in the queue.
\<close>

theorem stop_drops_finished:
  assumes "TaskMgr_inv (m_finishTask m)" and "length (m_pool (m_finishTask m)) < SEMAPHORE_MAX"
  shows "doWrite_turn wc config api (DBManager_stop m) w = Inr ((Ended, DBManager_stop m), w) \<and>
    (\<exists>q. TaskMgr_get (m_finishTask (DBManager_stop m)) = Inr (Some (None, q)) \<and>
      m_pool q = m_pool (m_finishTask m))"
proof -
  have "TaskMgr_inv (m_finishTask (DBManager_stop m)) \<and>
      m_pool (m_finishTask (DBManager_stop m)) = None # m_pool (m_finishTask m)"
    using tasks.put_front_law [OF assms] by (simp add: DBManager_stop_def)
  then show ?thesis
    using tasks.take_head [of "m_finishTask (DBManager_stop m)"]
    by (auto simp: doWrite_turn_def DBManager_stop_def ret_def)
qed

definition done_task :: TaskBase where
  "done_task = \<lparr>m_userName = ''ann'', m_solutionID = 7, m_problemID = 12, m_limitCompileTime = 10000,
     m_limitTime = 1000, m_limitMemory = 64, m_language = 1, m_runTime = 15, m_runMemory = 900,
     m_result = 4, m_passRate = 1, m_testData = [], m_curTestDataIndex = 0, m_curInputTestData = '''',
     m_curOutputTestData = '''', m_codeFile = '''', m_compilerOutput = '''', m_exeName = '''',
     m_exeOutput = '''', m_compileErrorStr = ''''\<rparr>"

definition busy_manager :: DBManager where
  "busy_manager = addFinishTask done_task DBManager_new"

lemmas busy_simps = busy_manager_def addFinishTask_def DBManager_new_def TaskMgr_add_def TaskMgr_new_def
  TaskMgr_inv_def ZSemaphore_push_def SEMAPHORE_MAX_def

lemma user_ann: "wcharToChar id ''ann'' = ''ann''" "c_str ''ann'' = ''ann''"
  by code_simp+


definition failed_task :: TaskBase where
  "failed_task = done_task\<lparr>m_result := 5, m_compileErrorStr := replicate 1024 (CHR ''e'')\<rparr>"

theorem long_compile_error_aborts_witness:
  "write_task id sample_config mem_sql failed_task mem_db_new = Inl InvalidParameter"
proof (rule long_compile_error_aborts)
  show "m_result failed_task = JE_COMPLIE sample_config"
    by (simp add: failed_task_def sample_config_def Config_new_def)
  have "wcharToChar id (replicate 1024 (CHR ''e'')) = replicate 1024 (CHR ''e'')"
    by (simp add: wcharToChar_def trimPartString_NUL c_str_id)
  then show "1024 \<le> length (c_str (mysql_real_escape_string mem_sql
      (wcharToChar id (m_compileErrorStr failed_task))))"
    by (simp add: failed_task_def mem_sql_def mem_files_def file_api.defs c_str_id)
qed

theorem stop_drops_finished_witness:
  "doWrite_turn id sample_config mem_sql (DBManager_stop busy_manager) mem_db_new =
      Inr ((Ended, DBManager_stop busy_manager), mem_db_new) \<and>
    (\<exists>q. TaskMgr_get (m_finishTask (DBManager_stop busy_manager)) = Inr (Some (None, q)) \<and>
      m_pool q = m_pool (m_finishTask busy_manager))"
  by (rule stop_drops_finished) (simp_all add: busy_simps)

end
