(* ===== verification/MainLoop.thy ===== *)
theory MainLoop
  imports Core Cell DBManager
begin

text \<open>
  The program of src/Judger/main.cpp: start-up with its early returns, the loop that reads commands
  from the console, the callbacks that connect the database manager with the cell, and shut-down.
  The console is a C++ input stream; the loop has a number of turns, as it may never be left.
\<close>

section \<open>The console\<close>

record istream =
  in_text :: string
  in_good :: bool

text \<open>
  \<open>getline(buffer, 256)\<close>: up to 255 characters, the line end taken but not stored.  A line that
  does not fit, and the end of the input, leave the stream in a failed state, in which every further
  call yields the empty text.
\<close>

fun getline_scan :: "nat \<Rightarrow> string \<Rightarrow> string \<times> istream" where
  "getline_scan k [] = ([], \<lparr>in_text = [], in_good = False\<rparr>)"
| "getline_scan k (c # cs) =
     (if c = CHR 0x0A then ([], \<lparr>in_text = cs, in_good = True\<rparr>)
      else case k of
             0 \<Rightarrow> ([], \<lparr>in_text = c # cs, in_good = False\<rparr>)
           | Suc j \<Rightarrow> (let (line, s) = getline_scan j cs in (c # line, s)))"

definition getline :: "nat \<Rightarrow> istream \<Rightarrow> string \<times> istream" where
  "getline n s = (if \<not> in_good s then ([], s) else getline_scan (n - 1) (in_text s))"

datatype console_action = System string | EnableDBMDebugMsg bool

datatype console_turn = Leave | Go "console_action list"

definition console_command :: "string \<Rightarrow> console_turn" where
  "console_command str =
     (case str of
        [] \<Rightarrow> Go []
      | c # cmd \<Rightarrow>
          if c = CHR ''$'' then Go (if cmd \<noteq> [] then [System (c_str cmd)] else [])
          else if str = ''exit'' then Leave
          else if str = ''dbmsg on'' then Go [EnableDBMDebugMsg True]
          else if str = ''dbmsg off'' then Go [EnableDBMDebugMsg False]
          else Go [])"

text \<open>\<open>None\<close> says that the loop has not been left within that many turns.\<close>

fun console_loop :: "nat \<Rightarrow> istream \<Rightarrow> console_action list option" where
  "console_loop 0 s = None"
| "console_loop (Suc k) s =
     (let (line, s1) = getline 256 s
      in case console_command (c_str line) of
           Leave \<Rightarrow> Some []
         | Go as \<Rightarrow> map_option ((@) as) (console_loop k s1))"

lemma getline_scan_line:
  "CHR 0x0A \<notin> set line \<Longrightarrow> length line \<le> k \<Longrightarrow>
     getline_scan k (line @ CHR 0x0A # s) = (line, \<lparr>in_text = s, in_good = True\<rparr>)"
  by (induction line arbitrary: k) (auto split: nat.split)

lemma getline_scan_fails:
  "CHR 0x0A \<notin> set (take (Suc k) s) \<Longrightarrow>
     fst (getline_scan k s) = take k s \<and> \<not> in_good (snd (getline_scan k s))"
proof (induction k s rule: getline_scan.induct)
  case (2 k c cs)
  then show ?case by (cases k) (auto simp: case_prod_beta)
qed simp

lemma failed_console: "\<not> in_good s \<Longrightarrow> console_loop k s = None"
  by (induction k) (simp_all add: getline_def console_command_def c_str_def)

text \<open>Lines that are read one by one and do not end the loop.\<close>

definition command_line :: "string \<Rightarrow> bool" where
  "command_line line \<longleftrightarrow> CHR 0x0A \<notin> set line \<and> length line \<le> 255 \<and> c_str line \<noteq> ''exit''"

definition line_actions :: "string \<Rightarrow> console_action list" where
  "line_actions line = (case console_command (c_str line) of Leave \<Rightarrow> [] | Go as \<Rightarrow> as)"

definition text_lines :: "string list \<Rightarrow> string" where
  "text_lines ls = concat (map (\<lambda>l. l @ [CHR 0x0A]) ls)"

lemma command_Leave: "console_command str = Leave \<longleftrightarrow> str = ''exit''"
  by (auto simp: console_command_def split: list.splits)

lemma console_loop_lines:
  "list_all command_line ls \<Longrightarrow>
     console_loop (length ls + k) \<lparr>in_text = text_lines ls @ s, in_good = True\<rparr> =
     map_option ((@) (concat (map line_actions ls))) (console_loop k \<lparr>in_text = s, in_good = True\<rparr>)"
proof (induction ls)
  case Nil
  show ?case by (simp add: text_lines_def option.map_ident)
next
  case (Cons l ls)
  then have l: "CHR 0x0A \<notin> set l" "length l \<le> 255" "console_command (c_str l) \<noteq> Leave"
    by (auto simp: command_line_def command_Leave)
  then obtain as where as: "console_command (c_str l) = Go as" by (cases "console_command (c_str l)") auto
  have "getline 256 \<lparr>in_text = text_lines (l # ls) @ s, in_good = True\<rparr> =
      (l, \<lparr>in_text = text_lines ls @ s, in_good = True\<rparr>)"
    using l(1,2) by (simp add: getline_def text_lines_def getline_scan_line)
  with as Cons show ?case
    by (simp add: line_actions_def option.map_comp o_def)
qed

section \<open>The callbacks\<close>

text \<open>The two global pointers; the database manager exists, and its threads run, before the cell does.\<close>

record program =
  judgeCell :: "TaskBase JudgeCell option"
  dbMgr :: "DBManager option"

definition onRecivTask :: "TaskBase \<Rightarrow> program \<Rightarrow> program outcome" where
  "onRecivTask task p =
     (case judgeCell p of
        None \<Rightarrow> Inl NullPointer
      | Some c \<Rightarrow> Inr (p\<lparr>judgeCell := Some (JudgeCell_addTask task c)\<rparr>))"

definition onFinishTask :: "TaskBase \<Rightarrow> program \<Rightarrow> program outcome" where
  "onFinishTask task p =
     (case dbMgr p of
        None \<Rightarrow> Inl NullPointer
      | Some m \<Rightarrow> Inr (p\<lparr>dbMgr := Some (addFinishTask task m)\<rparr>))"

text \<open>
  The same two functions as the database manager and the cell call them: \<open>get\<close> and \<open>put\<close> read and
  write the two global pointers in the world.
\<close>

definition recivCB_main ::
    "('w \<Rightarrow> program) \<Rightarrow> (program \<Rightarrow> 'w \<Rightarrow> 'w) \<Rightarrow> TaskBase \<Rightarrow> ('w, unit) eff" where
  "recivCB_main get put task w =
     (case onRecivTask task (get w) of Inl f \<Rightarrow> Inl f | Inr p \<Rightarrow> Inr ((), put p w))"

definition finishCB_main ::
    "('w \<Rightarrow> program) \<Rightarrow> (program \<Rightarrow> 'w \<Rightarrow> 'w) \<Rightarrow> int \<Rightarrow> TaskBase \<Rightarrow> ('w, unit) eff" where
  "finishCB_main get put core_id task w =
     (case onFinishTask task (get w) of Inl f \<Rightarrow> Inl f | Inr p \<Rightarrow> Inr ((), put p w))"

section \<open>main\<close>

datatype main_end = ConfigFailed | ServiceFailed | ConnectFailed | Ended "console_action list"

definition main_connect ::
    "('w, 'x) db_api_scheme \<Rightarrow> Config \<Rightarrow> 'w \<Rightarrow> main_end option \<times> 'w" where
  "main_connect api config w =
     (let (ok, w1) = ZMySql_loadService api w
      in if \<not> ok then (Some ServiceFailed, w1)
         else (let (ok, w2) = ZMySql_connect api (dbip config) (dbport config) (dbusername config)
                                (dbpassword config) (dbname config) w1
               in (if ok then None else Some ConnectFailed, w2)))"

definition program_start :: "Config \<Rightarrow> program" where
  "program_start config =
     \<lparr>judgeCell = Some (JudgeCell_new (cores config)), dbMgr = Some DBManager_new\<rparr>"

text \<open>Shut-down stops the cell first, so that what it judged reaches the manager's queue.\<close>

definition program_stop :: "program \<Rightarrow> program" where
  "program_stop p =
     p\<lparr>judgeCell := map_option JudgeCell_stop (judgeCell p), dbMgr := map_option DBManager_stop (dbMgr p)\<rparr>"

definition judger_main ::
    "(string \<Rightarrow> string option) \<Rightarrow> ('w, 'x) db_api_scheme \<Rightarrow> Config \<Rightarrow> nat \<Rightarrow> istream \<Rightarrow> ('w, main_end) eff" where
  "judger_main fopen api config0 turns cin =
     ebind (call (changeCurDirectory api None)) (\<lambda>_.
     ebind (lift (loadConfig_file fopen ''config.xml'' config0)) (\<lambda>(ok, config).
       if \<not> ok then ret ConfigFailed
       else ebind (call (main_connect api config)) (\<lambda>failed.
         case failed of
           Some e \<Rightarrow> ret e
         | None \<Rightarrow>
             ebind (call (JudgeCell_construct api (cores config))) (\<lambda>(_ :: TaskBase JudgeCell).
             case console_loop turns cin of
               None \<Rightarrow> throw Diverges
             | Some actions \<Rightarrow>
                 ebind (call (ZMySql_disconect api)) (\<lambda>_.
                 ebind (call (ZMySql_unloadService api)) (\<lambda>_. ret (Ended actions)))))))"

section \<open>The two test functions\<close>

text \<open>
  They run one judgement, and a cell of four workers with four tasks.  What they print is left out but
  for the choice between the two last messages.
\<close>

definition testJudgeCore ::
    "(string \<Rightarrow> string) \<Rightarrow> Config \<Rightarrow> ('w, 'x) process_api_scheme \<Rightarrow> ('w \<Rightarrow> bool list) \<Rightarrow> ('w, int \<times> bool) eff" where
  "testJudgeCore mb config api schedule =
     ebind (createTestTask mb config api) (\<lambda>task.
     ebind (judge config api (createTestJudgeCore config api schedule) task) (\<lambda>(passed, _). ret (1, passed)))"

fun test_tasks ::
    "(string \<Rightarrow> string) \<Rightarrow> Config \<Rightarrow> ('w, 'x) file_api_scheme \<Rightarrow> nat \<Rightarrow> TaskBase JudgeCell \<Rightarrow>
       ('w, TaskBase JudgeCell) eff" where
  "test_tasks mb config api 0 cell = ret cell"
| "test_tasks mb config api (Suc n) cell =
     ebind (createTestTask mb config api) (\<lambda>task. test_tasks mb config api n (JudgeCell_addTask task cell))"

definition testJudgeCell ::
    "(string \<Rightarrow> string) \<Rightarrow> Config \<Rightarrow> ('w, 'x) file_api_scheme \<Rightarrow> ('w, int \<times> TaskBase JudgeCell) eff" where
  "testJudgeCell mb config api =
     ebind (call (JudgeCell_construct api 4)) (\<lambda>cell0.
     ebind (test_tasks mb config api 4 cell0) (\<lambda>cell. ret (1, cell)))"

section \<open>The way of a submission through the program\<close>

text \<open>
  Steps of the running program: the read thread hands over a task, a worker of the cell moves (and
  reports what it has judged: a task with other figures and the same number, as \<open>judge\<close> never
  changes the number), the write thread takes a finished task or the empty one that ends it, and the
  program is stopped; a \<open>get\<close> that has begun may still return after that.  The lists record what was handed over and what was written.
\<close>

record pipeline =
  prog :: program
  received :: "TaskBase list"
  written :: "TaskBase list"

definition finished :: "DBManager \<Rightarrow> TaskBase list" where
  "finished m = List.map_filter (\<lambda>x. x) (m_pool (m_finishTask m))"

inductive pipe_step :: "pipeline \<Rightarrow> pipeline \<Rightarrow> bool" where
  receive: "onRecivTask t (prog p) = Inr q \<Longrightarrow>
     pipe_step p (p\<lparr>prog := q, received := received p @ [t]\<rparr>)"
| work: "judgeCell (prog p) = Some c \<Longrightarrow> i < length (m_cores c) \<Longrightarrow> work_step fatal i c = Some c' \<Longrightarrow>
     c_judged c' = c_judged c \<Longrightarrow>
     pipe_step p (p\<lparr>prog := (prog p)\<lparr>judgeCell := Some c'\<rparr>\<rparr>)"
| judge_done: "judgeCell (prog p) = Some c \<Longrightarrow> i < length (m_cores c) \<Longrightarrow> work_step fatal i c = Some c' \<Longrightarrow>
     c_judged c' = c_judged c @ [t] \<Longrightarrow> m_solutionID t' = m_solutionID t \<Longrightarrow>
     onFinishTask t' ((prog p)\<lparr>judgeCell := Some c'\<rparr>) = Inr q \<Longrightarrow>
     pipe_step p (p\<lparr>prog := q\<rparr>)"
| write_out: "dbMgr (prog p) = Some m \<Longrightarrow>
     TaskMgr_get (m_finishTask m) = Inr (Some (Some t, r)) \<Longrightarrow>
     pipe_step p (p\<lparr>prog := (prog p)\<lparr>dbMgr := Some (m\<lparr>m_finishTask := r\<rparr>)\<rparr>, written := written p @ [t]\<rparr>)"
| write_end: "dbMgr (prog p) = Some m \<Longrightarrow> TaskMgr_get (m_finishTask m) = Inr (Some (None, r)) \<Longrightarrow>
     pipe_step p (p\<lparr>prog := (prog p)\<lparr>dbMgr := Some (m\<lparr>m_finishTask := r\<rparr>)\<rparr>\<rparr>)"
| stop: "judgeCell (prog p) = Some c \<Longrightarrow> \<not> c_stopped c \<Longrightarrow>
     pipe_step p (p\<lparr>prog := program_stop (prog p)\<rparr>)"

inductive pipe_reach :: "Config \<Rightarrow> pipeline \<Rightarrow> bool" for config where
  pipe_start: "pipe_reach config \<lparr>prog = program_start config, received = [], written = []\<rparr>"
| pipe_move: "pipe_reach config p \<Longrightarrow> pipe_step p p' \<Longrightarrow> pipe_reach config p'"

abbreviation numbers :: "TaskBase list \<Rightarrow> int multiset" where
  "numbers ts \<equiv> mset (map m_solutionID ts)"

definition pipe_inv :: "pipeline \<Rightarrow> bool" where
  "pipe_inv p \<longleftrightarrow> (\<exists>c m. judgeCell (prog p) = Some c \<and> dbMgr (prog p) = Some m \<and> cell_inv c \<and>
     c_added c = received p \<and> numbers (c_judged c) = numbers (finished m) + numbers (written p))"

lemma finished_add [simp]: "finished (addFinishTask t m) = finished m @ [t]"
  by (simp add: finished_def addFinishTask_def TaskMgr_add_def)

lemma finished_stop [simp]: "finished (DBManager_stop m) = finished m"
  by (simp add: finished_def DBManager_stop_def TaskMgr_addFront_def)

lemma finished_take:
  "TaskMgr_get (m_finishTask m) = Inr (Some (Some t, r)) \<Longrightarrow> finished m = t # finished (m\<lparr>m_finishTask := r\<rparr>)"
  by (auto simp: finished_def TaskMgr_get_def split: option.splits list.splits)

lemma finished_end:
  "TaskMgr_get (m_finishTask m) = Inr (Some (None, r)) \<Longrightarrow> finished (m\<lparr>m_finishTask := r\<rparr>) = finished m"
  by (auto simp: finished_def TaskMgr_get_def split: option.splits list.splits)

lemma work_step_added: "work_step fatal i c = Some c' \<Longrightarrow> c_added c' = c_added c"
  by (auto simp: work_step_def set_core_def split: worker.splits sum.splits option.splits prod.splits)

lemma cell_op_sel:
  "c_added (JudgeCell_addTask t c) = c_added c @ [t]" "c_judged (JudgeCell_addTask t c) = c_judged c"
  "c_added (JudgeCell_stop c) = c_added c" "c_judged (JudgeCell_stop c) = c_judged c"
  by (simp_all add: JudgeCell_addTask_def JudgeCell_stop_def)

lemma pipe_inv_step: "pipe_step p p' \<Longrightarrow> pipe_inv p \<Longrightarrow> pipe_inv p'"
proof (induction rule: pipe_step.induct)
  case (receive t p q)
  then show ?case
    by (auto simp: pipe_inv_def onRecivTask_def cell_inv_add cell_op_sel split: option.splits)
next
  case (work p c i fatal c')
  then show ?case
    using cell_inv_work [of c i fatal c'] work_step_added [of fatal i c c'] by (auto simp: pipe_inv_def)
next
  case (judge_done p c i fatal c' t t' q)
  then show ?case
    using cell_inv_work [of c i fatal c'] work_step_added [of fatal i c c']
    by (auto simp: pipe_inv_def onFinishTask_def split: option.splits)
next
  case (write_out p m t r)
  then show ?case
    using finished_take [of m t r] by (auto simp: pipe_inv_def)
next
  case (write_end p m r)
  then show ?case
    using finished_end [of m r] by (auto simp: pipe_inv_def)
next
  case (stop p c)
  then show ?case
    by (auto simp: pipe_inv_def program_stop_def cell_inv_stop cell_op_sel)
qed

lemma pipe_inv_start: "pipe_inv \<lparr>prog = program_start config, received = [], written = []\<rparr>"
  by (auto simp: pipe_inv_def program_start_def cell_inv_new finished_def DBManager_new_def TaskMgr_new_def)
    (simp_all add: JudgeCell_new_def)

lemma pipe_inv_numbers:
  assumes "pipe_inv p" and "judgeCell (prog p) = Some c" and "dbMgr (prog p) = Some m"
  shows "numbers (received p) =
    numbers (queued c) + numbers (working c) + numbers (finished m) + numbers (written p)"
proof -
  from assms have judged: "numbers (c_judged c) = numbers (finished m) + numbers (written p)"
    and "mset (received p) = mset (c_judged c) + mset (working c) + mset (queued c)"
    by (auto simp: pipe_inv_def cell_inv_def)
  then have "numbers (received p) = numbers (c_judged c) + numbers (working c) + numbers (queued c)"
    by (metis mset_map image_mset_union)
  with judged show ?thesis by (simp add: ac_simps)
qed

section \<open>Properties\<close>

text \<open>
  C11: no submission is lost or doubled on its way.  In every reachable state of the running or
  stopped program, each task that the read thread handed over is queued in the cell, with one
  worker, finished and not yet written, or written, with its multiplicity.
\<close>

theorem pipeline_conserves:
  assumes "pipe_reach config p"
  shows "\<exists>c m. judgeCell (prog p) = Some c \<and> dbMgr (prog p) = Some m \<and>
    numbers (received p) =
      numbers (queued c) + numbers (working c) + numbers (finished m) + numbers (written p)"
proof -
  from assms have inv: "pipe_inv p"
    by (induction rule: pipe_reach.induct) (auto intro: pipe_inv_start pipe_inv_step)
  then obtain c m where "judgeCell (prog p) = Some c" "dbMgr (prog p) = Some m" by (auto simp: pipe_inv_def)
  with pipe_inv_numbers [OF inv this] show ?thesis by blast
qed

text \<open>
  The console loop is never left once a line without an end among its first 256 characters comes
  before \<open>exit\<close>, be it a line that is too long or the end of the input: the stream stays in its
  failed state and the loop spins on empty lines.
\<close>

theorem console_spins:
  assumes "list_all command_line ls" and "CHR 0x0A \<notin> set (take 256 s)" and "c_str (take 255 s) \<noteq> ''exit''"
  shows "console_loop k \<lparr>in_text = text_lines ls @ s, in_good = True\<rparr> = None"
proof -
  have end0: "console_loop j \<lparr>in_text = s, in_good = True\<rparr> = None" for j
  proof (cases j)
    case (Suc j)
    obtain line s1 where g: "getline 256 \<lparr>in_text = s, in_good = True\<rparr> = (line, s1)"
      by (cases "getline 256 \<lparr>in_text = s, in_good = True\<rparr>")
    with getline_scan_fails [of 255 s] assms(2) have "line = take 255 s" "\<not> in_good s1"
      by (auto simp: getline_def)
    with g assms(3) Suc show ?thesis
      by (auto simp: failed_console command_Leave split: console_turn.split)
  qed simp
  show ?thesis
  proof (cases "length ls \<le> k")
    case True
    then obtain j where "k = length ls + j" using le_Suc_ex by blast
    with console_loop_lines [OF assms(1), of j s] end0 show ?thesis by simp
  next
    case False
    have "console_loop k \<lparr>in_text = text_lines ls @ s, in_good = True\<rparr> = None"
      if "list_all command_line ls" "k < length ls" for ls k
    proof -
      have "text_lines ls @ s = text_lines (take k ls) @ text_lines (drop k ls) @ s"
        by (metis append.assoc append_take_drop_id concat_append map_append text_lines_def)
      moreover have "list_all command_line (take k ls)"
        using that(1) by (auto simp: list_all_iff dest: in_set_takeD)
      ultimately show ?thesis
        using console_loop_lines [of "take k ls" 0 "text_lines (drop k ls) @ s"] that(2) by simp
    qed
    with assms(1) False show ?thesis by simp
  qed
qed

lemma console_exits:
  "list_all command_line ls \<Longrightarrow>
     console_loop (length ls + 1) \<lparr>in_text = text_lines ls @ ''exit'' @ CHR 0x0A # s, in_good = True\<rparr> =
     Some (concat (map line_actions ls))"
proof -
  assume ls: "list_all command_line ls"
  have "getline 256 \<lparr>in_text = ''exit'' @ CHR 0x0A # s, in_good = True\<rparr> =
      (''exit'', \<lparr>in_text = s, in_good = True\<rparr>)"
    unfolding getline_def by (subst getline_scan_line [symmetric, of _ 255]) simp_all
  moreover have "console_command (c_str ''exit'') = Leave" by code_simp
  ultimately have "console_loop 1 \<lparr>in_text = ''exit'' @ CHR 0x0A # s, in_good = True\<rparr> = Some []" by simp
  with console_loop_lines [OF ls, of 1 "''exit'' @ CHR 0x0A # s"] show ?thesis by simp
qed

theorem console_spins_witness:
  "console_loop 1000 \<lparr>in_text = text_lines [''dbmsg on''] @ replicate 300 (CHR ''y'') @ text_lines [''exit''],
     in_good = True\<rparr> = None"
proof (rule console_spins)
  show "list_all command_line [''dbmsg on'']" by code_simp
  have y: "take n (replicate 300 (CHR ''y'') @ x) = replicate n (CHR ''y'')" if "n \<le> 300" for n x
    using that by (simp add: min_def)
  show "CHR 0x0A \<notin> set (take 256 (replicate 300 (CHR ''y'') @ text_lines [''exit'']))"
    by (subst y) simp_all
  have cut: "c_str (take 255 (replicate 300 (CHR ''y'') @ text_lines [''exit''])) = replicate 255 (CHR ''y'')"
    by (subst y) (simp_all add: c_str_id)
  show "c_str (take 255 (replicate 300 (CHR ''y'') @ text_lines [''exit''])) \<noteq> ''exit''"
  proof
    assume "c_str (take 255 (replicate 300 (CHR ''y'') @ text_lines [''exit''])) = ''exit''"
    then have "length (replicate 255 (CHR ''y'')) = length ''exit''" by (simp only: cut)
    then show False by simp
  qed
qed

definition received_one :: pipeline where
  "received_one =
     \<lparr>prog = \<lparr>judgeCell = Some (JudgeCell_addTask done_task (JudgeCell_new (cores sample_config))),
             dbMgr = Some DBManager_new\<rparr>,
      received = [done_task], written = []\<rparr>"

lemma received_one_reached: "pipe_reach sample_config received_one"
proof -
  have "pipe_step \<lparr>prog = program_start sample_config, received = [], written = []\<rparr> received_one"
    using pipe_step.receive [of done_task "\<lparr>prog = program_start sample_config, received = [], written = []\<rparr>"]
    by (simp add: received_one_def onRecivTask_def program_start_def)
  with pipe_reach.pipe_start show ?thesis by (rule pipe_reach.pipe_move)
qed

theorem pipeline_conserves_witness:
  "\<exists>c m. judgeCell (prog received_one) = Some c \<and> dbMgr (prog received_one) = Some m \<and>
    numbers (received received_one) =
      numbers (queued c) + numbers (working c) + numbers (finished m) + numbers (written received_one)"
  by (rule pipeline_conserves [OF received_one_reached])

end
