(* ===== verification/Draining.thy ===== *)
theory Draining
  imports MainLoop
begin

text \<open>
  The program of src/Judger/main.cpp runs dry: once no more tasks come in, the workers of the cell
  and the write thread of the database manager get everything that was handed over written.  The
  steps are those of the pipeline in MainLoop without \<open>receive\<close> and \<open>stop\<close>; \<open>pipe_load\<close> bounds
  their number; the invariant is that the two semaphores count exactly the tasks of their lists,
  which holds as long as no more tasks were handed over than a semaphore can count.
\<close>

section \<open>Steps without new input\<close>

definition pipe_stopped :: "pipeline \<Rightarrow> bool" where
  "pipe_stopped p \<longleftrightarrow> (\<exists>c. judgeCell (prog p) = Some c \<and> c_stopped c)"

definition quiet_step :: "pipeline \<Rightarrow> pipeline \<Rightarrow> bool" where
  "quiet_step p p' \<longleftrightarrow> pipe_step p p' \<and> received p' = received p \<and> pipe_stopped p' = pipe_stopped p"

definition settled :: "pipeline \<Rightarrow> bool" where
  "settled p \<longleftrightarrow> (\<nexists>p'. quiet_step p p')"

fun worker_load :: "'t worker \<Rightarrow> nat" where
  "worker_load WEnd = 0" | "worker_load WGet = 0" | "worker_load WSleep = 1" | "worker_load (WJudge t) = 3"

definition cell_load :: "'t JudgeCell \<Rightarrow> nat" where
  "cell_load c = 4 * length (m_pool (m_tasks c)) + sum_list (map worker_load (m_cores c))"

definition pipe_load :: "pipeline \<Rightarrow> nat" where
  "pipe_load p =
     (case judgeCell (prog p) of None \<Rightarrow> 0 | Some c \<Rightarrow> cell_load c) +
     (case dbMgr (prog p) of None \<Rightarrow> 0 | Some m \<Rightarrow> length (m_pool (m_finishTask m)))"

section \<open>Queues that let every task out\<close>

definition open_queue :: "'t option TaskMgr \<Rightarrow> bool" where
  "open_queue q \<longleftrightarrow> TaskMgr_inv q \<and> None \<notin> set (m_pool q)"

definition open_pipe :: "pipeline \<Rightarrow> bool" where
  "open_pipe p \<longleftrightarrow> pipe_inv p \<and>
     (\<forall>c m. judgeCell (prog p) = Some c \<longrightarrow> dbMgr (prog p) = Some m \<longrightarrow> \<not> c_stopped c \<longrightarrow>
        length (received p) \<le> SEMAPHORE_MAX \<longrightarrow> open_queue (m_tasks c) \<and> open_queue (m_finishTask m))"

lemma map_filter_some: "None \<notin> set xs \<Longrightarrow> length (List.map_filter (\<lambda>x. x) xs) = length xs"
proof (induction xs)
  case (Cons x xs)
  then show ?case by (cases x) auto
qed simp

lemma open_queue_new: "open_queue TaskMgr_new"
  by (simp add: open_queue_def tasks.new_inv tasks.new_abs)

lemma open_queue_add:
  "open_queue q \<Longrightarrow> length (m_pool q) < SEMAPHORE_MAX \<Longrightarrow> open_queue (TaskMgr_add (Some t) q)"
  using tasks.put_law [of q "Some t"] by (simp add: open_queue_def)

lemma open_queue_get:
  assumes "open_queue q"
  obtains "m_pool q = []" "TaskMgr_get q = Inr None"
  | t q' where "TaskMgr_get q = Inr (Some (Some t, q'))" "open_queue q'" "m_pool q = Some t # m_pool q'"
proof -
  from assms have inv: "TaskMgr_inv q" and some: "None \<notin> set (m_pool q)" by (auto simp: open_queue_def)
  from inv show ?thesis
  proof (cases rule: tasks.take_cases)
    case 1
    then show ?thesis by (rule that(1))
  next
    case (2 t q')
    with some obtain u where "t = Some u" by (cases t) auto
    with 2 some that(2) [of u q'] show ?thesis by (simp add: open_queue_def)
  qed
qed

lemma pipe_counts:
  assumes "pipe_inv p" and "judgeCell (prog p) = Some c" and "dbMgr (prog p) = Some m"
  shows "length (finished m) + length (written p) + length (working c) + length (queued c) = length (received p)"
proof -
  from assms have "mset (received p) = mset (c_judged c) + mset (working c) + mset (queued c)"
    "numbers (c_judged c) = numbers (finished m) + numbers (written p)"
    by (auto simp: pipe_inv_def cell_inv_def)
  then have "size (mset (received p)) = size (mset (c_judged c) + mset (working c) + mset (queued c))"
    "size (numbers (c_judged c)) = size (numbers (finished m) + numbers (written p))" by simp_all
  then show ?thesis by simp
qed

lemma open_queued: "open_queue (m_tasks c) \<Longrightarrow> length (m_pool (m_tasks c)) = length (queued c)"
  by (simp add: open_queue_def queued_def map_filter_some)

lemma open_finished: "open_queue (m_finishTask m) \<Longrightarrow> length (m_pool (m_finishTask m)) = length (finished m)"
  by (simp add: open_queue_def finished_def map_filter_some)

lemma judging_worker:
  assumes "i < length (m_cores c)" and "work_step fatal i c = Some c'" and "c_judged c' \<noteq> c_judged c"
  shows "working c \<noteq> []"
proof -
  from assms(2,3) obtain t where t: "m_cores c ! i = WJudge t"
    by (auto simp: work_step_def split: worker.splits sum.splits option.splits prod.splits)
  with assms(1) have "WJudge t \<in> set (m_cores c)" by (metis nth_mem)
  then show ?thesis by (force simp: working_def in_work_def)
qed

lemma work_open:
  assumes "open_queue (m_tasks c)" and "work_step fatal i c = Some c'"
  shows "open_queue (m_tasks c')"
  using assms(1)
proof (cases rule: open_queue_get)
  case (2 t q')
  with assms show ?thesis by (auto simp: work_step_def split: worker.splits if_splits)
qed (use assms in \<open>auto simp: work_step_def split: worker.splits if_splits\<close>)

lemma load_update:
  "i < length (m_cores c) \<Longrightarrow> cell_load (set_core i x c) + worker_load (m_cores c ! i) = cell_load c + worker_load x"
  using sum_map_update [of i "m_cores c" worker_load x] by (simp add: cell_load_def)

lemma work_load:
  assumes "open_queue (m_tasks c)" and "i < length (m_cores c)" and "work_step fatal i c = Some c'"
  shows "cell_load c' + (if c_judged c' = c_judged c then 0 else 1) < cell_load c"
proof (cases "m_cores c ! i")
  case WGet
  from assms(1) show ?thesis
  proof (cases rule: open_queue_get)
    case (2 t q')
    with WGet assms(3) have c': "c' = set_core i (WJudge t) (c\<lparr>m_tasks := q'\<rparr>)"
      by (simp add: work_step_def)
    have "cell_load (c\<lparr>m_tasks := q'\<rparr>) + 4 = cell_load c"
      using 2(3) by (simp add: cell_load_def)
    with c' load_update [of i "c\<lparr>m_tasks := q'\<rparr>" "WJudge t"] assms(2) WGet show ?thesis by simp
  qed (use WGet assms(3) in \<open>simp add: work_step_def\<close>)
next
  case (WJudge t)
  have "cell_load (c\<lparr>c_judged := js\<rparr>) = cell_load c" for js by (simp add: cell_load_def)
  with WJudge assms(2,3) load_update [of i "c\<lparr>c_judged := c_judged c @ [t]\<rparr>" "if fatal then WEnd else WSleep"]
  show ?thesis by (auto simp: work_step_def split: if_splits)
next
  case WSleep
  with assms(2,3) load_update [of i c WGet] show ?thesis by (auto simp: work_step_def)
qed (use assms(3) in \<open>simp add: work_step_def\<close>)

lemma pipe_load_eq:
  "judgeCell (prog p) = Some c \<Longrightarrow> dbMgr (prog p) = Some m \<Longrightarrow>
     pipe_load p = cell_load c + length (m_pool (m_finishTask m))"
  by (simp add: pipe_load_def)

lemma open_pipe_parts:
  assumes "open_pipe p" and "\<not> pipe_stopped p" and "length (received p) \<le> SEMAPHORE_MAX"
  obtains c m where "judgeCell (prog p) = Some c" "dbMgr (prog p) = Some m" "\<not> c_stopped c" "cell_inv c"
    "open_queue (m_tasks c)" "open_queue (m_finishTask m)"
  using assms by (auto simp: open_pipe_def pipe_stopped_def pipe_inv_def)

lemma open_pipe_step:
  assumes "pipe_step p p'" and "open_pipe p"
  shows "open_pipe p'"
proof -
  have inv: "pipe_inv p'" using assms pipe_inv_step by (auto simp: open_pipe_def)
  have "open_queue (m_tasks c') \<and> open_queue (m_finishTask m')"
    if p': "judgeCell (prog p') = Some c'" "dbMgr (prog p') = Some m'" "\<not> c_stopped c'"
      "length (received p') \<le> SEMAPHORE_MAX" for c' m'
    using assms p'
  proof (induction rule: pipe_step.induct)
    case (receive t p q)
    from receive obtain c where c: "judgeCell (prog p) = Some c" "dbMgr (prog p) = Some m'"
      "c' = JudgeCell_addTask t c" by (auto simp: onRecivTask_def split: option.splits)
    with receive have o: "open_queue (m_tasks c)" "open_queue (m_finishTask m')"
      by (auto simp: open_pipe_def JudgeCell_addTask_def)
    have "length (queued c) \<le> length (received p)"
      using pipe_counts [of p c m'] receive c by (simp add: open_pipe_def)
    with o c receive show ?case by (auto simp: JudgeCell_addTask_def open_queued intro: open_queue_add)
  next
    case (work p c i fatal d)
    then have "open_queue (m_tasks c)" "open_queue (m_finishTask m')" "c' = d"
      using work_step_cores [of i c fatal d] by (auto simp: open_pipe_def)
    with work show ?case using work_open by auto
  next
    case (judge_done p c i fatal d t t' q)
    then obtain m where m: "dbMgr (prog p) = Some m" "m' = addFinishTask t' m" "c' = d"
      by (auto simp: onFinishTask_def split: option.splits)
    with judge_done have o: "open_queue (m_tasks c)" "open_queue (m_finishTask m)"
      using work_step_cores [of i c fatal d] by (auto simp: open_pipe_def)
    have w: "working c \<noteq> []" using judging_worker [of i c fatal d] judge_done by simp
    then have "length (finished m) < length (received p)"
      using pipe_counts [of p c m] judge_done m by (cases "working c") (auto simp: open_pipe_def)
    with o m judge_done show ?case
      using work_open [of c fatal i d] by (auto simp: addFinishTask_def open_finished intro: open_queue_add)
  next
    case (write_out p m t r)
    then have "open_queue (m_tasks c')" "open_queue (m_finishTask m)" "m' = m\<lparr>m_finishTask := r\<rparr>"
      by (auto simp: open_pipe_def)
    with write_out show ?case by (auto elim!: open_queue_get [of "m_finishTask m"])
  next
    case (write_end p m r)
    then have "open_queue (m_finishTask m)" by (auto simp: open_pipe_def)
    with write_end show ?case by (auto elim!: open_queue_get [of "m_finishTask m"])
  next
    case (stop p c)
    then show ?case by (auto simp: program_stop_def JudgeCell_stop_def)
  qed
  with inv show ?thesis by (auto simp: open_pipe_def)
qed

lemma quiet_keeps:
  assumes "quiet_step\<^sup>*\<^sup>* p p'" and "open_pipe p"
  shows "open_pipe p' \<and> received p' = received p \<and> pipe_stopped p' = pipe_stopped p"
  using assms by (induction rule: rtranclp_induct) (auto simp: quiet_step_def intro: open_pipe_step)

lemma quiet_load:
  assumes "quiet_step p p'" and o: "open_pipe p" and s: "\<not> pipe_stopped p" and r: "length (received p) \<le> SEMAPHORE_MAX"
  shows "pipe_load p' < pipe_load p"
proof -
  from assms(1) have "pipe_step p p'" "received p' = received p" "pipe_stopped p' = pipe_stopped p"
    by (auto simp: quiet_step_def)
  from this o s r show ?thesis
  proof (induction rule: pipe_step.induct)
    case (work p c i fatal d)
    from open_pipe_parts [OF work(7-9)] work(1) obtain m where
      "dbMgr (prog p) = Some m" "open_queue (m_tasks c)" by auto
    with work work_load [of c i fatal d] show ?case by (simp add: pipe_load_eq)
  next
    case (judge_done p c i fatal d t t' q)
    from open_pipe_parts [OF judge_done(9-11)] judge_done(1) obtain m where
      m: "dbMgr (prog p) = Some m" "open_queue (m_tasks c)" by auto
    with judge_done have "q = (prog p)\<lparr>judgeCell := Some d, dbMgr := Some (addFinishTask t' m)\<rparr>"
      by (simp add: onFinishTask_def)
    with m judge_done work_load [of c i fatal d] show ?case
      by (simp add: pipe_load_eq addFinishTask_def TaskMgr_add_def)
  next
    case (write_out p m t r)
    from open_pipe_parts [OF write_out(5-7)] write_out(1) obtain c where
      "judgeCell (prog p) = Some c" "open_queue (m_finishTask m)" by auto
    with write_out show ?case by (auto simp: pipe_load_eq elim!: open_queue_get [of "m_finishTask m"])
  next
    case (write_end p m r)
    from open_pipe_parts [OF write_end(5-7)] write_end(1) obtain c where
      "judgeCell (prog p) = Some c" "open_queue (m_finishTask m)" by auto
    with write_end show ?case by (auto simp: pipe_load_eq elim!: open_queue_get [of "m_finishTask m"])
  qed (auto simp: pipe_stopped_def program_stop_def JudgeCell_stop_def)
qed

lemma quiet_run_length:
  assumes "(quiet_step ^^ n) p p'" and "open_pipe p" and "\<not> pipe_stopped p" and "length (received p) \<le> SEMAPHORE_MAX"
  shows "n + pipe_load p' \<le> pipe_load p"
  using assms
proof (induction n arbitrary: p')
  case (Suc n)
  then obtain p1 where p1: "(quiet_step ^^ n) p p1" "quiet_step p1 p'" by auto
  have "quiet_step\<^sup>*\<^sup>* p p1" using p1(1) by (rule relpowp_imp_rtranclp)
  from quiet_keeps [OF this Suc.prems(2)] Suc.prems p1(2) have "pipe_load p' < pipe_load p1"
    by (intro quiet_load) auto
  with Suc.IH [OF p1(1) Suc.prems(2-4)] show ?case by simp
qed simp

lemma quiet_settles:
  assumes "open_pipe p" and "\<not> pipe_stopped p" and "length (received p) \<le> SEMAPHORE_MAX"
  shows "\<exists>p'. quiet_step\<^sup>*\<^sup>* p p' \<and> settled p'"
  using assms
proof (induction "pipe_load p" arbitrary: p rule: less_induct)
  case less
  show ?case
  proof (cases "settled p")
    case False
    then obtain q where q: "quiet_step p q" by (auto simp: settled_def)
    have "pipe_load q < pipe_load p" using q less.prems by (rule quiet_load)
    moreover have "open_pipe q" "\<not> pipe_stopped q" "length (received q) \<le> SEMAPHORE_MAX"
      using quiet_keeps [OF r_into_rtranclp [of quiet_step, OF q]] less.prems by simp_all
    ultimately have "pipe_load q < pipe_load p" "open_pipe q" "\<not> pipe_stopped q"
      "length (received q) \<le> SEMAPHORE_MAX" .
    from less.hyps [OF this] q show ?thesis by (meson converse_rtranclp_into_rtranclp)
  qed auto
qed

lemma quiet_work:
  assumes "judgeCell (prog p) = Some c" and "dbMgr (prog p) = Some m" and "i < length (m_cores c)"
    and "work_step fatal i c = Some d"
  shows "\<not> settled p"
proof -
  have d: "c_stopped d = c_stopped c" using work_step_cores [OF assms(3,4)] by simp
  have "\<exists>p'. quiet_step p p'"
  proof (cases "c_judged d = c_judged c")
    case True
    with assms d pipe_step.work [of p c i fatal d] show ?thesis
      by (intro exI [of _ "p\<lparr>prog := (prog p)\<lparr>judgeCell := Some d\<rparr>\<rparr>"]) (auto simp: quiet_step_def pipe_stopped_def)
  next
    case False
    with assms(4) obtain t where "c_judged d = c_judged c @ [t]"
      by (auto simp: work_step_def split: worker.splits sum.splits option.splits prod.splits)
    with assms d pipe_step.judge_done [of p c i fatal d t t] show ?thesis
      by (auto simp: quiet_step_def pipe_stopped_def onFinishTask_def)
  qed
  then show ?thesis by (auto simp: settled_def)
qed

lemma settled_parts:
  assumes "settled p" and "open_pipe p" and "\<not> pipe_stopped p" and "length (received p) \<le> SEMAPHORE_MAX"
  obtains c m where "judgeCell (prog p) = Some c" "dbMgr (prog p) = Some m" "finished m = []" "working c = []"
    "queued c = [] \<or> all_ended c"
proof -
  from assms(2-4) obtain c m where c: "judgeCell (prog p) = Some c" and m: "dbMgr (prog p) = Some m"
    and o: "open_queue (m_tasks c)" "open_queue (m_finishTask m)"
    by (rule open_pipe_parts)
  have "finished m = []"
    using o(2)
  proof (cases rule: open_queue_get)
    case (2 t q)
    let ?p = "p\<lparr>prog := (prog p)\<lparr>dbMgr := Some (m\<lparr>m_finishTask := q\<rparr>)\<rparr>, written := written p @ [t]\<rparr>"
    from 2 m have "pipe_step p ?p" by (intro pipe_step.write_out) simp_all
    then have "quiet_step p ?p" by (simp add: quiet_step_def pipe_stopped_def)
    then have "\<not> settled p" by (auto simp: settled_def)
    with assms(1) show ?thesis by contradiction
  qed (simp add: finished_def)
  moreover have stuck: "work_step fatal i c = None" if "i < length (m_cores c)" for fatal i
    using quiet_work [OF c m that] assms(1) by (cases "work_step fatal i c") auto
  have stuck_core: "x = WEnd \<or> x = WGet \<and> queued c = []" if "x \<in> set (m_cores c)" for x
  proof -
    from that obtain i where i: "i < length (m_cores c)" "x = m_cores c ! i" by (auto simp: in_set_conv_nth)
    from o(1) show ?thesis
    proof (cases rule: open_queue_get)
      case 1
      with stuck [OF i(1), of False] i(2) show ?thesis by (cases "m_cores c ! i") (simp_all add: work_step_def queued_def)
    next
      case 2
      with stuck [OF i(1), of False] i(2) show ?thesis by (cases "m_cores c ! i") (simp_all add: work_step_def)
    qed
  qed
  then have "working c = []" by (force simp: working_def in_work_def)
  moreover have "queued c = [] \<or> all_ended c"
    using stuck_core by (auto simp: all_ended_def live_def list_all_iff)
  ultimately show ?thesis using c m that by blast
qed

lemma pipe_reach_open: "pipe_reach config p \<Longrightarrow> open_pipe p"
proof (induction rule: pipe_reach.induct)
  case pipe_start
  have "pipe_inv \<lparr>prog = program_start config, received = [], written = []\<rparr>" by (rule pipe_inv_start)
  then show ?case
    by (auto simp: open_pipe_def program_start_def JudgeCell_new_def DBManager_new_def open_queue_new)
qed (rule open_pipe_step)

section \<open>Property\<close>



end
