(* ===== verification/Reporting.thy ===== *)
theory Reporting
  imports Core
begin

text \<open>
  The report of a judgement (\<open>judge\<close> and \<open>onTaskFinish\<close> of src/Judger/JudgeCore.cpp), told from outside:
  the system calls of the three stages do not reach an observer, so all it sees is the call of the
  callback.  The proof follows the calls through process, watcher, stages and core.
\<close>

section \<open>An observer that the calls of the system do not reach\<close>

definition untouched :: "('w, 'x) process_api_scheme \<Rightarrow> ('w \<Rightarrow> 'o) \<Rightarrow> bool" where
  "untouched api obs \<longleftrightarrow>
     (\<forall>n w. obs (snd (GetFileAttributes api n w)) = obs w) \<and>
     (\<forall>n w. obs (snd (DeleteFile api n w)) = obs w) \<and>
     (\<forall>w. obs (snd (GetLastError api w)) = obs w) \<and>
     (\<forall>t w. obs (snd (Sleep api t w)) = obs w) \<and>
     (\<forall>n w. obs (snd (open_text api n w)) = obs w) \<and>
     (\<forall>n a w. obs (snd (CreateFile api n a w)) = obs w) \<and>
     (\<forall>h w. obs (snd (CloseHandle api h w)) = obs w) \<and>
     (\<forall>c i f si w. obs (snd (CreateProcess api c i f si w)) = obs w) \<and>
     (\<forall>h w. obs (snd (ResumeThread api h w)) = obs w) \<and>
     (\<forall>h c w. obs (snd (TerminateProcess api h c w)) = obs w) \<and>
     (\<forall>h w. obs (snd (GetExitCodeProcess api h w)) = obs w) \<and>
     (\<forall>h t w. obs (snd (WaitForSingleObject api h t w)) = obs w) \<and>
     (\<forall>h w. obs (snd (GetProcessTimes api h w)) = obs w) \<and>
     (\<forall>h w. obs (snd (GetProcessMemoryInfo api h w)) = obs w) \<and>
     (\<forall>w. obs (snd (WaitForDebugEvent api w)) = obs w) \<and>
     (\<forall>s w. obs (snd (ContinueDebugEvent api s w)) = obs w) \<and>
     (\<forall>b w. obs (snd (DebugSetProcessKillOnExit api b w)) = obs w) \<and>
     (\<forall>w. obs (snd (DebugActiveProcessStop api w)) = obs w)"

lemma untouched_calls:
  assumes "untouched api obs"
  shows "obs (snd (fileExist api n w)) = obs w" "obs (snd (SAFE_CLOSE_HANDLE api h w)) = obs w"
    "obs (snd (getExitCode api h w)) = obs w" "obs (snd (isRunning api h w)) = obs w"
    "obs (snd (getProcessTime api h w)) = obs w" "obs (snd (getProcessMemory api h w)) = obs w"
    "obs (process_kill api h c w) = obs w" "obs (snd (createProcess api cmd b f si w)) = obs w"
    "obs (snd (createInputFile api p w)) = obs w" "obs (snd (createOutputFile api p w)) = obs w"
    "obs (snd (readCompileOutput api n w)) = obs w"
  using assms
  by (simp_all add: untouched_def fileExist_def SAFE_CLOSE_HANDLE_def getExitCode_def isRunning_def
      getProcessTime_def getProcessMemory_def process_kill_def createProcess_def createInputFile_def
      createOutputFile_def readCompileOutput_def Let_def case_prod_beta split: prod.splits)

lemma untouched_more:
  assumes "untouched api obs"
  shows "obs (snd (waitExit api h t w)) = obs w" "obs (snd (ZProcessInOut_destroy api p w)) = obs w"
    "obs (snd (ZProcessDebug_enter api p w)) = obs w" "obs (snd (updateTime api r w)) = obs w"
    "obs (snd (updateMemory api r w)) = obs w"
  using assms untouched_calls [OF assms]
  by (simp_all add: untouched_def waitExit_def ZProcessInOut_destroy_def ZProcessBase_destroy_def
      ZProcessDebug_enter_def updateTime_def updateMemory_def Let_def case_prod_beta)

lemma untouched_turns:
  assumes "untouched api obs"
  shows "obs (snd (ZProcessDebug_turn api s w)) = obs w" "obs (snd (watch_poll api r w)) = obs w"
    "obs (snd (watch_end api r w)) = obs w"
  using assms untouched_calls [OF assms] untouched_more [OF assms]
  by (auto simp: untouched_def ZProcessDebug_turn_def watch_poll_def watch_end_def Let_def case_prod_beta
      split: option.splits debug_event.splits)

lemma untouched_remove:
  assumes "untouched api obs"
  shows "obs (snd (safeRemoveFile api n w)) = obs w"
proof -
  have "obs (snd (safeRemove_loop api n d k w)) = obs w" for d k w
    using assms by (induction k arbitrary: w) (simp_all add: untouched_def case_prod_beta)
  then show ?thesis by (simp add: safeRemoveFile_def)
qed
lemma untouched_clean:
  assumes "untouched api obs"
  shows "obs (snd (doCleanUp api t w)) = obs w"
proof -
  have "obs (snd (removeAll api fs w)) = obs w" for fs w
    using untouched_remove [OF assms] by (induction fs arbitrary: w) (simp_all add: case_prod_beta Let_def)
  then show ?thesis by (simp only: doCleanUp_def)
qed

section \<open>The stages\<close>

abbreviation still :: "('w \<Rightarrow> 'o) \<Rightarrow> ('w, 'a) eff \<Rightarrow> bool" where
  "still obs \<equiv> moves obs (=)"

lemma still_ebind: "still obs m \<Longrightarrow> (\<And>x. still obs (k x)) \<Longrightarrow> still obs (ebind m k)"
  by (rule moves_ebind) (simp_all add: transp_def)

lemma still_call: "(\<And>w. obs (snd (f w)) = obs w) \<Longrightarrow> still obs (call f)"
  by (rule moves_call) simp_all

lemmas still_intros = still_ebind moves_ret [OF reflp_on_equality] moves_lift [OF reflp_on_equality]
  moves_if moves_option moves_pair

lemma still_leave: "untouched api obs \<Longrightarrow> still obs (leave_with api p r)"
  unfolding leave_with_def by (intro still_intros still_call) (rule untouched_more)

lemma still_create:
  assumes "untouched api obs" "\<And>q. still obs (start q)"
  shows "still obs (create_suspended api flags start cmd b p)"
  unfolding create_suspended_def Let_def
  by (intro still_intros still_call assms(2)) (simp_all add: untouched_calls [OF assms(1)])

lemma still_compiler:
  assumes "untouched api obs"
  shows "still obs (CppCompiler_exc config api t)"
proof -
  have "still obs (ZProcessInOut_create api cmd True p)" for cmd p
    unfolding ZProcessInOut_create_def ZProcessInOut_start_def
    by (intro still_intros still_create still_call assms) (use assms in \<open>simp add: untouched_def\<close>)
  then show ?thesis
    unfolding CppCompiler_exc_def Let_def
    by (intro still_intros still_leave still_call assms)
      (simp_all add: untouched_calls [OF assms] untouched_more [OF assms])
qed

lemma still_runner:
  assumes "untouched api obs"
  shows "still obs (ExeDebugRunner_exc config api sched t)"
proof -
  have turn: "obs (snd (main_turn api s w)) = obs w" "obs (snd (watch_turn api s w)) = obs w" for s w
    using untouched_turns [OF assms] untouched_more [OF assms]
    by (auto simp: main_turn_def watch_turn_def Let_def case_prod_beta split: main_state.splits debug_step.splits)
  have run: "run_threads api ts s w = Inr (x, w') \<Longrightarrow> obs w' = obs w" for ts s w x w'
  proof (induction ts arbitrary: s w)
    case Nil
    then show ?case by (auto split: main_state.splits if_splits)
  next
    case (Cons b ts)
    obtain s1 w1 where s1: "(if b then main_turn api s w else watch_turn api s w) = (s1, w1)" by fastforce
    then have "obs w1 = obs w" using turn [of s w] by (cases b) auto
    with Cons s1 show ?case by simp
  qed
  then have "still obs (run_threads api ts s)" for ts s by (auto simp: moves_def)
  moreover have "still obs (ZProcessDebug_create api 0 cmd False p)" for cmd p
  proof -
    have "still obs (or_diverge (ZProcessDebug_start api 0 q))" for q
      by (simp add: moves_def or_diverge_def ZProcessDebug_start_def Let_def case_prod_beta)
    then show ?thesis
      unfolding ZProcessDebug_create_def by (intro still_intros still_create assms)
  qed
  ultimately show ?thesis
    unfolding ExeDebugRunner_exc_def Let_def
    by (intro still_intros still_leave still_call assms) (simp_all add: untouched_calls [OF assms])
qed

lemma still_matcher:
  assumes "untouched api obs"
  shows "still obs (Matcher_exc config api t)"
proof -
  have "still obs (readFileBuffer api f False)" for f
    using assms
    by (auto simp: moves_def readFileBuffer_def untouched_def ret_def Let_def split: option.splits prod.splits)
      (metis snd_conv)+
  then show ?thesis
    unfolding Matcher_exc_def Matcher_compare_files_def by (intro still_intros)
qed

section \<open>A judgement\<close>

lemma still_judge:
  assumes "untouched api obs"
  shows "still obs (doJudge config api (createJudgeCore config api schedule i cb) t)"
proof -
  let ?core = "createJudgeCore config api schedule i cb"
  have stage: "still obs (m_compiler ?core u)" "still obs (m_runner ?core u)" "still obs (m_mather ?core u)" for u
    using still_compiler [OF assms] still_runner [OF assms] still_matcher [OF assms]
    by (auto simp: createJudgeCore_defs moves_def)
  have test: "still obs (judge_case api ?core k u)" for k u
    unfolding judge_case_def
    by (intro still_intros stage still_call) (rule untouched_remove [OF assms])
  have "still obs (judge_loop config api ?core n k fig u)" for n k fig u
  proof (induction n arbitrary: k fig u)
    case (Suc n)
    obtain a b c where "fig = (a, b, c)" by (metis prod.exhaust)
    then show ?case
      unfolding judge_loop.simps Let_def by (auto intro!: still_intros test Suc)
  qed (simp add: moves_def)
  then show ?thesis
    unfolding doJudge_def Let_def
    by (intro still_intros stage) (auto intro!: still_intros split: prod.splits)
qed

section \<open>Properties\<close>

text \<open>
  C7: a judgement reports its task exactly once.  Whatever the stages do and however they end, an
  observer whom no call of the system reaches sees one report between start and end, with the core's
  number and the task as it was judged, and that task still has the number of the submission.
\<close>

theorem judge_reports_once:
  assumes "untouched api obs"
    and "\<And>t v x v'. cb i t v = Inr (x, v') \<Longrightarrow> obs v' = obs v @ [report i t]"
    and "judge config api (createJudgeCore config api schedule i (Some cb)) t w = Inr ((ok, t'), w')"
  shows "obs w' = obs w @ [report i t'] \<and> m_solutionID t' = m_solutionID t"
proof -
  let ?core = "createJudgeCore config api schedule i (Some cb)"
  obtain b u w1 where j: "doJudge config api ?core t w = Inr ((b, u), w1)" and
    rest: "ebind (onTaskFinish ?core u) (\<lambda>_. ebind (call (doCleanUp api u)) (\<lambda>ok. ret (ok, u))) w1 =
      Inr ((ok, t'), w')"
    using assms(3) unfolding judge_def by (elim ebind_InrE) auto
  have "obs w1 = obs w" using still_judge [OF assms(1)] j by (auto simp: moves_def)
  moreover have "task_id u = task_id t" using yieldsD [OF judger.doJudge_frame j] by simp
  moreover from rest obtain x w2 where "cb i u w1 = Inr (x, w2)"
    "t' = u" "w' = snd (doCleanUp api u w2)"
    by (auto simp: onTaskFinish_def createJudgeCore_defs call_def prod_eq_iff
        elim!: ebind_InrE)
  ultimately show ?thesis
    using assms(2) [of u w1 x w2] untouched_clean [OF assms(1)] by (simp add: task_id_def)
qed
text \<open>A callback that notes the number of the task in a list of the world nothing else touches.\<close>

definition note_task :: "int \<Rightarrow> TaskBase \<Rightarrow> (mem_os, unit) eff" where
  "note_task i t w = Inr ((), w\<lparr>fs_locked := fs_locked w @ [show_int (m_solutionID t)]\<rparr>)"

definition noting_core :: "mem_os JudgeCore" where
  "noting_core = createJudgeCore sample_config mem_processes (\<lambda>_. [True, True, False]) 3 (Some note_task)"

lemma noted_run: "map_sum id (\<lambda>_. ()) (judge sample_config mem_processes noting_core demo_task two_tests_os) = Inr ()"
  by code_simp

theorem judge_reports_once_witness:
  "\<exists>ok t' w'. judge sample_config mem_processes noting_core demo_task two_tests_os = Inr ((ok, t'), w') \<and>
     fs_locked w' = [show_int (m_solutionID t')] \<and> m_solutionID t' = 1001"
proof -
  obtain ok t' w' where run: "judge sample_config mem_processes noting_core demo_task two_tests_os = Inr ((ok, t'), w')"
    using noted_run by (cases "judge sample_config mem_processes noting_core demo_task two_tests_os") auto
  have "fs_locked w' = fs_locked two_tests_os @ [show_int (m_solutionID t')] \<and>
      m_solutionID t' = m_solutionID demo_task"
  proof (rule judge_reports_once [where report = "\<lambda>i t. show_int (m_solutionID t)" and cb = note_task])
    show "untouched mem_processes fs_locked"
      by (simp add: untouched_def mem_processes_def mem_files_def file_api.defs fs_delete_def fs_open_def
          split: list.split access.split)
    show "judge sample_config mem_processes
        (createJudgeCore sample_config mem_processes (\<lambda>_. [True, True, False]) 3 (Some note_task)) demo_task
        two_tests_os = Inr ((ok, t'), w')"
      using run by (simp add: noting_core_def)
  qed (auto simp: note_task_def)
  with run show ?thesis by (auto simp: two_tests_os_def mem_os_new_def mem_fs.defs mem_fs_new_def demo_task_def)
qed

end
