(* ===== verification/Fetching.thy ===== *)
theory Fetching
  imports DBManager
begin

text \<open>
  What one turn of the read thread of the database manager does (\<open>doRead\<close> and \<open>tryLoadCode\<close> of
  src/Judger/DBManager.cpp), told from outside: the statements the server is sent and the tasks the
  cell is given, in their order.  The definitions of the code are those of DBManager; this theory
  holds the description and the proof that a turn keeps to it.  The turn is taken alone: the source
  has no lock on the connection, which the write thread uses too.
\<close>

section \<open>What the outside sees of the read thread\<close>

datatype db_event = Sent string | HandedOver TaskBase

definition problem_query :: "Config \<Rightarrow> string" where
  "problem_query config = ''SELECT solution.solution_id, solution.problem_id, solution.user_id, '' @
     ''solution.language, problem.time_limit, problem.memory_limit, solution.result '' @
     ''FROM solution, problem WHERE solution.problem_id = problem.problem_id and (solution.result='' @
     show_int (JE_PENDING config) @ '' or solution.result='' @ show_int (JE_REJUDGE config) @ '') limit 20''"

definition code_query :: "int \<Rightarrow> string" where
  "code_query s = ''SELECT source FROM source_code WHERE solution_id='' @ show_int s"

definition compiling_query :: "Config \<Rightarrow> int \<Rightarrow> string" where
  "compiling_query config s = ''UPDATE `solution` SET `result`='' @ show_int (JE_COMPILING config) @
     '' WHERE `solution_id` = '' @ show_int s"

definition handover :: "Config \<Rightarrow> TaskBase \<Rightarrow> db_event list" where
  "handover config t = [Sent (code_query (m_solutionID t)), Sent (compiling_query config (m_solutionID t)),
     HandedOver t]"

text \<open>The columns of a row as text and as a number, and the task a row stands for.\<close>

definition col_text :: "string option list \<Rightarrow> nat \<Rightarrow> string" where
  "col_text row i = c_str (the (row ! i))"

definition col_number :: "string option list \<Rightarrow> nat \<Rightarrow> int" where
  "col_number row i = atoi (col_text row i)"

definition submission :: "(string \<Rightarrow> string) \<Rightarrow> string option list \<Rightarrow> TaskBase \<Rightarrow> bool" where
  "submission mb row t \<longleftrightarrow>
     m_solutionID t = col_number row 0 \<and> m_problemID t = col_number row 1 \<and>
     m_userName t = charToWChar mb (col_text row 2) \<and> m_language t = col_number row 3 \<and>
     m_limitCompileTime t = 10000 \<and> m_limitTime t = col_number row 4 \<and>
     m_limitMemory t = col_number row 5 \<and> m_result t = 0"

section \<open>What is assumed of the calls\<close>

text \<open>
  \<open>trace\<close> is what an observer of the world has seen: every query is logged, the callback takes a
  task over, and no other call of the read thread shows.
\<close>

definition logs_queries :: "('w, 'x) db_api_scheme \<Rightarrow> ('w \<Rightarrow> db_event list) \<Rightarrow> bool" where
  "logs_queries api trace \<longleftrightarrow>
     (\<forall>sql w. trace (snd (mysql_real_query api sql w)) = trace w @ [Sent sql])"

definition takes_over :: "(TaskBase \<Rightarrow> ('w, unit) eff) \<Rightarrow> ('w \<Rightarrow> db_event list) \<Rightarrow> bool" where
  "takes_over recivCB trace \<longleftrightarrow>
     (\<forall>t w. \<exists>w'. recivCB t w = Inr ((), w') \<and> trace w' = trace w @ [HandedOver t])"

definition silent :: "('w, 'x) db_api_scheme \<Rightarrow> ('w \<Rightarrow> 'o) \<Rightarrow> bool" where
  "silent api trace \<longleftrightarrow>
     (\<forall>w. trace (snd (Sleep api 1000 w)) = trace w) \<and>
     (\<forall>w. trace (snd (mysql_store_result api w)) = trace w) \<and>
     (\<forall>p w. trace (snd (FindFirstFile api p w)) = trace w) \<and>
     (\<forall>p w. trace (snd (GetFileAttributes api p w)) = trace w) \<and>
     (\<forall>p w. trace (snd (CreateDirectory api p w)) = trace w) \<and>
     (\<forall>p s w. trace (snd (write_file api p s w)) = trace w)"

text \<open>A row with \<open>n\<close> columns or more, none of them NULL.\<close>

definition full_row :: "nat \<Rightarrow> string option list \<Rightarrow> bool" where
  "full_row n row \<longleftrightarrow> n \<le> length row \<and> None \<notin> set row"

definition full_results :: "('w, 'x) db_api_scheme \<Rightarrow> bool" where
  "full_results api \<longleftrightarrow>
     (\<forall>w r. fst (mysql_store_result api w) = Some r \<longrightarrow> list_all (full_row 1) (res_rows r))"

section \<open>The statements as texts\<close>

lemma no_nul_int: "CHR 0x00 \<notin> set (show_int i)"
  using show_int_chars [of "CHR 0x00" i] by (auto simp: is_digit_def)

lemma sql_sent:
  assumes "c_format fmt args = Some s" "length s < 1024" "CHR 0x00 \<notin> set s"
  shows "send_sql api (sql_1024 fmt args) = call (ZMySql_query api s)"
  using assms by (auto simp: send_sql_def sql_1024_fits c_str_id ebind_def lift_def)

lemma problem_query_sent:
  assumes "is_int32 (JE_PENDING config)" "is_int32 (JE_REJUDGE config)"
  shows "send_sql api (sql_1024 sqlSelectProblem [ArgInt (JE_PENDING config), ArgInt (JE_REJUDGE config)]) =
    call (ZMySql_query api (problem_query config))"
  using length_show_int [OF assms(1)] length_show_int [OF assms(2)]
  by (intro sql_sent) (simp_all add: sqlSelectProblem_def problem_query_def show_arg_def no_nul_int)

lemma code_query_sent:
  assumes "is_int32 s"
  shows "send_sql api (sql_1024 sqlSelectCode [ArgInt s]) = call (ZMySql_query api (code_query s))"
  using length_show_int [OF assms]
  by (intro sql_sent) (simp_all add: sqlSelectCode_def code_query_def show_arg_def no_nul_int)

lemma compiling_query_sent:
  assumes "is_int32 s" "is_int32 (JE_COMPILING config)"
  shows "send_sql api (sql_1024 sqlUpdateSolutionCompiling [ArgInt (JE_COMPILING config), ArgInt s]) =
    call (ZMySql_query api (compiling_query config s))"
  using length_show_int [OF assms(1)] length_show_int [OF assms(2)]
  by (intro sql_sent)
    (simp_all add: sqlUpdateSolutionCompiling_def compiling_query_def show_arg_def no_nul_int)

lemma query_trace:
  assumes "logs_queries api trace"
  shows "\<exists>ok w'. call (ZMySql_query api sql) w = Inr (ok, w') \<and> trace w' = trace w @ [Sent sql] \<and>
    ok = (fst (mysql_real_query api sql w) = 0)"
  using assms by (auto simp: logs_queries_def call_def ZMySql_query_def Let_def case_prod_beta)

section \<open>The calls that do not show\<close>

lemma findFiles_silent: "silent api trace \<Longrightarrow> trace (snd (findFiles api p ext u w)) = trace w"
  by (auto simp: silent_def findFiles_def findFirst_def Let_def case_prod_beta split: list.splits)

lemma makeDir_silent: "silent api trace \<Longrightarrow> trace (snd (makeDir api dir w)) = trace w"
proof (induction api dir w rule: makeDir.induct)
  case (1 api dir w)
  then show ?case
    by (subst makeDir.simps) (auto simp: silent_def fileExist_def makeDirDirect_def Let_def case_prod_beta)
qed

lemma initializeData_silent:
  "silent api trace \<Longrightarrow> initializeData mb config api t w = Inr (t', w') \<Longrightarrow> trace w' = trace w"
  using findFiles_silent [of api trace]
  by (auto simp: initializeData_def Let_def lift_def call_def ret_def elim!: ebind_InrE
      split: if_splits sum.splits) (metis snd_conv)+


section \<open>The turn\<close>

lemma full_row_new:
  "full_row n row \<Longrightarrow> ZMysqlRow_new row = Inr (map (\<lambda>v. \<lparr>st_value = c_str (the v)\<rparr>) row)"
proof (induction row arbitrary: n)
  case (Cons v row)
  then have "full_row (n - 1) row" by (auto simp: full_row_def)
  with Cons show ?case by (cases v) (auto simp: full_row_def StringTool_setText_def)
qed simp

lemma row_col:
  "i < length row \<Longrightarrow> ZMysqlRow_col (map (\<lambda>v. \<lparr>st_value = c_str (the v)\<rparr>) row) i =
     Inr \<lparr>st_value = col_text row i\<rparr>"
  by (simp add: ZMysqlRow_col_def col_text_def)

lemma tryLoadCode_trace:
  assumes "logs_queries api trace" "silent api trace" "full_results api" "is_int32 (m_solutionID task)"
  shows "\<exists>w'. tryLoadCode wc api task w = Inr ((), w') \<and> trace w' = trace w @ [Sent (code_query (m_solutionID task))]"
proof -
  obtain ok w1 where q: "call (ZMySql_query api (code_query (m_solutionID task))) w = Inr (ok, w1)"
    "trace w1 = trace w @ [Sent (code_query (m_solutionID task))]"
    using query_trace [OF assms(1)] by blast
  obtain res w2 where r: "ZMySql_storeResult api w1 = (res, w2)" by fastforce
  then have w2: "trace w2 = trace w1" "\<And>r. res = Some r \<Longrightarrow> list_all (full_row 1) (res_rows r)"
    using assms(2,3) by (auto simp: silent_def full_results_def ZMySql_storeResult_def) (metis fst_conv snd_conv)+
  show ?thesis
  proof (cases "\<not> ok \<or> res = None \<or> res_rows (the res) = []")
    case True
    then show ?thesis
      using q r w2(1) by (auto simp: tryLoadCode_def code_query_sent [OF assms(4)] ebind_def ret_def call_def
          lift_def ZMySqlRes_fetchRow_def split: option.splits)
  next
    case False
    then obtain x row rows where x: "ok" "res = Some x" "res_rows x = row # rows"
      by (cases res) (auto simp: neq_Nil_conv)
    with w2(2) have full: "full_row 1 row" by simp
    then have "ZMysqlRow_col (map (\<lambda>v. \<lparr>st_value = c_str (the v)\<rparr>) row) 0 = Inr \<lparr>st_value = col_text row 0\<rparr>"
      by (intro row_col) (auto simp: full_row_def)
    then show ?thesis
      using x q r w2(1) full_row_new [OF full] makeDir_silent [OF assms(2)] assms(2)
      by (simp add: tryLoadCode_def code_query_sent [OF assms(4)] ebind_def ret_def call_def
          lift_def ZMySqlRes_fetchRow_def case_prod_beta silent_def)
  qed
qed

lemma row_task_trace:
  assumes "data_dir_usable mb config" "silent api trace" "full_row 6 row"
  shows "\<exists>t w'. row_task mb config api (map (\<lambda>v. \<lparr>st_value = c_str (the v)\<rparr>) row) w = Inr (t, w') \<and>
    submission mb row t \<and> trace w' = trace w"
proof -
  let ?t = "\<lparr>m_userName = charToWChar mb (col_text row 2), m_solutionID = col_number row 0,
    m_problemID = col_number row 1, m_limitCompileTime = 10000, m_limitTime = col_number row 4,
    m_limitMemory = col_number row 5, m_language = col_number row 3, m_runTime = 0, m_runMemory = 0,
    m_result = 0, m_passRate = 0, m_testData = [], m_curTestDataIndex = 0, m_curInputTestData = [],
    m_curOutputTestData = [], m_codeFile = [], m_compilerOutput = [], m_exeName = [],
    m_exeOutput = [], m_compileErrorStr = []\<rparr>"
  have col: "ZMysqlRow_col (map (\<lambda>v. \<lparr>st_value = c_str (the v)\<rparr>) row) i = Inr \<lparr>st_value = col_text row i\<rparr>"
    if "i < 6" for i using assms(3) that by (intro row_col) (simp add: full_row_def)
  have num: "atoi (c_str (col_text row i)) = col_number row i" for i
    by (simp add: col_number_def col_text_def c_str_twice)
  have run: "row_task mb config api (map (\<lambda>v. \<lparr>st_value = c_str (the v)\<rparr>) row) w =
      initializeData mb config api ?t w"
    by (simp add: row_task_def TaskBase_new_def column_int_def col StringTool_asInt_def
        StringTool_asString_def num ebind_def lift_def)
  have "is_int32 (m_solutionID ?t)" "is_int32 (m_problemID ?t)"
    by (simp_all add: col_number_def is_int32_atoi)
  then obtain t w' where t: "initializeData mb config api ?t w = Inr (t, w')"
    using initializeData_returns [OF assms(1), of ?t api w] by blast
  then have "submission mb row t"
    using initializeData_frame [OF t] by (simp add: submission_def)
  with t run initializeData_silent [OF assms(2) t] show ?thesis by auto
qed

text \<open>
  What an observer sees of the loop over the rows: every row handed over, or a prefix of them and the
  two statements for the row at which the loop was left.
\<close>

definition rows_seen ::
    "(string \<Rightarrow> string) \<Rightarrow> Config \<Rightarrow> string option list list \<Rightarrow> TaskBase list \<Rightarrow> db_event list \<Rightarrow> bool" where
  "rows_seen mb config rows ts evs \<longleftrightarrow> length ts \<le> length rows \<and>
     list_all2 (submission mb) (take (length ts) rows) ts \<and>
     (if length ts = length rows then evs = concat (map (handover config) ts)
      else \<exists>t. submission mb (rows ! length ts) t \<and>
             evs = concat (map (handover config) ts) @ butlast (handover config t))"

lemma rows_seen_Nil: "rows_seen mb config [] [] []"
  by (simp add: rows_seen_def)

lemma rows_seen_cut:
  "submission mb row t \<Longrightarrow> rows_seen mb config (row # rows) [] (butlast (handover config t))"
  by (auto simp: rows_seen_def)

lemma rows_seen_Cons:
  "submission mb row t \<Longrightarrow> rows_seen mb config rows ts evs \<Longrightarrow>
     rows_seen mb config (row # rows) (t # ts) (handover config t @ evs)"
  by (auto simp: rows_seen_def split: if_splits)

lemma read_rows_trace:
  assumes usable: "data_dir_usable mb config" and cfg: "is_int32 (JE_COMPILING config)"
    and env: "logs_queries api trace" "silent api trace" "full_results api" "takes_over recivCB trace"
  shows "list_all (full_row 6) rows \<Longrightarrow>
    \<exists>ts evs w'. read_rows mb wc config api (Some recivCB) rows w = Inr ((), w') \<and>
      trace w' = trace w @ evs \<and> rows_seen mb config rows ts evs \<and>
      ((\<forall>sql v. fst (mysql_real_query api sql v) = 0) \<longrightarrow> length ts = length rows)"
proof (induction rows arbitrary: w)
  case Nil
  show ?case by (auto simp: ret_def rows_seen_Nil intro!: exI [of _ "[]"])
next
  case (Cons row rows)
  then have full: "full_row 6 row" by simp
  obtain t w1 where t: "row_task mb config api (map (\<lambda>v. \<lparr>st_value = c_str (the v)\<rparr>) row) w = Inr (t, w1)"
    "submission mb row t" "trace w1 = trace w" using row_task_trace [OF usable env(2) full] by blast
  then have id: "is_int32 (m_solutionID t)" by (simp add: submission_def col_number_def is_int32_atoi)
  obtain w2 where w2: "tryLoadCode wc api t w1 = Inr ((), w2)"
    "trace w2 = trace w1 @ [Sent (code_query (m_solutionID t))]"
    using tryLoadCode_trace [OF env(1-3) id] by blast
  obtain ok w3 where w3: "call (ZMySql_query api (compiling_query config (m_solutionID t))) w2 = Inr (ok, w3)"
    "trace w3 = trace w2 @ [Sent (compiling_query config (m_solutionID t))]"
    "ok = (fst (mysql_real_query api (compiling_query config (m_solutionID t)) w2) = 0)"
    using query_trace [OF env(1)] by blast
  obtain w4 where w4: "recivCB t w3 = Inr ((), w4)" "trace w4 = trace w3 @ [HandedOver t]"
    using env(4) unfolding takes_over_def by blast
  note run = full_row_new [OF full] t(1) w2(1) compiling_query_sent [OF id cfg] w3(1) w4(1)
  show ?case
  proof (cases ok)
    case False
    then have "read_rows mb wc config api (Some recivCB) (row # rows) w = Inr ((), w3)"
      by (simp add: ebind_def lift_def run ret_def)
    with False t w2 w3 rows_seen_cut [OF t(2)] show ?thesis
      by (intro exI [of _ "[]"] exI [of _ "butlast (handover config t)"] exI [of _ w3])
        (auto simp: handover_def)
  next
    case True
    obtain ts evs w' where rest: "read_rows mb wc config api (Some recivCB) rows w4 = Inr ((), w')"
      "trace w' = trace w4 @ evs" "rows_seen mb config rows ts evs"
      "(\<forall>sql v. fst (mysql_real_query api sql v) = 0) \<longrightarrow> length ts = length rows"
      using Cons by fastforce
    from True have "read_rows mb wc config api (Some recivCB) (row # rows) w = Inr ((), w')"
      by (simp add: ebind_def lift_def run rest(1) DBManager_onRecivTask_def)
    with t w2 w3 w4 rest rows_seen_Cons [OF t(2) rest(3)] show ?thesis
      by (intro exI [of _ "t # ts"] exI [of _ "handover config t @ evs"] exI [of _ w'])
        (auto simp: handover_def)
  qed
qed

section \<open>Properties\<close>

text \<open>
  C14: a turn of the read thread asks for the pending submissions and hands over one task for each row
  of the answer, in their order and with the columns of the row as its fields, each after its source
  was asked for and it was marked as compiling in the database.  A mark the server refuses ends the
  turn: that task and those of the later rows are not handed over.
\<close>

theorem read_turn_trace:
  assumes "m_running m" "data_dir_usable mb config"
    and "list_all is_int32 [JE_PENDING config, JE_REJUDGE config, JE_COMPILING config]"
    and "logs_queries api trace" "silent api trace" "full_results api" "takes_over recivCB trace"
    and "mysql_real_query api (problem_query config) (snd (Sleep api 1000 w)) = (0, w1)"
    and "mysql_store_result api w1 = (Some r, w2)" "list_all (full_row 6) (res_rows r)"
  shows "\<exists>ts evs w'. doRead_turn mb wc config api (Some recivCB) m w = Inr (Turned, w') \<and>
    trace w' = trace w @ Sent (problem_query config) # evs \<and> rows_seen mb config (res_rows r) ts evs \<and>
    ((\<forall>sql v. fst (mysql_real_query api sql v) = 0) \<longrightarrow> length ts = length (res_rows r))"
proof -
  have cfg: "is_int32 (JE_PENDING config)" "is_int32 (JE_REJUDGE config)" "is_int32 (JE_COMPILING config)"
    using assms(3) by simp_all
  have "trace w1 = trace (snd (Sleep api 1000 w)) @ [Sent (problem_query config)]"
    using assms(4) [unfolded logs_queries_def, rule_format, of "problem_query config" "snd (Sleep api 1000 w)"]
      assms(8) by simp
  moreover have "trace (snd (Sleep api 1000 w)) = trace w" using assms(5) by (simp add: silent_def)
  moreover have "trace w2 = trace w1" 
    using assms(5) [unfolded silent_def, THEN conjunct2, THEN conjunct1, rule_format, of w1] assms(9) by simp
  ultimately have w2: "trace w2 = trace w @ [Sent (problem_query config)]" by simp
  obtain ts evs w' where rows: "read_rows mb wc config api (Some recivCB) (res_rows r) w2 = Inr ((), w')"
    "trace w' = trace w2 @ evs" "rows_seen mb config (res_rows r) ts evs"
    "(\<forall>sql v. fst (mysql_real_query api sql v) = 0) \<longrightarrow> length ts = length (res_rows r)"
    using read_rows_trace [where wc = wc and w = w2, OF assms(2) cfg(3) assms(4-7,10)] by (elim exE conjE)
  have "doRead_turn mb wc config api (Some recivCB) m w = Inr (Turned, w')"
    using assms(1,8,9) rows(1)
    by (simp add: doRead_turn_def problem_query_sent [OF cfg(1,2)] ebind_def call_def ZMySql_query_def
        ZMySql_storeResult_def case_prod_beta ret_def)
  with rows w2 show ?thesis by (intro exI [of _ ts] exI [of _ evs] exI [of _ w']) simp
qed

section \<open>A database with two submissions\<close>

text \<open>
  The database of the writing side, with what an observer has seen: it answers the query for pending
  submissions with two rows and every other query with the text of a program.
\<close>

record read_db = mem_fs +
  db_seen :: "db_event list"

definition two_rows :: "string option list list" where
  "two_rows = [[Some ''1001'', Some ''1000'', Some ''ann'', Some ''1'', Some ''1000'', Some ''32'', Some ''0''],
     [Some ''1002'', Some ''1000'', Some ''bob'', Some ''0'', Some ''2000'', Some ''64'', Some ''1'']]"

definition read_sql :: "read_db db_api" where
  "read_sql = file_api.extend mem_files
     \<lparr>mysql_library_init = \<lambda>w. (0, w), mysql_library_end = \<lambda>w. ((), w),
      mysql_options = \<lambda>opt arg w. (0, w), mysql_init = \<lambda>w. (True, w),
      mysql_real_connect = \<lambda>h u p d port w. (True, w), mysql_select_db = \<lambda>d w. (0, w),
      mysql_close = \<lambda>w. ((), w),
      mysql_real_query = \<lambda>sql w. (0, w\<lparr>db_seen := db_seen w @ [Sent sql]\<rparr>),
      mysql_store_result = \<lambda>w. (Some \<lparr>res_fields = [], res_rows =
        if db_seen w = [Sent (problem_query sample_config)] then two_rows
        else [[Some ''int main() {}'']]\<rparr>, w),
      mysql_real_escape_string = \<lambda>s. s,
      mysql_free_result = \<lambda>r w. ((), w), mysql_errno = \<lambda>w. 0, mysql_error = \<lambda>w. [],
      mysql_affected_rows = \<lambda>w. 0, mysql_insert_id = \<lambda>w. 0\<rparr>"

definition see_task :: "TaskBase \<Rightarrow> (read_db, unit) eff" where
  "see_task t w = Inr ((), w\<lparr>db_seen := db_seen w @ [HandedOver t]\<rparr>)"

definition read_db_new :: read_db where
  "read_db_new = mem_fs.extend sample_fs \<lparr>db_seen = []\<rparr>"

theorem read_turn_trace_witness:
  "\<exists>ts evs w'. doRead_turn nul_ended id sample_config read_sql (Some see_task) DBManager_new read_db_new =
      Inr (Turned, w') \<and>
    db_seen w' = Sent (problem_query sample_config) # evs \<and>
    rows_seen nul_ended sample_config two_rows ts evs \<and> length ts = 2"
proof -
  let ?w = "snd (Sleep read_sql 1000 read_db_new)"
  let ?q = "?w\<lparr>db_seen := [Sent (problem_query sample_config)]\<rparr>"
  let ?r = "\<lparr>res_fields = [], res_rows = two_rows\<rparr>"
  have "\<exists>ts evs w'. doRead_turn nul_ended id sample_config read_sql (Some see_task) DBManager_new read_db_new =
      Inr (Turned, w') \<and>
    db_seen w' = db_seen read_db_new @ Sent (problem_query sample_config) # evs \<and>
    rows_seen nul_ended sample_config (res_rows ?r) ts evs \<and>
    ((\<forall>sql v. fst (mysql_real_query read_sql sql v) = 0) \<longrightarrow> length ts = length (res_rows ?r))"
  proof (rule read_turn_trace)
    show "m_running DBManager_new" by (simp add: DBManager_new_def)
    show "data_dir_usable nul_ended sample_config" by code_simp
    show "list_all is_int32 [JE_PENDING sample_config, JE_REJUDGE sample_config, JE_COMPILING sample_config]"
      by (simp add: sample_config_def Config_new_def is_int32_def)
    show "logs_queries read_sql db_seen" by (simp add: logs_queries_def read_sql_def mem_files_def file_api.defs)
    show "silent read_sql db_seen"
      by (simp add: silent_def read_sql_def mem_files_def file_api.defs)
    show "full_results read_sql"
      by (simp add: full_results_def full_row_def two_rows_def read_sql_def mem_files_def file_api.defs)
    show "takes_over see_task db_seen" by (simp add: takes_over_def see_task_def)
    show "mysql_real_query read_sql (problem_query sample_config) ?w = (0, ?q)"
      by (simp add: read_sql_def mem_files_def file_api.defs read_db_new_def mem_fs.defs sample_fs_def mem_fs_new_def)
    show "mysql_store_result read_sql ?q = (Some ?r, ?q)"
      by (simp add: read_sql_def mem_files_def file_api.defs)
    show "list_all (full_row 6) (res_rows ?r)"
      by (simp add: full_row_def two_rows_def)
  qed
  moreover have "db_seen read_db_new = []" by (simp add: read_db_new_def mem_fs.defs sample_fs_def mem_fs_new_def)
  moreover have "\<forall>sql v. fst (mysql_real_query read_sql sql v) = 0"
    by (simp add: read_sql_def mem_files_def file_api.defs)
  moreover have "length two_rows = 2" by (simp add: two_rows_def)
  ultimately show ?thesis by simp
qed

end
