(* ===== verification/Intake.thy ===== *)
theory Intake
  imports Fetching MainLoop
begin

text \<open>
  The database manager inside the program of src/Judger/main.cpp: the turns of its two loops, with the
  callback that \<open>main\<close> gives it, are steps of the pipeline of MainLoop, so that what holds of every
  reachable pipeline holds of the running loops.  The proofs go through the code of a turn call by
  call: a call of the system or of the database leaves the program's variables alone, the callback
  makes a step.
\<close>

section \<open>The calls of the manager do not touch the program's variables\<close>

definition quiet :: "('w, 'x) db_api_scheme \<Rightarrow> ('w \<Rightarrow> 's) \<Rightarrow> bool" where
  "quiet api get \<longleftrightarrow> silent api get \<and> (\<forall>sql w. get (snd (mysql_real_query api sql w)) = get w)"

lemma quiet_query: "quiet api get \<Longrightarrow> get (snd (ZMySql_query api sql w)) = get w"
  by (simp add: quiet_def ZMySql_query_def Let_def case_prod_beta)

definition carried :: "('w, 'x) db_api_scheme \<Rightarrow> ('w \<Rightarrow> 's) \<Rightarrow> ('s \<Rightarrow> 's \<Rightarrow> bool) \<Rightarrow> bool" where
  "carried api get R \<longleftrightarrow> quiet api get \<and> reflp R \<and> transp R"

lemma carriedD: "carried api get R \<Longrightarrow> quiet api get" "carried api get R \<Longrightarrow> silent api get"
  "carried api get R \<Longrightarrow> reflp R" "carried api get R \<Longrightarrow> transp R"
  by (simp_all add: carried_def quiet_def)

lemma send_moves: "carried api get R \<Longrightarrow> moves get R (send_sql api s)"
  unfolding send_sql_def
  by (intro moves_ebind moves_intros moves_call quiet_query) (auto dest: carriedD)

lemma store_moves: "carried api get R \<Longrightarrow> moves get R (call (ZMySql_storeResult api))"
  by (intro moves_call) (auto dest: carriedD simp: carried_def quiet_def silent_def ZMySql_storeResult_def)

lemma tryLoadCode_moves:
  assumes "carried api get R"
  shows "moves get R (tryLoadCode wc api task)"
proof -
  note c = carriedD [OF assms]
  have "moves get R (call (makeDir api d))" "moves get R (call (write_file api n s))" for d n s
    using c(2) by (auto intro!: moves_call c(3) makeDir_silent simp: silent_def)
  then show ?thesis
    unfolding tryLoadCode_def
    by (intro moves_ebind moves_intros send_moves store_moves c assms)
qed

lemma row_task_moves:
  assumes "carried api get R"
  shows "moves get R (row_task mb config api row)"
proof -
  note c = carriedD [OF assms]
  have "moves get R (initializeData mb config api t)" for t
    using c(2,3) by (auto simp: moves_def reflp_def dest: initializeData_silent)
  then show ?thesis
    unfolding row_task_def TaskBase_new_def by (intro moves_ebind moves_intros c)
qed

lemma read_rows_moves:
  assumes "carried api get R" "\<And>t. moves get R (cb t)"
  shows "moves get R (read_rows mb wc config api (Some cb) rows)"
proof (induction rows)
  case Nil
  show ?case using carriedD [OF assms(1)] by (simp add: moves_ret)
next
  case (Cons row rows)
  note c = carriedD [OF assms(1)]
  from Cons show ?case
    unfolding read_rows.simps DBManager_onRecivTask_def option.case
    by (intro moves_ebind moves_intros send_moves row_task_moves tryLoadCode_moves c assms)
qed

lemma doRead_turn_moves:
  assumes "carried api get R" "\<And>t. moves get R (cb t)"
  shows "moves get R (doRead_turn mb wc config api (Some cb) m)"
proof -
  note c = carriedD [OF assms(1)]
  have "moves get R (call (Sleep api 1000))"
    using c(2) by (intro moves_call c) (simp add: silent_def)
  then show ?thesis
    unfolding doRead_turn_def
    by (intro moves_ebind moves_intros send_moves store_moves read_rows_moves c assms)
qed

section \<open>The callback of main\<close>

fun receive_all :: "TaskBase list \<Rightarrow> program \<Rightarrow> program outcome" where
  "receive_all [] p = Inr p"
| "receive_all (t # ts) p = bind_outcome (onRecivTask t p) (receive_all ts)"

lemma receive_all_append:
  "receive_all (ts @ us) p = bind_outcome (receive_all ts p) (receive_all us)"
  by (induction ts arbitrary: p) (auto simp: bind_outcome_def split: sum.splits)

definition received_by :: "program \<Rightarrow> program \<Rightarrow> bool" where
  "received_by p q \<longleftrightarrow> (\<exists>ts. receive_all ts p = Inr q)"

lemma received_by_refl: "reflp received_by"
  by (rule reflpI) (auto simp: received_by_def intro: exI [of _ "[]"])

lemma received_by_trans: "transp received_by"
proof (rule transpI)
  fix p q r assume "received_by p q" "received_by q r"
  then obtain ts us where "receive_all ts p = Inr q" "receive_all us q = Inr r"
    by (auto simp: received_by_def)
  then have "receive_all (ts @ us) p = Inr r" by (simp add: receive_all_append)
  then show "received_by p r" by (auto simp: received_by_def)
qed

lemma recivCB_moves:
  "(\<And>p w. get (put p w) = p) \<Longrightarrow> moves get received_by (recivCB_main get put t)"
  by (auto simp: moves_def recivCB_main_def received_by_def split: sum.splits intro!: exI [of _ "[t]"])

lemma receive_all_reach:
  "pipe_reach config p \<Longrightarrow> receive_all ts (prog p) = Inr q \<Longrightarrow>
     pipe_reach config (p\<lparr>prog := q, received := received p @ ts\<rparr>)"
proof (induction ts arbitrary: p)
  case Nil
  then show ?case by (cases p) simp
next
  case (Cons t ts)
  then obtain r where r: "onRecivTask t (prog p) = Inr r" "receive_all ts r = Inr q"
    by (cases "onRecivTask t (prog p)") auto
  let ?p = "p\<lparr>prog := r, received := received p @ [t]\<rparr>"
  have "pipe_reach config ?p" using Cons.prems(1) pipe_step.receive [OF r(1)] by (rule pipe_reach.pipe_move)
  from Cons.IH [OF this] r(2) show ?case by simp
qed

text \<open>A turn of the write loop wrote one task, or nothing.\<close>

definition wrote :: "(TaskBase \<Rightarrow> ('w, unit) eff) \<Rightarrow> turn \<Rightarrow> TaskBase list \<Rightarrow> 'w \<Rightarrow> 'w \<Rightarrow> bool" where
  "wrote write_one r ts v v' \<longleftrightarrow>
     (if r = Turned then \<exists>t. ts = [t] \<and> write_one t v = Inr ((), v') else ts = [] \<and> v' = v)"

lemma write_turn_reach:
  assumes "pipe_reach config p" "dbMgr (prog p) = Some m"
    and "doWrite_turn wc config api m v = Inr ((r, m'), v')"
  shows "\<exists>ts. wrote (write_task wc config api) r ts v v' \<and>
    pipe_reach config (p\<lparr>prog := (prog p)\<lparr>dbMgr := Some m'\<rparr>, written := written p @ ts\<rparr>)"
proof -
  have same: "p\<lparr>prog := (prog p)\<lparr>dbMgr := Some m\<rparr>, written := written p @ []\<rparr> = p"
    using assms(2) by simp
  consider "m' = m" "r \<noteq> Turned" "v' = v"
    | q where "TaskMgr_get (m_finishTask m) = Inr (Some (None, q))" "m' = m\<lparr>m_finishTask := q\<rparr>"
        "r \<noteq> Turned" "v' = v"
    | t q where "TaskMgr_get (m_finishTask m) = Inr (Some (Some t, q))" "m' = m\<lparr>m_finishTask := q\<rparr>"
        "r = Turned" "write_task wc config api t v = Inr ((), v')"
    using assms(3)
    by (auto simp: doWrite_turn_def throw_def elim!: ebind_InrE split: if_splits sum.splits option.splits prod.splits)
  then show ?thesis
  proof cases
    case 1
    then have "wrote (write_task wc config api) r [] v v'" by (simp add: wrote_def)
    with 1 assms(1) same show ?thesis by metis
  next
    case (2 q)
    then have "wrote (write_task wc config api) r [] v v'" by (simp add: wrote_def)
    with pipe_reach.pipe_move [OF assms(1) pipe_step.write_end [OF assms(2) 2(1)]] 2(2) show ?thesis
      by (intro exI [of _ "[]"]) simp
  next
    case (3 t q)
    then have "wrote (write_task wc config api) r [t] v v'" by (simp add: wrote_def)
    with pipe_reach.pipe_move [OF assms(1) pipe_step.write_out [OF assms(2) 3(1)]] 3(2) show ?thesis
      by (intro exI [of _ "[t]"]) simp
  qed
qed

section \<open>Properties\<close>

text \<open>
  C13: the two loops of the database manager are steps of the program's pipeline.  A turn of the read
  loop, with the callback of \<open>main\<close>, whatever the server answers and wherever it is left, only adds
  received tasks; a turn of the write loop that counts as one writes exactly one finished task, by the
  statements of that task, and any other turn writes none.
\<close>

theorem manager_turns_refine:
  assumes "pipe_reach config p" and "dbMgr (prog p) = Some m"
    and "quiet api get" and "\<And>q w. get (put q w) = q" and "get w = prog p"
  shows "(\<forall>r w'. doRead_turn mb wc config api (Some (recivCB_main get put)) m w = Inr (r, w') \<longrightarrow>
      (\<exists>ts. pipe_reach config (p\<lparr>prog := get w', received := received p @ ts\<rparr>))) \<and>
    (\<forall>r m' w'. doWrite_turn wc config api m w = Inr ((r, m'), w') \<longrightarrow> get w' = prog p \<and>
      (\<exists>ts. wrote (write_task wc config api) r ts w w' \<and>
        pipe_reach config (p\<lparr>prog := (prog p)\<lparr>dbMgr := Some m'\<rparr>, written := written p @ ts\<rparr>)))"
proof (intro conjI allI impI)
  fix r w' assume run: "doRead_turn mb wc config api (Some (recivCB_main get put)) m w = Inr (r, w')"
  have "carried api get received_by"
    using assms(3) received_by_refl received_by_trans by (simp add: carried_def)
  then have "moves get received_by (doRead_turn mb wc config api (Some (recivCB_main get put)) m)"
    using assms(4) by (intro doRead_turn_moves recivCB_moves)
  with run have "received_by (get w) (get w')" unfolding moves_def by blast
  with assms(5) obtain ts where "receive_all ts (prog p) = Inr (get w')" by (auto simp: received_by_def)
  then show "\<exists>ts. pipe_reach config (p\<lparr>prog := get w', received := received p @ ts\<rparr>)"
    using receive_all_reach [OF assms(1)] by blast
next
  fix r m' w' assume run: "doWrite_turn wc config api m w = Inr ((r, m'), w')"
  have c: "carried api get (=)" using assms(3) by (simp add: carried_def)
  have "moves get (=) (send_all api ss)" for ss
    by (induction ss) (auto intro!: moves_ebind moves_ret send_moves c)
  then have all: "send_all api ss u = Inr (x, u') \<Longrightarrow> get u' = get u" for ss u x u'
    by (auto simp: moves_def)
  from run have "get w' = get w"
    by (auto simp: doWrite_turn_def write_task_statements throw_def elim!: ebind_InrE dest!: all
        split: if_splits sum.splits option.splits prod.splits)
  with assms(5) show "get w' = prog p" by simp
  show "\<exists>ts. wrote (write_task wc config api) r ts w w' \<and>
      pipe_reach config (p\<lparr>prog := (prog p)\<lparr>dbMgr := Some m'\<rparr>, written := written p @ ts\<rparr>)"
    using write_turn_reach [OF assms(1,2) run] .
qed

text \<open>A database with one submission, next to the variables of the program.\<close>

record judge_world = mem_fs +
  jw_sent :: "string list"
  jw_prog :: program

definition judge_sql :: "judge_world db_api" where
  "judge_sql = file_api.extend mem_files
     \<lparr>mysql_library_init = \<lambda>w. (0, w), mysql_library_end = \<lambda>w. ((), w),
      mysql_options = \<lambda>opt arg w. (0, w), mysql_init = \<lambda>w. (True, w),
      mysql_real_connect = \<lambda>h u p d port w. (True, w), mysql_select_db = \<lambda>d w. (0, w),
      mysql_close = \<lambda>w. ((), w),
      mysql_real_query = \<lambda>sql w. (0, w\<lparr>jw_sent := sql # jw_sent w\<rparr>),
      mysql_store_result = \<lambda>w. (Some \<lparr>res_fields = [], res_rows =
        if jw_sent w = [problem_query sample_config] then take 1 two_rows else []\<rparr>, w),
      mysql_real_escape_string = \<lambda>s. s,
      mysql_free_result = \<lambda>r w. ((), w), mysql_errno = \<lambda>w. 0, mysql_error = \<lambda>w. [],
      mysql_affected_rows = \<lambda>w. 0, mysql_insert_id = \<lambda>w. 0\<rparr>"

definition judge_world_new :: judge_world where
  "judge_world_new = mem_fs.extend sample_fs \<lparr>jw_sent = [], jw_prog = program_start sample_config\<rparr>"

definition put_prog :: "program \<Rightarrow> judge_world \<Rightarrow> judge_world" where
  "put_prog p w = w\<lparr>jw_prog := p\<rparr>"

definition one_read :: "(turn \<times> judge_world) outcome" where
  "one_read = doRead_turn nul_ended id sample_config judge_sql (Some (recivCB_main jw_prog put_prog)) DBManager_new judge_world_new"

lemma one_read_runs:
  "map_sum id (\<lambda>(r, w). map_option (\<lambda>c. map m_solutionID (c_added c)) (judgeCell (jw_prog w))) one_read =
     Inr (Some [1001])"
  by code_simp

lemma map_sum_returns: "map_sum id f x = Inr y \<Longrightarrow> \<exists>z. x = Inr z"
  by (cases x) auto

theorem manager_turns_refine_witness:
  "\<exists>r w' ts. one_read = Inr (r, w') \<and>
     pipe_reach sample_config \<lparr>prog = jw_prog w', received = ts, written = []\<rparr>"
proof -
  let ?p = "\<lparr>prog = program_start sample_config, received = [], written = []\<rparr>"
  obtain r w' where run: "one_read = Inr (r, w')"
    using map_sum_returns [OF one_read_runs] by (metis old.prod.exhaust)
  have "quiet judge_sql jw_prog"
    by (simp add: quiet_def silent_def judge_sql_def mem_files_def file_api.defs fs_delete_def)
  moreover have "jw_prog (put_prog q w) = q" for q w by (simp add: put_prog_def)
  moreover have "jw_prog judge_world_new = prog ?p"
    by (simp add: judge_world_new_def mem_fs.defs sample_fs_def mem_fs_new_def)
  moreover have "dbMgr (prog ?p) = Some DBManager_new" by (simp add: program_start_def)
  ultimately have "\<exists>ts. pipe_reach sample_config (?p\<lparr>prog := jw_prog w', received := received ?p @ ts\<rparr>)"
    using manager_turns_refine [where p = ?p and m = DBManager_new and api = judge_sql and get = jw_prog
        and put = put_prog and w = judge_world_new and mb = nul_ended and wc = id and config = sample_config,
        OF pipe_reach.pipe_start] run
    unfolding one_read_def by blast
  then have "\<exists>ts. pipe_reach sample_config \<lparr>prog = jw_prog w', received = ts, written = []\<rparr>" by simp
  with run show ?thesis by blast
qed

end
