(* ===== verification/Outcome.thy ===== *)
theory Outcome
  imports Reporting Intake
begin

text \<open>
  A judgement inside the program of src/Judger/main.cpp: the worker's core reports to the database
  manager through the callback \<open>onFinishTask\<close>, and the manager's write thread sends what it was handed.
  Judgement, callback, queue and statements are composed here as the code composes them.
\<close>

section \<open>From the judgement to the database\<close>

lemma judge_parts:
  assumes "judge config api (createJudgeCore config api schedule i (Some cb)) t w = Inr ((ok, t'), w')"
  obtains b w1 x w2 where
    "doJudge config api (createJudgeCore config api schedule i (Some cb)) t w = Inr ((b, t'), w1)"
    "cb i t' w1 = Inr (x, w2)" "w' = snd (doCleanUp api t' w2)"
  using assms unfolding judge_def
  by (auto simp: onTaskFinish_def createJudgeCore_defs call_def prod_eq_iff elim!: ebind_InrE)

lemma reported_to_manager:
  assumes "untouched api get" and "\<And>q v. get (put q v) = q"
    and "dbMgr (get w) = Some m" and "TaskMgr_inv (m_finishTask m)" and "length (m_pool (m_finishTask m)) < SEMAPHORE_MAX"
    and "judge config api (createJudgeCore config api schedule i (Some (finishCB_main get put))) t w = Inr ((ok, t'), w')"
  obtains m' where "dbMgr (get w') = Some m'" "m_running m' = m_running m" "TaskMgr_inv (m_finishTask m')"
    "m_pool (m_finishTask m') = m_pool (m_finishTask m) @ [Some t']"
proof -
  from assms(6) obtain b w1 x w2 where
    j: "doJudge config api (createJudgeCore config api schedule i (Some (finishCB_main get put))) t w = Inr ((b, t'), w1)"
    and cb: "finishCB_main get put i t' w1 = Inr (x, w2)" and w': "w' = snd (doCleanUp api t' w2)"
    by (rule judge_parts)
  have "get w1 = get w" using still_judge [OF assms(1)] j by (auto simp: moves_def)
  with cb assms(2,3) have "get w2 = (get w)\<lparr>dbMgr := Some (addFinishTask t' m)\<rparr>"
    by (auto simp: finishCB_main_def onFinishTask_def)
  moreover have "get w' = get w2" using untouched_clean [OF assms(1)] w' by simp
  moreover have "TaskMgr_inv (TaskMgr_add (Some t') (m_finishTask m)) \<and>
      m_pool (TaskMgr_add (Some t') (m_finishTask m)) = m_pool (m_finishTask m) @ [Some t']"
    using assms(4,5) by (rule tasks.put_law)
  ultimately show ?thesis using that [of "addFinishTask t' m"] by (simp add: addFinishTask_def)
qed

section \<open>Property\<close>

text \<open>
  C6: what a judgement finds is what the database is told.  The judged task comes to the end of the
  queue of the database manager; when no other task is in front of it, the next turn of the write loop
  sends the six statements with its number, verdict and figures; and these are, if the judgement came
  to its end, the verdict of the last test that was run, the share of the accepted tests and the maxima
  of time and memory.
\<close>

theorem judged_then_written:
  assumes "untouched api get" and "\<And>q v. get (put q v) = q"
    and "dbMgr (get w) = Some m" and "m_running m" and "TaskMgr_inv (m_finishTask m)"
    and "m_pool (m_finishTask m) = []"
    and "judge config api (createJudgeCore config api schedule i (Some (finishCB_main get put))) t w = Inr ((ok, t'), w')"
    and "list_all is_int32 (task_ints config t')" and "0 \<le> m_passRate t'" and "m_passRate t' \<le> 1"
    and "length (c_str (wcharToChar wc (m_userName t'))) \<le> 400" and "m_result t' \<noteq> JE_COMPLIE config"
  shows "(\<exists>m' q. dbMgr (get w') = Some m' \<and>
      doWrite_turn wc config dapi m' v = Inr ((Turned, m'\<lparr>m_finishTask := q\<rparr>), fold (run_query dapi)
        (finished_statements config (c_str (wcharToChar wc (m_userName t'))) t') v) \<and> m_pool q = []) \<and>
    m_solutionID t' = m_solutionID t \<and>
    (\<exists>b w1. doJudge config api (createJudgeCore config api schedule i (Some (finishCB_main get put))) t w =
        Inr ((b, t'), w1) \<and>
      (b \<longrightarrow> (\<exists>t1 u os t2. CppCompiler_exc config api t w = Inr ((True, t1), u) \<and>
        judge_trace api (createJudgeCore config api schedule i (Some (finishCB_main get put)))
          (length (m_testData t)) 0 t1 u = Inr (((True, os), t2), w1) \<and>
        judge_report t os t' \<and> os \<noteq> [] \<and>
        test_verdict config (o_ok (last os)) (o_acc (last os)) (m_result t'))))"
proof -
  have room: "length (m_pool (m_finishTask m)) < SEMAPHORE_MAX"
    using assms(6) by (simp add: SEMAPHORE_MAX_def)
  let ?core = "createJudgeCore config api schedule i (Some (finishCB_main get put))"
  obtain m' where m': "dbMgr (get w') = Some m'" "m_running m' = m_running m" "TaskMgr_inv (m_finishTask m')"
    "m_pool (m_finishTask m') = m_pool (m_finishTask m) @ [Some t']"
    by (rule reported_to_manager [OF assms(1,2,3,5) room assms(7)])
  have run: "m_running m'" and pool: "m_pool (m_finishTask m') = [Some t']" using m' assms(4,6) by simp_all
  obtain q where q: "doWrite_turn wc config dapi m' v = Inr ((Turned, m'\<lparr>m_finishTask := q\<rparr>), fold (run_query dapi)
      (finished_statements config (c_str (wcharToChar wc (m_userName t'))) t') v)" "m_pool q = []"
    using write_turn_head [OF run m'(3) pool assms(8-12), of dapi v] by (elim exE conjE) (rule that)
  obtain b w1 where j: "doJudge config api ?core t w = Inr ((b, t'), w1)"
    using assms(7) by (rule judge_parts) blast
  have id: "m_solutionID t' = m_solutionID t"
    using yieldsD [OF judger.doJudge_frame j] by (simp add: task_id_def)
  have tests: "\<exists>t1 u os t2. CppCompiler_exc config api t w = Inr ((True, t1), u) \<and>
      judge_trace api ?core (length (m_testData t)) 0 t1 u = Inr (((True, os), t2), w1) \<and>
      judge_report t os t' \<and> os \<noteq> [] \<and>
      test_verdict config (o_ok (last os)) (o_acc (last os)) (m_result t')" if b
    using j that by (intro doJudge_tests) simp
  show ?thesis
  proof (intro conjI)
    show "\<exists>m' q. dbMgr (get w') = Some m' \<and>
        doWrite_turn wc config dapi m' v = Inr ((Turned, m'\<lparr>m_finishTask := q\<rparr>), fold (run_query dapi)
          (finished_statements config (c_str (wcharToChar wc (m_userName t'))) t') v) \<and> m_pool q = []"
      using m'(1) q by blast
    show "\<exists>b w1. doJudge config api ?core t w = Inr ((b, t'), w1) \<and> (b \<longrightarrow>
        (\<exists>t1 u os t2. CppCompiler_exc config api t w = Inr ((True, t1), u) \<and>
          judge_trace api ?core (length (m_testData t)) 0 t1 u = Inr (((True, os), t2), w1) \<and>
          judge_report t os t' \<and> os \<noteq> [] \<and>
          test_verdict config (o_ok (last os)) (o_acc (last os)) (m_result t')))"
      using j tests by (intro exI [of _ b] exI [of _ w1] conjI impI)
  qed (rule id)
qed

text \<open>The two tests of Core in a world that also holds the variables of \<open>main\<close>.\<close>

record run_world = mem_os +
  rw_prog :: program

definition put_run :: "program \<Rightarrow> run_world \<Rightarrow> run_world" where
  "put_run p w = w\<lparr>rw_prog := p\<rparr>"

definition run_world_new :: run_world where
  "run_world_new = mem_os.extend two_tests_os \<lparr>rw_prog = program_start sample_config\<rparr>"

definition main_core :: "run_world JudgeCore" where
  "main_core = createJudgeCore sample_config mem_processes (\<lambda>_. [True, True, False]) 0
     (Some (finishCB_main rw_prog put_run))"

definition main_judged :: TaskBase where
  "main_judged = demo_task\<lparr>m_result := 4, m_passRate := 1 / 2, m_runTime := 7, m_runMemory := 4,
     m_curTestDataIndex := 1, m_curInputTestData := ''2.in'', m_curOutputTestData := ''2.out''\<rparr>"

lemma main_core_run:
  "map_sum id (\<lambda>((ok, t'), w'). (ok, t')) (judge sample_config mem_processes main_core demo_task run_world_new) =
     Inr (True, main_judged)"
  by code_simp

theorem judged_then_written_witness:
  "\<exists>w' m' q. judge sample_config mem_processes main_core demo_task run_world_new = Inr ((True, main_judged), w') \<and>
     dbMgr (rw_prog w') = Some m' \<and>
     doWrite_turn id sample_config mem_sql m' mem_db_new = Inr ((Turned, m'\<lparr>m_finishTask := q\<rparr>),
       fold (run_query mem_sql) (finished_statements sample_config (c_str (m_userName main_judged)) main_judged)
         mem_db_new) \<and> m_pool q = []"
proof -
  obtain w' where run: "judge sample_config mem_processes main_core demo_task run_world_new = Inr ((True, main_judged), w')"
    using main_core_run by (cases "judge sample_config mem_processes main_core demo_task run_world_new") auto
  have w: "wcharToChar id (m_userName main_judged) = c_str (m_userName main_judged)"
    "c_str (c_str (m_userName main_judged)) = c_str (m_userName main_judged)"
    by code_simp+
  have "\<exists>m' q. dbMgr (rw_prog w') = Some m' \<and>
      doWrite_turn id sample_config mem_sql m' mem_db_new = Inr ((Turned, m'\<lparr>m_finishTask := q\<rparr>),
        fold (run_query mem_sql) (finished_statements sample_config
          (c_str (wcharToChar id (m_userName main_judged))) main_judged) mem_db_new) \<and> m_pool q = []"
  proof (rule judged_then_written [where get = rw_prog and put = put_run and w' = w' and w = run_world_new
      and m = DBManager_new and ok = True, THEN conjunct1])
    show "judge sample_config mem_processes (createJudgeCore sample_config mem_processes
        (\<lambda>_. [True, True, False]) 0 (Some (finishCB_main rw_prog put_run))) demo_task run_world_new =
        Inr ((True, main_judged), w')"
      using run by (simp add: main_core_def)
    show "untouched (mem_processes :: run_world process_api) rw_prog"
      by (simp add: untouched_def mem_processes_def mem_files_def file_api.defs fs_delete_def fs_open_def
          split: list.split access.split)
    show "dbMgr (rw_prog run_world_new) = Some DBManager_new"
      by (simp add: run_world_new_def mem_os.defs two_tests_os_def mem_os_new_def mem_fs.defs program_start_def)
    show "list_all is_int32 (task_ints sample_config main_judged)" by code_simp
    show "0 \<le> m_passRate main_judged" "m_passRate main_judged \<le> 1" by (simp_all add: main_judged_def)
    show "length (c_str (wcharToChar id (m_userName main_judged))) \<le> 400" by code_simp
    show "m_result main_judged \<noteq> JE_COMPLIE sample_config" by code_simp
  qed (simp_all add: put_run_def DBManager_new_def tasks.new_inv tasks.new_abs)
  with run w show ?thesis by auto
qed

end
