(* ===== verification/Network.thy ===== *)
theory Network
  imports TaskQueue
begin

text \<open>
  The message library of src/acm/ZNet.cpp and Commen/ZNet.h: a client's two threads, turn by turn,
  the frames they exchange, and the server with its status and its pool of connections.  Winsock
  is an argument.  \<open>recv\<close> delivers at most the number of bytes asked for, nothing when the peer has
  closed the connection, and \<open>None\<close> for \<open>SOCKET_ERROR\<close>; \<open>fresh\<close> is what memory from \<open>new char[n]\<close>
  holds.  Console messages are left out; the code that \<open>onError\<close> is given is not used there.
\<close>

section \<open>The socket calls\<close>

type_synonym SOCKET = int

record 'w net_api =
  WSAStartup :: "'w \<Rightarrow> int \<times> 'w"
  WSACleanup :: "'w \<Rightarrow> int \<times> 'w"
  net_socket :: "'w \<Rightarrow> SOCKET \<times> 'w"
  net_bind :: "SOCKET \<Rightarrow> int \<Rightarrow> 'w \<Rightarrow> bool \<times> 'w"
  net_listen :: "SOCKET \<Rightarrow> int \<Rightarrow> 'w \<Rightarrow> bool \<times> 'w"
  net_accept :: "SOCKET \<Rightarrow> 'w \<Rightarrow> (SOCKET \<times> string \<times> int) option \<times> 'w"
  net_connect :: "SOCKET \<Rightarrow> string \<Rightarrow> int \<Rightarrow> 'w \<Rightarrow> bool \<times> 'w"
  net_recv :: "SOCKET \<Rightarrow> int \<Rightarrow> 'w \<Rightarrow> string option \<times> 'w"
  net_send :: "SOCKET \<Rightarrow> string \<Rightarrow> 'w \<Rightarrow> bool \<times> 'w"
  net_close :: "SOCKET \<Rightarrow> 'w \<Rightarrow> unit \<times> 'w"
  fresh :: "nat \<Rightarrow> 'w \<Rightarrow> string \<times> 'w"

definition ZNET_NONE :: int where "ZNET_NONE = 0"
definition ZNET_CREATE :: int where "ZNET_CREATE = 1"
definition ZNET_BIND :: int where "ZNET_BIND = 2"
definition ZNET_LISTEN :: int where "ZNET_LISTEN = 3"
definition ZNET_ACCEPT :: int where "ZNET_ACCEPT = 4"
definition ZNET_CONNECT :: int where "ZNET_CONNECT = 5"

lemmas znet_defs = ZNET_NONE_def ZNET_CREATE_def ZNET_BIND_def ZNET_LISTEN_def ZNET_ACCEPT_def
  ZNET_CONNECT_def

text \<open>\<open>ZNet\<close> starts the socket library and stops it; what the two calls answer is not looked at.\<close>

definition ZNet_new :: "('w, 'x) net_api_scheme \<Rightarrow> 'w \<Rightarrow> 'w" where
  "ZNet_new api w = snd (WSAStartup api w)"

definition ZNet_destroy :: "('w, 'x) net_api_scheme \<Rightarrow> 'w \<Rightarrow> 'w" where
  "ZNet_destroy api w = snd (WSACleanup api w)"

section \<open>The client\<close>

record ZClientBase =
  m_running :: bool
  m_socket :: SOCKET
  m_port :: int
  m_address :: string
  m_msgMgr :: "string TaskMgr"

definition ZClientBase_new :: ZClientBase where
  "ZClientBase_new =
     \<lparr>m_running = False, m_socket = 0, m_port = 0, m_address = '''', m_msgMgr = TaskMgr_new\<rparr>"

definition ZClientBase_send :: "string \<Rightarrow> 'a ZClientBase_scheme \<Rightarrow> 'a ZClientBase_scheme" where
  "ZClientBase_send msg c = c\<lparr>m_msgMgr := TaskMgr_add msg (m_msgMgr c)\<rparr>"

definition ZClientBase_close ::
    "('w, 'x) net_api_scheme \<Rightarrow> 'a ZClientBase_scheme \<Rightarrow> 'w \<Rightarrow> 'a ZClientBase_scheme \<times> 'w" where
  "ZClientBase_close api c w =
     (if m_socket c = 0 then (c, w)
      else (let c1 = ZClientBase_send ''$exit'' (c\<lparr>m_running := False\<rparr>);
                (_, w1) = net_close api (m_socket c1) w
            in (c1\<lparr>m_socket := 0\<rparr>, w1)))"

text \<open>In the destructor the class's own \<open>close\<close> is called; after it the two threads are waited for.\<close>

definition ZClientBase_destroy ::
    "('w, 'x) net_api_scheme \<Rightarrow> 'a ZClientBase_scheme \<Rightarrow> 'w \<Rightarrow> 'a ZClientBase_scheme \<times> 'w" where
  "ZClientBase_destroy api c w = ZClientBase_close api c w"

lemma destroyed_client_stops:
  "m_socket c \<noteq> 0 \<Longrightarrow> \<not> m_running (fst (ZClientBase_destroy api c w))"
  by (simp add: ZClientBase_destroy_def ZClientBase_close_def ZClientBase_send_def Let_def case_prod_beta)

text \<open>\<open>close\<close> is virtual; \<open>close_op\<close> stands for the class's own.\<close>

definition ZClientBase_onError ::
    "('a ZClientBase_scheme \<Rightarrow> 'w \<Rightarrow> 'a ZClientBase_scheme \<times> 'w) \<Rightarrow> 'a ZClientBase_scheme \<Rightarrow> 'w \<Rightarrow>
       'a ZClientBase_scheme \<times> 'w" where
  "ZClientBase_onError close_op c w = close_op (c\<lparr>m_running := False\<rparr>) w"

section \<open>The receiving thread\<close>

text \<open>
  One turn of the loop; \<open>head\<close> is the buffer of 32 characters on the thread's stack, which keeps its
  contents from turn to turn.  \<open>Bad\<close> is data without the mark, \<open>Msg\<close> a message handed to
  \<open>onReceivMsg\<close>, \<open>Ended\<close> the end of the loop.  \<open>running\<close> is the virtual \<open>isRunning\<close>.
\<close>

datatype recv_turn = Ended | Bad | Msg string

definition fill :: "string \<Rightarrow> string \<Rightarrow> string" where
  "fill data buffer = data @ drop (length data) buffer"

definition frame_length :: "string \<Rightarrow> int" where
  "frame_length head = atoi (c_str (drop 1 (head[6 := CHR 0x00])))"

definition new_chars :: "('w, 'x) net_api_scheme \<Rightarrow> int \<Rightarrow> ('w, string) eff" where
  "new_chars api n = (if n < 0 then throw BadAlloc else call (fresh api (nat n)))"

definition put_nul :: "int \<Rightarrow> string \<Rightarrow> string outcome" where
  "put_nul i buffer = (if i < 0 then Inl OutOfRange else Inr (buffer[nat i := CHR 0x00]))"

definition threadReceiv_turn ::
    "('a ZClientBase_scheme \<Rightarrow> bool) \<Rightarrow> ('a ZClientBase_scheme \<Rightarrow> 'w \<Rightarrow> 'a ZClientBase_scheme \<times> 'w) \<Rightarrow>
       ('w, 'x) net_api_scheme \<Rightarrow> string \<Rightarrow> 'a ZClientBase_scheme \<Rightarrow>
       ('w, recv_turn \<times> string \<times> 'a ZClientBase_scheme) eff" where
  "threadReceiv_turn running close_op api head c =
     (if \<not> running c then ret (Ended, head, c)
      else ebind (call (net_recv api (m_socket c) 5)) (\<lambda>r.
        case r of
          None \<Rightarrow> ebind (call (ZClientBase_onError close_op c)) (\<lambda>c1. ret (Ended, head, c1))
        | Some data \<Rightarrow>
            let head1 = fill data head
            in if head1 ! 0 \<noteq> CHR ''@'' then ret (Bad, head1, c)
               else
                 let head2 = head1[6 := CHR 0x00]; len = frame_length head1
                 in ebind (new_chars api (len + 1)) (\<lambda>buffer.
                    ebind (call (net_recv api (m_socket c) len)) (\<lambda>r2.
                      case r2 of
                        None \<Rightarrow> ebind (call (ZClientBase_onError close_op c)) (\<lambda>c1. ret (Ended, head2, c1))
                      | Some body \<Rightarrow>
                          ebind (lift (put_nul len (fill body buffer))) (\<lambda>b.
                            ret (Msg (c_str b), head2, c))))))"

section \<open>The sending thread\<close>

text \<open>\<open>Sent\<close> is a frame that was sent, \<open>Skipped\<close> an empty message, \<open>Idle\<close> a turn that waits for one.\<close>

datatype send_turn = SendEnded | Skipped | SendIdle | Sent

definition frame_head :: "nat \<Rightarrow> string" where
  "frame_head len = CHR ''@'' # pad_zero 4 (show_nat len)"

definition threadSend_turn ::
    "('a ZClientBase_scheme \<Rightarrow> bool) \<Rightarrow> ('a ZClientBase_scheme \<Rightarrow> 'w \<Rightarrow> 'a ZClientBase_scheme \<times> 'w) \<Rightarrow>
       ('w, 'x) net_api_scheme \<Rightarrow> 'a ZClientBase_scheme \<Rightarrow>
       ('w, send_turn \<times> 'a ZClientBase_scheme) eff" where
  "threadSend_turn running close_op api c =
     (if \<not> running c then ret (SendEnded, c)
      else ebind (lift (TaskMgr_get (m_msgMgr c))) (\<lambda>r.
        case r of
          None \<Rightarrow> ret (SendIdle, c)
        | Some (msg, q) \<Rightarrow>
            let c1 = c\<lparr>m_msgMgr := q\<rparr>
            in if msg = [] then ret (Skipped, c1)
               else if msg = ''$exit'' then ret (SendEnded, c1)
               else
                 let len = length msg; packet = frame_head len @ msg
                 in ebind (call (net_send api (m_socket c1) (take (len + 5) packet))) (\<lambda>ok.
                      if \<not> ok then ebind (call (ZClientBase_onError close_op c1)) (\<lambda>c2. ret (SendEnded, c2))
                      else ret (Sent, c1))))"

section \<open>The connecting client\<close>

record ZClient = ZClientBase +
  client_status :: int

definition ZClient_new :: ZClient where
  "ZClient_new = ZClientBase.extend ZClientBase_new \<lparr>client_status = 0\<rparr>"

definition ZClient_create :: "('w, 'x) net_api_scheme \<Rightarrow> ZClient \<Rightarrow> 'w \<Rightarrow> (bool \<times> ZClient) \<times> 'w" where
  "ZClient_create api c w =
     (let (s, w1) = net_socket api w;
          st = (if s = 0 then - ZNET_CREATE else ZNET_CREATE)
      in ((st = ZNET_CREATE, c\<lparr>client_status := st, m_socket := s\<rparr>), w1))"

definition ZClient_connect ::
    "('w, 'x) net_api_scheme \<Rightarrow> string \<Rightarrow> int \<Rightarrow> ZClient \<Rightarrow> 'w \<Rightarrow> (bool \<times> ZClient) \<times> 'w" where
  "ZClient_connect api addr p c w =
     (let c1 = c\<lparr>m_address := addr, m_port := p\<rparr>
      in if client_status c1 < 0 then ((False, c1), w)
         else (let (ok, w1) = net_connect api (m_socket c1) (c_str addr) p w
               in if \<not> ok then ((False, c1\<lparr>client_status := - ZNET_CONNECT\<rparr>), w1)
                  else ((True, c1\<lparr>client_status := ZNET_CONNECT, m_running := True\<rparr>), w1)))"

definition ZClient_start ::
    "('w, 'x) net_api_scheme \<Rightarrow> string \<Rightarrow> int \<Rightarrow> ZClient \<Rightarrow> 'w \<Rightarrow> (bool \<times> ZClient) \<times> 'w" where
  "ZClient_start api addr p c w =
     (let ((ok, c1), w1) = ZClient_create api c w
      in if \<not> ok then ((False, c1), w1) else ZClient_connect api addr p c1 w1)"

definition ZClient_close :: "('w, 'x) net_api_scheme \<Rightarrow> ZClient \<Rightarrow> 'w \<Rightarrow> ZClient \<times> 'w" where
  "ZClient_close api c w = ZClientBase_close api (c\<lparr>client_status := ZNET_NONE\<rparr>) w"

section \<open>The server\<close>

record ZClientNode = ZClientBase +
  node_id :: int

record ZServer =
  srv_socket :: SOCKET
  srv_port :: int
  m_status :: int
  srv_running :: bool
  m_pool :: "ZClientNode list"
  s_idAllocator :: int

text \<open>The members \<open>m_socket\<close> and \<open>m_port\<close> are not initialised; \<open>s\<close> and \<open>p\<close> are what they hold.\<close>

definition ZServer_new :: "SOCKET \<Rightarrow> int \<Rightarrow> ZServer" where
  "ZServer_new s p =
     \<lparr>srv_socket = s, srv_port = p, m_status = ZNET_NONE, srv_running = False, m_pool = [],
      s_idAllocator = 100\<rparr>"

definition ZClientNode_new :: "ZServer \<Rightarrow> SOCKET \<Rightarrow> string \<Rightarrow> int \<Rightarrow> ZClientNode \<times> ZServer" where
  "ZClientNode_new srv sock addr p =
     (let i = int32 (s_idAllocator srv + 1)
      in (ZClientBase.extend (ZClientBase_new\<lparr>m_socket := sock, m_address := addr, m_port := p, m_running := True\<rparr>)
            \<lparr>node_id = i\<rparr>,
          srv\<lparr>s_idAllocator := i\<rparr>))"

definition ZClientNode_isRunning :: "ZServer \<Rightarrow> ZClientNode \<Rightarrow> bool" where
  "ZClientNode_isRunning srv c \<longleftrightarrow> m_running c \<and> srv_running srv"

definition ZServer_create :: "('w, 'x) net_api_scheme \<Rightarrow> ZServer \<Rightarrow> 'w \<Rightarrow> (bool \<times> ZServer) \<times> 'w" where
  "ZServer_create api srv w =
     (let (s, w1) = net_socket api w;
          st = (if s = 0 then - ZNET_CREATE else ZNET_CREATE)
      in ((st = ZNET_CREATE, srv\<lparr>m_status := st, srv_socket := s\<rparr>), w1))"

definition ZServer_bind :: "('w, 'x) net_api_scheme \<Rightarrow> int \<Rightarrow> ZServer \<Rightarrow> 'w \<Rightarrow> (bool \<times> ZServer) \<times> 'w" where
  "ZServer_bind api p srv w =
     (if m_status srv \<noteq> ZNET_CREATE then ((False, srv), w)
      else (let (ok, w1) = net_bind api (srv_socket srv) p w;
                st = (if ok then ZNET_BIND else - ZNET_BIND)
            in ((st = ZNET_BIND, srv\<lparr>m_status := st, srv_port := p\<rparr>), w1)))"

definition ZServer_listen :: "('w, 'x) net_api_scheme \<Rightarrow> int \<Rightarrow> ZServer \<Rightarrow> 'w \<Rightarrow> (bool \<times> ZServer) \<times> 'w" where
  "ZServer_listen api maxAmount srv w =
     (if m_status srv \<noteq> ZNET_BIND then ((False, srv), w)
      else (let (ok, w1) = net_listen api (srv_socket srv) 20 w;
                st = (if ok then ZNET_LISTEN else - ZNET_LISTEN)
            in ((st = ZNET_LISTEN, srv\<lparr>m_status := st\<rparr>), w1)))"

definition ZServer_accept :: "ZServer \<Rightarrow> bool \<times> ZServer" where
  "ZServer_accept srv =
     (if m_status srv \<noteq> ZNET_LISTEN then (False, srv)
      else (True, srv\<lparr>srv_running := True, m_status := ZNET_ACCEPT\<rparr>))"

definition ZServer_start ::
    "('w, 'x) net_api_scheme \<Rightarrow> int \<Rightarrow> int \<Rightarrow> ZServer \<Rightarrow> 'w \<Rightarrow> (bool \<times> ZServer) \<times> 'w" where
  "ZServer_start api p acceptMax srv w =
     (let ((ok, s1), w1) = ZServer_create api srv w
      in if \<not> ok then ((False, s1), w1)
         else (let ((ok, s2), w2) = ZServer_bind api p s1 w1
               in if \<not> ok then ((False, s2), w2)
                  else (let ((ok, s3), w3) = ZServer_listen api acceptMax s2 w2
                        in if \<not> ok then ((False, s3), w3) else (ZServer_accept s3, w3))))"

definition addClient :: "ZClientNode \<Rightarrow> ZServer \<Rightarrow> ZServer" where
  "addClient node srv = srv\<lparr>m_pool := m_pool srv @ [node]\<rparr>"

text \<open>Nodes are compared by address; two nodes with one number do not occur before the number wraps.\<close>

definition removeClient :: "ZClientNode \<Rightarrow> ZServer \<Rightarrow> ZServer" where
  "removeClient node srv = srv\<lparr>m_pool := filter (\<lambda>c. node_id c \<noteq> node_id node) (m_pool srv)\<rparr>"

definition getClient :: "int \<Rightarrow> ZServer \<Rightarrow> ZClientNode option" where
  "getClient i srv = List.find (\<lambda>c. node_id c = i) (m_pool srv)"

text \<open>The node is shared with the pool, so sending changes the first node with that number there.\<close>

fun update_first :: "('a \<Rightarrow> bool) \<Rightarrow> ('a \<Rightarrow> 'a) \<Rightarrow> 'a list \<Rightarrow> 'a list" where
  "update_first P f [] = []"
| "update_first P f (x # xs) = (if P x then f x # xs else x # update_first P f xs)"

definition ZServer_send :: "int \<Rightarrow> string \<Rightarrow> ZServer \<Rightarrow> ZServer" where
  "ZServer_send i msg srv =
     (case getClient i srv of
        None \<Rightarrow> srv
      | Some c \<Rightarrow> srv\<lparr>m_pool := update_first (\<lambda>c. node_id c = i) (ZClientBase_send msg) (m_pool srv)\<rparr>)"

definition checkDead :: "ZServer \<Rightarrow> ZServer" where
  "checkDead srv = srv\<lparr>m_pool := filter (ZClientNode_isRunning srv) (m_pool srv)\<rparr>"

definition threadProcAccept_turn :: "('w, 'x) net_api_scheme \<Rightarrow> ZServer \<Rightarrow> 'w \<Rightarrow> (bool \<times> ZServer) \<times> 'w" where
  "threadProcAccept_turn api srv w =
     (if \<not> srv_running srv then ((False, srv), w)
      else (case net_accept api (srv_socket srv) w of
              (None, w1) \<Rightarrow> ((True, srv), w1)
            | (Some (sock, addr, p), w1) \<Rightarrow>
                (let (node, s1) = ZClientNode_new srv sock addr p
                 in ((True, checkDead (addClient node s1)), w1))))"

fun close_all :: "('w, 'x) net_api_scheme \<Rightarrow> ZClientNode list \<Rightarrow> 'w \<Rightarrow> ZClientNode list \<times> 'w" where
  "close_all api [] w = ([], w)"
| "close_all api (c # cs) w =
     (let (c1, w1) = ZClientBase_close api c w; (cs1, w2) = close_all api cs w1 in (c1 # cs1, w2))"

definition ZServer_close :: "('w, 'x) net_api_scheme \<Rightarrow> ZServer \<Rightarrow> 'w \<Rightarrow> ZServer \<times> 'w" where
  "ZServer_close api srv w =
     (let s1 = srv\<lparr>srv_running := False, m_status := ZNET_NONE\<rparr>;
          w1 = (if srv_socket s1 \<noteq> 0 then snd (net_close api (srv_socket s1) w) else w);
          (cs, w2) = close_all api (m_pool s1) w1
      in (s1\<lparr>m_pool := cs\<rparr>, w2))"

section \<open>A reliable connection\<close>

text \<open>
  \<open>view\<close> is what has been sent and not yet received.  Sending appends all of its data; \<open>recv\<close> delivers
  as much as it is asked for when that much is there; memory has the size that was asked for.
\<close>

definition reliable :: "('w, 'x) net_api_scheme \<Rightarrow> ('w \<Rightarrow> string) \<Rightarrow> bool" where
  "reliable api view \<longleftrightarrow>
     (\<forall>s data w. fst (net_send api s data w) \<and> view (snd (net_send api s data w)) = view w @ data) \<and>
     (\<forall>s n w. 0 \<le> n \<longrightarrow> nat n \<le> length (view w) \<longrightarrow>
        fst (net_recv api s n w) = Some (take (nat n) (view w)) \<and>
        view (snd (net_recv api s n w)) = drop (nat n) (view w)) \<and>
     (\<forall>n w. length (fst (fresh api n w)) = n \<and> view (snd (fresh api n w)) = view w)"

definition sendable :: "string \<Rightarrow> bool" where
  "sendable m \<longleftrightarrow> m \<noteq> [] \<and> m \<noteq> ''$exit'' \<and> length m < 10000 \<and> CHR 0x00 \<notin> set m"

text \<open>The receiver's buffer: the sixth character of the head is written by nobody.\<close>

definition head_ok :: "string \<Rightarrow> bool" where
  "head_ok head \<longleftrightarrow> length head = 32 \<and> \<not> is_digit (head ! 5)"

lemma length_show_nat_4: "n < 10000 \<Longrightarrow> length (show_nat n) \<le> 4"
  by (intro length_show_nat) auto

lemma length_frame_head: "n < 10000 \<Longrightarrow> length (frame_head n) = 5"
  using length_show_nat_4 [of n] by (simp add: frame_head_def pad_zero_def)

lemma atoi_pad:
  assumes "s = [] \<or> \<not> is_digit (hd s)" "int n \<le> 2 ^ 31 - 1"
  shows "atoi (pad_zero k (show_nat n) @ s) = int n"
proof -
  have ne: "pad_zero k (show_nat n) \<noteq> []" by (simp add: pad_zero_def)
  then obtain d u where d: "pad_zero k (show_nat n) = d # u" by (cases "pad_zero k (show_nat n)") auto
  then have "is_digit d" using pad_digits [of k n] by simp
  with d digit_not_special [OF this] read_digits_pad [OF assms(1), of k n] assms(2) show ?thesis
    by (simp add: atoi_def)
qed

text \<open>The length the receiver reads out of a head of five characters.\<close>

lemma frame_length_head:
  assumes "length ds = 4" "\<forall>c \<in> set ds. is_digit c" "head_ok head"
  shows "frame_length (CHR ''@'' # ds @ drop 5 head) =
    atoi (ds @ (if head ! 5 = CHR 0x00 then [] else [head ! 5]))"
proof -
  have "length (drop 6 head) = 26" using assms(3) by (simp add: head_ok_def)
  then obtain u t where t: "drop 6 head = u # t" by (cases "drop 6 head") auto
  have h: "drop 5 head = head ! 5 # u # t"
    using assms(3) t by (simp add: head_ok_def Cons_nth_drop_Suc [symmetric])
  have six: "(6 :: nat) = Suc (length ds + 1)" using assms(1) by simp
  have nul: "\<forall>c \<in> set ds. c \<noteq> CHR 0x00" using assms(2) by (auto simp: is_digit_def)
  have "drop 1 ((CHR ''@'' # ds @ drop 5 head)[6 := CHR 0x00]) = ds @ head ! 5 # CHR 0x00 # t"
    unfolding h six by (simp add: list_update_append)
  moreover have "c_str (ds @ head ! 5 # CHR 0x00 # t) = ds @ (if head ! 5 = CHR 0x00 then [] else [head ! 5])"
    using nul by (simp add: c_str_def takeWhile_append2)
  ultimately show ?thesis by (simp add: frame_length_def)
qed

lemma frame_length_ok:
  assumes "n < 10000" "head_ok head"
  shows "frame_length (frame_head n @ drop 5 head) = int n"
proof -
  have "length (pad_zero 4 (show_nat n)) = 4"
    using length_show_nat_4 [OF assms(1)] by (simp add: pad_zero_def)
  moreover have "atoi (pad_zero 4 (show_nat n) @ (if head ! 5 = CHR 0x00 then [] else [head ! 5])) = int n"
    using assms by (intro atoi_pad) (auto simp: head_ok_def)
  ultimately show ?thesis
    using frame_length_head [OF _ pad_digits assms(2), of 4 n] by (simp add: frame_head_def)
qed

lemma reliable_recv:
  assumes "reliable api view" "view w = a @ b" "n = int (length a)"
  obtains w' where "net_recv api s n w = (Some a, w')" "view w' = b"
proof -
  have "0 \<le> n \<longrightarrow> nat n \<le> length (view w) \<longrightarrow>
      fst (net_recv api s n w) = Some (take (nat n) (view w)) \<and>
      view (snd (net_recv api s n w)) = drop (nat n) (view w)"
    using assms(1) unfolding reliable_def by blast
  then have "fst (net_recv api s n w) = Some a" "view (snd (net_recv api s n w)) = b"
    using assms(2,3) by simp_all
  then show thesis by (intro that [of "snd (net_recv api s n w)"]) (simp_all add: prod_eq_iff)
qed

lemma reliable_send:
  assumes "reliable api view"
  obtains w' where "net_send api s data w = (True, w')" "view w' = view w @ data"
proof -
  have "fst (net_send api s data w) \<and> view (snd (net_send api s data w)) = view w @ data"
    using assms unfolding reliable_def by blast
  then show thesis by (intro that [of "snd (net_send api s data w)"]) (simp_all add: prod_eq_iff)
qed

lemma reliable_fresh:
  assumes "reliable api view"
  obtains b w' where "fresh api n w = (b, w')" "length b = n" "view w' = view w"
proof -
  have "length (fst (fresh api n w)) = n \<and> view (snd (fresh api n w)) = view w"
    using assms unfolding reliable_def by blast
  then show thesis by (intro that [of "fst (fresh api n w)" "snd (fresh api n w)"]) simp_all
qed

text \<open>One frame: what is between the head and the length it names is the message.\<close>

lemma receive_raw:
  assumes api: "reliable api view" and run: "running c" and m: "CHR 0x00 \<notin> set m"
    and head: "head_ok head" and ds: "length ds = 4"
    and len: "frame_length (CHR ''@'' # ds @ drop 5 head) = int (length m)"
    and w: "view w = CHR ''@'' # ds @ m @ rest"
  obtains head' w' where "threadReceiv_turn running close_op api head c w = Inr ((Msg m, head', c), w')"
    "head_ok head'" "view w' = rest"
proof -
  let ?n = "length m" and ?f = "CHR ''@'' # ds"
  let ?head = "?f @ drop 5 head"
  have f5: "length ?f = 5" using ds by simp
  obtain w1 where w1: "net_recv api (m_socket c) 5 w = (Some ?f, w1)" "view w1 = m @ rest"
    using reliable_recv [OF api, of w ?f "m @ rest" 5 "m_socket c"] w f5 by auto
  obtain b w2 where w2: "fresh api (?n + 1) w1 = (b, w2)" "length b = ?n + 1" "view w2 = view w1"
    by (rule reliable_fresh [OF api])
  obtain w3 where w3: "net_recv api (m_socket c) (int ?n) w2 = (Some m, w3)" "view w3 = rest"
    using reliable_recv [OF api, of w2 m rest "int ?n" "m_socket c"] w1(2) w2(3) by auto
  obtain x where x: "drop ?n b = [x]" using w2(2) by (cases "drop ?n b") (auto dest: arg_cong [of _ _ length])
  have put: "put_nul (int ?n) (fill m b) = Inr (m @ [CHR 0x00])"
    by (simp add: put_nul_def fill_def x list_update_append)
  have msg: "c_str (m @ [CHR 0x00]) = m" using m by (induction m) (auto simp: c_str_def)
  have "threadReceiv_turn running close_op api head c w = Inr ((Msg m, ?head[6 := CHR 0x00], c), w3)"
    using run w1 w2 w3 put msg len f5
    by (simp add: threadReceiv_turn_def ebind_def call_def lift_def fill_def new_chars_def ret_def Let_def
        nat_add_distrib)
  moreover have "head_ok (?head[6 := CHR 0x00])"
    using head f5 by (simp add: head_ok_def nth_append nth_Cons')
  ultimately show thesis using w3(2) that by blast
qed

lemma receive_frame:
  assumes api: "reliable api view" and run: "running c" and m: "length m < 10000" "CHR 0x00 \<notin> set m"
    and head: "head_ok head" and w: "view w = frame_head (length m) @ m @ rest"
  obtains head' w' where "threadReceiv_turn running close_op api head c w = Inr ((Msg m, head', c), w')"
    "head_ok head'" "view w' = rest"
proof -
  let ?ds = "pad_zero 4 (show_nat (length m))"
  have "length ?ds = 4" using length_frame_head [OF m(1)] by (simp add: frame_head_def)
  moreover have "frame_length (CHR ''@'' # ?ds @ drop 5 head) = int (length m)"
    using frame_length_ok [OF m(1) head] by (simp add: frame_head_def)
  moreover have "view w = CHR ''@'' # ?ds @ m @ rest" using w by (simp add: frame_head_def)
  ultimately show thesis by (rule receive_raw [where running = running and c = c, OF api run m(2) head]) (rule that)
qed

lemma send_frame:
  assumes api: "reliable api view" and run: "running c" and m: "sendable m"
    and q: "TaskMgr_inv (m_msgMgr c)" "TaskMgr.m_pool (m_msgMgr c) = m # ms"
  obtains q' w' where "threadSend_turn running close_op api c w = Inr ((Sent, c\<lparr>m_msgMgr := q'\<rparr>), w')"
    "TaskMgr_inv q'" "TaskMgr.m_pool q' = ms" "view w' = view w @ frame_head (length m) @ m"
proof -
  obtain q' where q': "TaskMgr_get (m_msgMgr c) = Inr (Some (m, q'))" "TaskMgr_inv q'" "TaskMgr.m_pool q' = ms"
    using tasks.take_head [OF q] by blast
  have "take (length m + 5) (frame_head (length m) @ m) = frame_head (length m) @ m"
    using m by (simp add: sendable_def length_frame_head)
  moreover obtain w' where "net_send api (m_socket c) (frame_head (length m) @ m) w = (True, w')"
    "view w' = view w @ frame_head (length m) @ m"
    by (rule reliable_send [OF api])
  ultimately show thesis
    using run m q' that
    by (auto simp: threadSend_turn_def ebind_def lift_def call_def ret_def sendable_def Let_def)
qed

section \<open>Several turns\<close>

fun send_turns ::
    "nat \<Rightarrow> ('a ZClientBase_scheme \<Rightarrow> bool) \<Rightarrow> ('a ZClientBase_scheme \<Rightarrow> 'w \<Rightarrow> 'a ZClientBase_scheme \<times> 'w) \<Rightarrow>
       ('w, 'x) net_api_scheme \<Rightarrow> 'a ZClientBase_scheme \<Rightarrow> ('w, 'a ZClientBase_scheme) eff" where
  "send_turns 0 running close_op api c = ret c"
| "send_turns (Suc k) running close_op api c =
     ebind (threadSend_turn running close_op api c) (\<lambda>(_, c1). send_turns k running close_op api c1)"

fun recv_turns ::
    "nat \<Rightarrow> ('a ZClientBase_scheme \<Rightarrow> bool) \<Rightarrow> ('a ZClientBase_scheme \<Rightarrow> 'w \<Rightarrow> 'a ZClientBase_scheme \<times> 'w) \<Rightarrow>
       ('w, 'x) net_api_scheme \<Rightarrow> string \<Rightarrow> 'a ZClientBase_scheme \<Rightarrow> ('w, recv_turn list) eff" where
  "recv_turns 0 running close_op api head c = ret []"
| "recv_turns (Suc k) running close_op api head c =
     ebind (threadReceiv_turn running close_op api head c) (\<lambda>(r, head1, c1).
       ebind (recv_turns k running close_op api head1 c1) (\<lambda>rs. ret (r # rs)))"

definition frames :: "string list \<Rightarrow> string" where
  "frames ms = concat (map (\<lambda>m. frame_head (length m) @ m) ms)"

lemma send_all_frames:
  assumes "reliable api view" "\<And>q. running (c\<lparr>m_msgMgr := q\<rparr>)" "list_all sendable ms"
    and "TaskMgr_inv (m_msgMgr c)" "TaskMgr.m_pool (m_msgMgr c) = ms"
  shows "\<exists>c' w'. send_turns (length ms) running close_op api c w = Inr (c', w') \<and> view w' = view w @ frames ms"
  using assms
proof (induction ms arbitrary: c w)
  case Nil
  then show ?case by (simp add: frames_def ret_def)
next
  case (Cons m ms)
  have run: "running c" using Cons.prems(2) [of "m_msgMgr c"] by simp
  have m: "sendable m" using Cons.prems(3) by simp
  obtain q w1 where step: "threadSend_turn running close_op api c w = Inr ((Sent, c\<lparr>m_msgMgr := q\<rparr>), w1)"
    "TaskMgr_inv q" "TaskMgr.m_pool q = ms" "view w1 = view w @ frame_head (length m) @ m"
    by (rule send_frame [where running = running and c = c and w = w and close_op = close_op,
        OF Cons.prems(1) run m Cons.prems(4,5)])
  have run': "running (c\<lparr>m_msgMgr := q\<rparr>\<lparr>m_msgMgr := r\<rparr>)" for r
    using Cons.prems(2) [of r] by simp
  have "\<exists>c' w'. send_turns (length ms) running close_op api (c\<lparr>m_msgMgr := q\<rparr>) w1 = Inr (c', w') \<and>
      view w' = view w1 @ frames ms"
    using Cons.prems(1,3) step(2,3) by (intro Cons.IH run') simp_all
  then show ?case using step(1,4) by (auto simp: ebind_def frames_def)
qed

lemma receive_all_frames:
  assumes "reliable api view" "running c" "list_all sendable ms" "head_ok head" "view w = frames ms @ rest"
  shows "\<exists>w'. recv_turns (length ms) running close_op api head c w = Inr (map Msg ms, w') \<and> view w' = rest"
  using assms
proof (induction ms arbitrary: head w)
  case Nil
  then show ?case by (simp add: frames_def ret_def)
next
  case (Cons m ms)
  then have m: "length m < 10000" "CHR 0x00 \<notin> set m" by (auto simp: sendable_def)
  have "view w = frame_head (length m) @ m @ (frames ms @ rest)" using Cons.prems(5) by (simp add: frames_def)
  then obtain head1 w1 where step: "threadReceiv_turn running close_op api head c w = Inr ((Msg m, head1, c), w1)"
    "head_ok head1" "view w1 = frames ms @ rest"
    by (rule receive_frame [where running = running and c = c, OF Cons.prems(1,2) m Cons.prems(4)])
  then obtain w2 where "recv_turns (length ms) running close_op api head1 c w1 = Inr (map Msg ms, w2)"
    "view w2 = rest"
    using Cons.IH [of head1 w1] Cons.prems by auto
  with step(1) show ?case by (simp add: ebind_def ret_def)
qed

lemma NUL_not_digit: "\<not> is_digit (CHR 0x00)"
  by (simp add: is_digit_def)

lemma length_show_nat_is_4:
  assumes "1000 \<le> k" "k < 10000"
  shows "length (show_nat k) = 4"
proof -
  have "\<not> k < 10" "\<not> k div 10 < 10" "\<not> k div 100 < 10" "k div 1000 < 10"
    using assms by auto
  then show ?thesis
    using show_nat.simps [of k] show_nat.simps [of "k div 10"] show_nat.simps [of "k div 100"]
      show_nat.simps [of "k div 1000"]
    by (simp add: div_mult2_eq [symmetric])
qed

section \<open>Properties\<close>


text \<open>
  A message of 10000 to 99999 characters arrives as another one: the head then has six
  characters, of which the receiver reads five, so it takes a tenth of the length and counts the last
  digit as text.
\<close>

theorem long_message_garbled:
  assumes "reliable api view" and "view w = []" and "running_s sender" and "running_r receiver" and "head_ok head"
    and "TaskMgr_inv (m_msgMgr sender)" and "TaskMgr.m_pool (m_msgMgr sender) = [m]"
    and "10000 \<le> length m" and "length m < 100000" and "CHR 0x00 \<notin> set m"
  shows "map_sum id fst (ebind (send_turns 1 running_s close_s api sender)
      (\<lambda>_. recv_turns 1 running_r close_r api head receiver) w) =
    Inr [Msg (digit_char (length m mod 10) # take (length m div 10 - 1) m)]"
proof -
  let ?n = "length m" and ?d = "digit_char (length m mod 10)"
  let ?ds = "show_nat (length m div 10)"
  have show_n: "show_nat ?n = ?ds @ [?d]" using assms(8) by (subst show_nat.simps) simp
  have "1000 \<le> ?n div 10" "?n div 10 < 10000" using assms(8,9) by simp_all
  then have ds: "length ?ds = 4" by (rule length_show_nat_is_4)
  let ?body = "?d # take (?n div 10 - 1) m" and ?rest = "drop (?n div 10 - 1) (take (?n - 1) m)"
  have "take (?n - 1) m = take (?n div 10 - 1) m @ ?rest"
    using append_take_drop_id [of "?n div 10 - 1" "take (?n - 1) m"] by (simp add: min_absorb1)
  moreover have five: "?n + 5 = Suc (length ?ds + Suc (?n - 1))" using ds assms(8) by simp
  have "take (Suc (length ?ds + Suc (?n - 1))) (CHR ''@'' # ?ds @ ?d # m) = CHR ''@'' # ?ds @ ?d # take (?n - 1) m"
    by simp
  ultimately have cut: "take (?n + 5) (CHR ''@'' # ?ds @ ?d # m) = CHR ''@'' # ?ds @ ?body @ ?rest"
    unfolding five by simp
  have packet: "take (?n + 5) (frame_head ?n @ m) = CHR ''@'' # ?ds @ ?body @ ?rest"
    using cut ds by (simp add: frame_head_def pad_zero_def show_n)
  have m: "m \<noteq> []" "m \<noteq> ''$exit''" using assms(8) by auto
  obtain q where q: "TaskMgr_get (m_msgMgr sender) = Inr (Some (m, q))"
    using tasks.take_head [OF assms(6,7)] by blast
  obtain w1 where "net_send api (m_socket sender) (CHR ''@'' # ?ds @ ?body @ ?rest) w = (True, w1)"
    and w1: "view w1 = view w @ CHR ''@'' # ?ds @ ?body @ ?rest"
    by (rule reliable_send [OF assms(1)])
  then have sent: "threadSend_turn running_s close_s api sender w = Inr ((Sent, sender\<lparr>m_msgMgr := q\<rparr>), w1)"
    using assms(3) q m packet
    by (simp add: threadSend_turn_def ebind_def lift_def call_def ret_def Let_def)
  have "frame_length (CHR ''@'' # ?ds @ drop 5 head) = int (?n div 10)"
    using frame_length_head [OF ds show_nat_digits assms(5)] assms(5,9)
      atoi_pad [of "if head ! 5 = CHR 0x00 then [] else [head ! 5]" "?n div 10" 0]
    by (simp add: pad_zero_def head_ok_def)
  moreover have "length ?body = ?n div 10" using assms(8) by simp
  ultimately have len: "frame_length (CHR ''@'' # ?ds @ drop 5 head) = int (length ?body)" by (simp only:)
  have "CHR 0x00 \<noteq> ?d" using digit_char_simps(1) [of "?n mod 10"] NUL_not_digit by force
  then have "CHR 0x00 \<notin> set ?body" using assms(10) by (auto dest: in_set_takeD)
  moreover have "view w1 = CHR ''@'' # ?ds @ ?body @ ?rest" using w1 assms(2) by simp
  ultimately obtain head' w2 where
    "threadReceiv_turn running_r close_r api head receiver w1 = Inr ((Msg ?body, head', receiver), w2)"
    using receive_raw [where running = running_r and c = receiver, OF assms(1,4) _ assms(5) ds len] by metis
  with sent show ?thesis by (simp add: ebind_def ret_def)
qed

text \<open>
  When the peer has closed the connection \<open>recv\<close> delivers nothing, which the receiving thread
  takes for success: if its head still holds the mark of an earlier frame it goes round for ever,
  and in every turn hands a message to \<open>onReceivMsg\<close> that nobody has sent.
\<close>

theorem peer_closed_spins:
  assumes "\<And>s n w. net_recv api s n w = (Some [], w)" and "\<And>n w. length (fst (fresh api n w)) = n"
    and "running c" and "length head = 32" and "head ! 0 = CHR ''@''" and "0 \<le> frame_length head"
  shows "\<exists>rs. map_sum id fst (recv_turns k running close_op api head c w) = Inr rs \<and> length rs = k \<and>
    list_all (\<lambda>r. \<exists>x. r = Msg x) rs"
  using assms(4-6)
proof (induction k arbitrary: head w)
  case (Suc k)
  let ?head = "head[6 := CHR 0x00]"
  have "\<exists>x w1. threadReceiv_turn running close_op api head c w = Inr ((Msg x, ?head, c), w1)"
    using Suc.prems assms(1,3)
    by (simp add: threadReceiv_turn_def ebind_def call_def lift_def fill_def new_chars_def put_nul_def
        ret_def Let_def case_prod_beta)
  then obtain x w1 where step: "threadReceiv_turn running close_op api head c w = Inr ((Msg x, ?head, c), w1)"
    by blast
  have "frame_length ?head = frame_length head" by (simp add: frame_length_def)
  with Suc.prems have "\<exists>rs. map_sum id fst (recv_turns k running close_op api ?head c w1) = Inr rs \<and>
      length rs = k \<and> list_all (\<lambda>r. \<exists>x. r = Msg x) rs"
    by (intro Suc.IH) simp_all
  then obtain rs where "map_sum id fst (recv_turns k running close_op api ?head c w1) = Inr rs" "length rs = k"
    "list_all (\<lambda>r. \<exists>x. r = Msg x) rs"
    by blast
  with step show ?case
    by (cases "recv_turns k running close_op api ?head c w1") (auto simp: ebind_def ret_def)
qed (simp add: ret_def)

section \<open>A connection in memory\<close>

record wire =
  wire_bytes :: string
  wire_garbage :: char

definition mem_net :: "wire net_api" where
  "mem_net =
     \<lparr>WSAStartup = \<lambda>w. (0, w), WSACleanup = \<lambda>w. (0, w),
      net_socket = \<lambda>w. (40, w), net_bind = \<lambda>s p w. (True, w), net_listen = \<lambda>s n w. (True, w),
      net_accept = \<lambda>s w. (None, w), net_connect = \<lambda>s a p w. (True, w),
      net_recv = \<lambda>s n w. (Some (take (nat n) (wire_bytes w)), w\<lparr>wire_bytes := drop (nat n) (wire_bytes w)\<rparr>),
      net_send = \<lambda>s data w. (True, w\<lparr>wire_bytes := wire_bytes w @ data\<rparr>),
      net_close = \<lambda>s w. ((), w), fresh = \<lambda>n w. (replicate n (wire_garbage w), w)\<rparr>"

lemma mem_net_reliable: "reliable mem_net wire_bytes"
  by (simp add: reliable_def mem_net_def)

definition mem_wire :: wire where
  "mem_wire = \<lparr>wire_bytes = [], wire_garbage = CHR ''x''\<rparr>"

definition client_with :: "string list \<Rightarrow> ZClientBase" where
  "client_with ms = fold ZClientBase_send ms (ZClientBase_new\<lparr>m_running := True, m_socket := 40\<rparr>)"

definition stack_head :: string where
  "stack_head = replicate 32 (CHR ''x'')"

lemma stack_head_ok: "head_ok stack_head"
  by (simp add: head_ok_def stack_head_def is_digit_def)

lemma client_with_queue:
  "length ms \<le> SEMAPHORE_MAX \<Longrightarrow>
     TaskMgr_inv (m_msgMgr (client_with ms)) \<and> TaskMgr.m_pool (m_msgMgr (client_with ms)) = ms"
proof -
  have "m_msgMgr (fold ZClientBase_send ms c) = fold TaskMgr_add ms (m_msgMgr c)" for c :: ZClientBase
    by (induction ms arbitrary: c) (simp_all add: ZClientBase_send_def)
  then show "length ms \<le> SEMAPHORE_MAX \<Longrightarrow> ?thesis"
    using tasks.put_all [of TaskMgr_new ms]
    by (simp add: client_with_def ZClientBase_new_def tasks.new_inv tasks.new_abs)
qed


lemma replicate_not_exit: "replicate 10004 c \<noteq> ''$exit''"
proof
  assume "replicate 10004 c = ''$exit''"
  then have "length (replicate 10004 c) = length ''$exit''" by (rule arg_cong)
  then show False by simp
qed

theorem long_message_garbled_witness:
  "map_sum id fst (ebind (send_turns 1 (\<lambda>_. True) (ZClientBase_close mem_net) mem_net
        (client_with [replicate 12345 (CHR ''m'')]))
      (\<lambda>_. recv_turns 1 (\<lambda>_. True) (ZClientBase_close mem_net) mem_net stack_head (client_with [])) mem_wire) =
    Inr [Msg (CHR ''5'' # replicate 1233 (CHR ''m''))]"
proof -
  have q: "length [replicate 12345 (CHR ''m'')] \<le> SEMAPHORE_MAX" by (simp add: SEMAPHORE_MAX_def)
  have "map_sum id fst (ebind (send_turns 1 (\<lambda>_. True) (ZClientBase_close mem_net) mem_net
        (client_with [replicate 12345 (CHR ''m'')]))
      (\<lambda>_. recv_turns 1 (\<lambda>_. True) (ZClientBase_close mem_net) mem_net stack_head (client_with [])) mem_wire) =
    Inr [Msg (digit_char (length (replicate 12345 (CHR ''m'')) mod 10) #
      take (length (replicate 12345 (CHR ''m'')) div 10 - 1) (replicate 12345 (CHR ''m'')))]"
    by (rule long_message_garbled [OF mem_net_reliable])
      (use client_with_queue [OF q] stack_head_ok in \<open>simp_all add: mem_wire_def\<close>)
  moreover have "digit_char 5 = CHR ''5''" by code_simp
  ultimately show ?thesis by simp
qed

text \<open>The peer has closed the connection while the head holds \<open>@0002\<close>.\<close>

definition closed_net :: "wire net_api" where
  "closed_net = mem_net\<lparr>net_recv := \<lambda>s n w. (Some [], w)\<rparr>"

theorem peer_closed_spins_witness:
  "\<exists>rs. map_sum id fst (recv_turns 1000 m_running (ZClientBase_close closed_net) closed_net
      (''@0002'' @ replicate 27 (CHR ''x'')) (client_with []) mem_wire) = Inr rs \<and> length rs = 1000 \<and>
    list_all (\<lambda>r. \<exists>x. r = Msg x) rs"
proof (rule peer_closed_spins)
  show "0 \<le> frame_length (''@0002'' @ replicate 27 (CHR ''x''))" by code_simp
qed (simp_all add: closed_net_def mem_net_def client_with_def)

section \<open>The server's status\<close>

lemma server_start_status:
  assumes "ZServer_start api p n srv w = ((ok, s), w')"
  shows "if ok then m_status s = ZNET_ACCEPT \<and> srv_running s
    else m_status s \<in> {- ZNET_CREATE, - ZNET_BIND, - ZNET_LISTEN} \<and> srv_running s = srv_running srv"
  using assms
  by (auto simp: ZServer_start_def ZServer_create_def ZServer_bind_def ZServer_listen_def ZServer_accept_def
      znet_defs Let_def split: prod.splits if_splits)

lemma getClient_addClient: "getClient i (addClient c srv) =
    (case getClient i srv of None \<Rightarrow> if node_id c = i then Some c else None | Some d \<Rightarrow> Some d)"
proof -
  have "List.find P (xs @ [c]) = (case List.find P xs of None \<Rightarrow> if P c then Some c else None | Some d \<Rightarrow> Some d)"
    for P and xs :: "ZClientNode list"
    by (induction xs) auto
  then show ?thesis by (simp add: getClient_def addClient_def)
qed

end
