(* ===== verification/Server.thy ===== *)
theory Server
  imports Network
begin

text \<open>
  The server of src/acm/ZNet.cpp over its whole life: start, accepted connections, dead ones that are
  dropped, messages to a client by its number, close; and, in between, whatever the threads of a
  connection do to their own node.  The numbers are given by a counter of type \<open>int\<close>, and the
  statements hold until it is used up.
\<close>

section \<open>The steps of a server\<close>

definition max_id :: int where "max_id = 2147483647"

inductive srv_step :: "('w, 'x) net_api_scheme \<Rightarrow> ZServer \<Rightarrow> ZServer \<Rightarrow> bool" for api where
  start: "ZServer_start api p n srv w = ((ok, srv'), w') \<Longrightarrow> srv_step api srv srv'"
| accepted: "s_idAllocator srv < max_id \<Longrightarrow> threadProcAccept_turn api srv w = ((goOn, srv'), w') \<Longrightarrow>
     srv_step api srv srv'"
| check: "srv_step api srv (checkDead srv)"
| removed: "srv_step api srv (removeClient node srv)"
| sent: "srv_step api srv (ZServer_send i msg srv)"
| closed: "ZServer_close api srv w = (srv', w') \<Longrightarrow> srv_step api srv srv'"
| own: "j < length (m_pool srv) \<Longrightarrow> node_id c = node_id (m_pool srv ! j) \<Longrightarrow>
     srv_step api srv (srv\<lparr>m_pool := (m_pool srv)[j := c]\<rparr>)"

inductive srv_reach :: "('w, 'x) net_api_scheme \<Rightarrow> ZServer \<Rightarrow> bool" for api where
  new: "srv_reach api (ZServer_new s p)"
| step: "srv_reach api srv \<Longrightarrow> srv_step api srv srv' \<Longrightarrow> srv_reach api srv'"

section \<open>The numbers of the pool\<close>

definition pool_ids :: "ZServer \<Rightarrow> int list" where
  "pool_ids srv = map node_id (m_pool srv)"

definition srv_inv :: "ZServer \<Rightarrow> bool" where
  "srv_inv srv \<longleftrightarrow> 100 \<le> s_idAllocator srv \<and> s_idAllocator srv \<le> max_id \<and>
     sorted_wrt (<) (pool_ids srv) \<and> (\<forall>i \<in> set (pool_ids srv). 100 < i \<and> i \<le> s_idAllocator srv)"

lemma srv_inv_new: "srv_inv (ZServer_new s p)"
  by (simp add: srv_inv_def ZServer_new_def pool_ids_def max_id_def)

lemma srv_inv_same:
  "srv_inv srv \<Longrightarrow> s_idAllocator srv' = s_idAllocator srv \<Longrightarrow> pool_ids srv' = pool_ids srv \<Longrightarrow> srv_inv srv'"
  by (simp add: srv_inv_def)

lemma sorted_ids_filter: "sorted_wrt (<) (map f xs) \<Longrightarrow> sorted_wrt (<) (map f (filter P xs))"
  by (induction xs) auto

lemma srv_inv_filter:
  "srv_inv srv \<Longrightarrow> srv_inv (srv\<lparr>m_pool := filter P (m_pool srv)\<rparr>)"
  by (auto simp: srv_inv_def pool_ids_def sorted_ids_filter)

lemma srv_inv_add:
  assumes "srv_inv srv" "s_idAllocator srv < max_id" "ZClientNode_new srv sock addr p = (node, srv')"
  shows "srv_inv (addClient node srv')"
proof -
  have "int32 (s_idAllocator srv + 1) = s_idAllocator srv + 1"
    using assms(1,2) by (intro int32_id) (simp add: is_int32_def srv_inv_def max_id_def)
  then have "node_id node = s_idAllocator srv + 1" "srv' = srv\<lparr>s_idAllocator := s_idAllocator srv + 1\<rparr>"
    using assms(3) by (auto simp: ZClientNode_new_def ZClientBase.defs Let_def)
  then show ?thesis
    using assms(1,2) by (fastforce simp: srv_inv_def addClient_def pool_ids_def sorted_wrt_append)
qed

lemma update_first_ids: "map node_id (update_first P (ZClientBase_send msg) cs) = map node_id cs"
  by (induction cs) (auto simp: ZClientBase_send_def)

lemma close_all_ids: "map node_id (fst (close_all api cs w)) = map node_id cs"
proof (induction cs arbitrary: w)
  case (Cons c cs)
  have "node_id (fst (ZClientBase_close api c w)) = node_id c"
    by (simp add: ZClientBase_close_def ZClientBase_send_def Let_def case_prod_beta)
  with Cons show ?case by (simp add: case_prod_beta)
qed simp

lemma start_same:
  assumes "ZServer_start api p n srv w = ((ok, srv'), w')"
  shows "s_idAllocator srv' = s_idAllocator srv" "pool_ids srv' = pool_ids srv"
  using assms
  by (auto simp: ZServer_start_def ZServer_create_def ZServer_bind_def ZServer_listen_def ZServer_accept_def
      pool_ids_def Let_def split: prod.splits if_splits)

lemma srv_inv_step: "srv_step api srv srv' \<Longrightarrow> srv_inv srv \<Longrightarrow> srv_inv srv'"
proof (induction rule: srv_step.induct)
  case (start p n srv w ok srv' w')
  then show ?case using start_same [OF start(1)] by (blast intro: srv_inv_same)
next
  case (accepted srv w goOn srv' w')
  then show ?case
    by (auto simp: threadProcAccept_turn_def checkDead_def split: if_splits prod.splits option.splits
        intro!: srv_inv_filter intro: srv_inv_add)
next
  case (sent srv i msg)
  then show ?case
    by (auto simp: ZServer_send_def pool_ids_def update_first_ids split: option.split
        intro: srv_inv_same)
next
  case (closed srv w srv' w')
  then show ?case
    using close_all_ids [of api "m_pool srv"]
    by (auto simp: ZServer_close_def Let_def pool_ids_def case_prod_beta intro: srv_inv_same)
next
  case (own j srv c)
  have "map node_id ((m_pool srv)[j := c]) = map node_id (m_pool srv)"
    using own(1,2) by (simp add: map_update list_update_same_conv)
  with own(3) show ?case by (auto simp: pool_ids_def intro: srv_inv_same)
qed (simp_all add: checkDead_def removeClient_def srv_inv_filter)

lemma srv_reach_inv: "srv_reach api srv \<Longrightarrow> srv_inv srv"
  by (induction rule: srv_reach.induct) (auto intro: srv_inv_new srv_inv_step)

section \<open>Looking a client up\<close>

lemma find_distinct:
  "distinct (map f cs) \<Longrightarrow> c \<in> set cs \<Longrightarrow> List.find (\<lambda>d. f d = f c) cs = Some c"
  by (induction cs) auto

lemma update_first_distinct:
  "distinct (map f cs) \<Longrightarrow> update_first (\<lambda>d. f d = i) g cs = map (\<lambda>d. if f d = i then g d else d) cs"
proof (induction cs)
  case (Cons c cs)
  then have "f c = i \<Longrightarrow> map (\<lambda>d. if f d = i then g d else d) cs = cs"
    by (intro map_idI) (auto simp: image_iff)
  with Cons show ?case by auto
qed simp

lemma srv_inv_distinct: "srv_inv srv \<Longrightarrow> distinct (map node_id (m_pool srv))"
  by (auto simp: srv_inv_def pool_ids_def strict_sorted_iff)

section \<open>Properties\<close>

text \<open>
  C22: a number names one connection.  In every state a server can reach before its counter is used
  up, the lookup of a client's number finds that client, and a message sent to a number is queued at
  the one connection with this number and at no other.
\<close>

theorem server_reaches_client:
  assumes "srv_reach api srv" and "c \<in> set (m_pool srv)"
  shows "getClient (node_id c) srv = Some c \<and>
    m_pool (ZServer_send (node_id c) msg srv) =
      map (\<lambda>d. if d = c then ZClientBase_send msg d else d) (m_pool srv)"
proof -
  have d: "distinct (map node_id (m_pool srv))" using srv_reach_inv [OF assms(1)] by (rule srv_inv_distinct)
  have find: "getClient (node_id c) srv = Some c"
    unfolding getClient_def using find_distinct [OF d assms(2)] .
  have "(node_id e = node_id c) = (e = c)" if "e \<in> set (m_pool srv)" for e
    using d assms(2) that by (auto simp: distinct_map inj_on_def)
  then have "m_pool (ZServer_send (node_id c) msg srv) =
      map (\<lambda>d. if d = c then ZClientBase_send msg d else d) (m_pool srv)"
    using find by (simp add: ZServer_send_def update_first_distinct [OF d])
  with find show ?thesis by simp
qed

text \<open>A server that has accepted two connections.\<close>

definition busy_net :: "wire net_api" where
  "busy_net = mem_net\<lparr>net_accept := \<lambda>s w. (Some (41, ''10.0.0.7'', 5000), w)\<rparr>"

definition two_clients :: ZServer where
  "two_clients = snd (fst (threadProcAccept_turn busy_net (snd (fst (threadProcAccept_turn busy_net
     (snd (fst (ZServer_start busy_net 8000 5 (ZServer_new 0 0) \<lparr>wire_bytes = [], wire_garbage = CHR ''x''\<rparr>)))
     \<lparr>wire_bytes = [], wire_garbage = CHR ''x''\<rparr>))) \<lparr>wire_bytes = [], wire_garbage = CHR ''x''\<rparr>))"

lemma two_clients_ids: "map node_id (m_pool two_clients) = [101, 102]"
  by code_simp

lemma two_clients_reached: "srv_reach busy_net two_clients"
proof -
  let ?w = "\<lparr>wire_bytes = [], wire_garbage = CHR ''x''\<rparr>"
  let ?s = "snd (fst (ZServer_start busy_net 8000 5 (ZServer_new 0 0) ?w))"
  let ?t = "snd (fst (threadProcAccept_turn busy_net ?s ?w))"
  have "srv_reach busy_net ?s"
    by (rule srv_reach.step [OF srv_reach.new srv_step.start]) (simp add: prod_eq_iff)
  moreover have "s_idAllocator ?s < max_id" "s_idAllocator ?t < max_id" by code_simp+
  ultimately have "srv_reach busy_net ?t"
    by (metis srv_reach.step srv_step.accepted prod.collapse)
  with \<open>s_idAllocator ?t < max_id\<close> show ?thesis
    unfolding two_clients_def by (metis srv_reach.step srv_step.accepted prod.collapse)
qed

theorem server_reaches_client_witness:
  "\<exists>c. node_id c = 102 \<and> getClient 102 two_clients = Some c \<and>
     m_pool (ZServer_send 102 ''hello'' two_clients) =
       map (\<lambda>d. if d = c then ZClientBase_send ''hello'' d else d) (m_pool two_clients)"
proof -
  obtain c where c: "c \<in> set (m_pool two_clients)" "node_id c = 102"
    using two_clients_ids by (metis (no_types, lifting) imageE list.set_intros list.set_map)
  from server_reaches_client [OF two_clients_reached c(1), of "''hello''"] c(2) show ?thesis by auto
qed

end
