(* ===== verification/Threads.thy ===== *)
theory Threads
  imports Prelude
begin

text \<open>
  Threads and locks of src/Commen/ZThread.h and ZLock.h.  \<open>ZThreadBase\<close> starts the thread in its
  constructor, before the derived object exists: the new thread's virtual call and the rest of the
  construction, the use and the destruction of the object run side by side.  The object is what a
  virtual call sees of it: the class its table pointer names at the moment, and how many of the two
  members \<open>m_obj\<close> and \<open>m_func\<close> (\<open>m_pFunc\<close> and \<open>m_pParam\<close> in \<open>ZThread\<close>) have been set.
\<close>

section \<open>A thread object\<close>

datatype vtable = VBase | VDerived

record thread_object =
  vptr :: vtable
  members_set :: nat

text \<open>The owner's steps: constructors, use, and the two destructors with the wait in the second.\<close>

datatype owner_pc = BaseCtor | InBaseCtor | DerivedCtor nat | Built | BaseDtor | Joined | Closed

datatype thread_pc = NotStarted | Starting | InCall | Returned | Failed fault

record thread_system =
  object :: thread_object
  owner :: owner_pc
  thread :: thread_pc

definition thread_system_new :: thread_system where
  "thread_system_new =
     \<lparr>object = \<lparr>vptr = VBase, members_set = 0\<rparr>, owner = BaseCtor, thread = NotStarted\<rparr>"

text \<open>\<open>_threadCall\<close> makes the call \<open>pCall->callFunction()\<close>; the derived one reads both members.\<close>

definition threadCall :: "thread_object \<Rightarrow> thread_pc" where
  "threadCall t =
     (case vptr t of
        VBase \<Rightarrow> Failed PureVirtualCall
      | VDerived \<Rightarrow> if members_set t < 2 then Failed StalePointer else InCall)"

fun owner_step :: "thread_system \<Rightarrow> thread_system option" where
  "owner_step s =
     (case owner s of
        BaseCtor \<Rightarrow> Some (s\<lparr>owner := InBaseCtor, thread := Starting\<rparr>)
      | InBaseCtor \<Rightarrow> Some (s\<lparr>owner := DerivedCtor 0, object := (object s)\<lparr>vptr := VDerived\<rparr>\<rparr>)
      | DerivedCtor k \<Rightarrow>
          if k < 2
          then Some (s\<lparr>owner := DerivedCtor (k + 1), object := (object s)\<lparr>members_set := k + 1\<rparr>\<rparr>)
          else Some (s\<lparr>owner := Built\<rparr>)
      | Built \<Rightarrow> Some (s\<lparr>owner := BaseDtor, object := (object s)\<lparr>vptr := VBase\<rparr>\<rparr>)
      | BaseDtor \<Rightarrow> if thread s = Returned then Some (s\<lparr>owner := Joined\<rparr>) else None
      | Joined \<Rightarrow> Some (s\<lparr>owner := Closed\<rparr>)
      | Closed \<Rightarrow> None)"

declare owner_step.simps [simp del]

inductive tstep :: "thread_system \<Rightarrow> thread_system \<Rightarrow> bool" where
  by_owner: "owner_step s = Some s' \<Longrightarrow> tstep s s'"
| call: "thread s = Starting \<Longrightarrow> tstep s (s\<lparr>thread := threadCall (object s)\<rparr>)"
| return: "thread s = InCall \<Longrightarrow> tstep s (s\<lparr>thread := Returned\<rparr>)"

inductive treach :: "thread_system \<Rightarrow> bool" where
  start: "treach thread_system_new"
| step: "treach s \<Longrightarrow> tstep s s' \<Longrightarrow> treach s'"

inductive_cases tstepE: "tstep s s'"

section \<open>What the owner has done so far\<close>

definition object_at :: "owner_pc \<Rightarrow> thread_object" where
  "object_at pc =
     (case pc of
        DerivedCtor k \<Rightarrow> \<lparr>vptr = VDerived, members_set = k\<rparr>
      | Built \<Rightarrow> \<lparr>vptr = VDerived, members_set = 2\<rparr>
      | BaseDtor \<Rightarrow> \<lparr>vptr = VBase, members_set = 2\<rparr>
      | Joined \<Rightarrow> \<lparr>vptr = VBase, members_set = 2\<rparr>
      | Closed \<Rightarrow> \<lparr>vptr = VBase, members_set = 2\<rparr>
      | _ \<Rightarrow> \<lparr>vptr = VBase, members_set = 0\<rparr>)"

definition built_members :: "owner_pc \<Rightarrow> bool" where
  "built_members pc \<longleftrightarrow> pc = DerivedCtor 2 \<or> pc = Built"

definition thread_inv :: "thread_system \<Rightarrow> bool" where
  "thread_inv s \<longleftrightarrow> object s = object_at (owner s) \<and>
     (\<forall>k. owner s = DerivedCtor k \<longrightarrow> k \<le> 2) \<and>
     (owner s = BaseCtor \<longleftrightarrow> thread s = NotStarted) \<and>
     (owner s \<in> {Joined, Closed} \<longrightarrow> thread s = Returned) \<and>
     thread s \<in> {NotStarted, Starting, InCall, Returned, Failed PureVirtualCall, Failed StalePointer}"

lemma thread_inv_owner: "thread_inv s \<Longrightarrow> owner_step s = Some s' \<Longrightarrow> thread_inv s'"
  by (cases "owner s")
    (auto simp: owner_step.simps thread_inv_def object_at_def le_Suc_eq numeral_2_eq_2 split: if_splits)

lemma thread_inv_thread:
  assumes "thread_inv s" "thread s \<noteq> NotStarted" "thread s \<noteq> Returned" "t \<noteq> NotStarted"
    and "t \<in> {Starting, InCall, Returned, Failed PureVirtualCall, Failed StalePointer}"
  shows "thread_inv (s\<lparr>thread := t\<rparr>)"
proof -
  have "owner s \<noteq> BaseCtor" "owner s \<noteq> Joined" "owner s \<noteq> Closed"
    using assms(1-3) unfolding thread_inv_def by blast+
  moreover have "object s = object_at (owner s)" "\<forall>k. owner s = DerivedCtor k \<longrightarrow> k \<le> 2"
    using assms(1) unfolding thread_inv_def by blast+
  ultimately show ?thesis using assms(4,5) unfolding thread_inv_def by simp
qed

lemma threadCall_cases:
  "threadCall t = InCall \<or> threadCall t = Failed PureVirtualCall \<or> threadCall t = Failed StalePointer"
  by (simp add: threadCall_def split: vtable.split)

lemma thread_inv_step: "tstep s s' \<Longrightarrow> thread_inv s \<Longrightarrow> thread_inv s'"
proof (induction rule: tstep.induct)
  case (call s)
  have "threadCall (object s) \<noteq> NotStarted"
    "threadCall (object s) \<in> {Starting, InCall, Returned, Failed PureVirtualCall, Failed StalePointer}"
    using threadCall_cases [of "object s"] by fastforce+
  moreover have "thread s \<noteq> NotStarted" "thread s \<noteq> Returned" using call(1) by simp_all
  ultimately show ?case using thread_inv_thread [OF call(2)] by blast
next
  case (return s)
  have "thread s \<noteq> NotStarted" "thread s \<noteq> Returned" using return(1) by simp_all
  with thread_inv_thread [OF return(2)] show ?case by blast
qed (rule thread_inv_owner)

lemma thread_inv_reach: "treach s \<Longrightarrow> thread_inv s"
proof (induction rule: treach.induct)
  case start
  show ?case by (simp add: thread_inv_def thread_system_new_def object_at_def)
next
  case (step s s')
  from step(2) step.IH show ?case by (rule thread_inv_step)
qed

section \<open>Locks\<close>

text \<open>
  A critical section or a mutex: the owner and how often it has entered.  \<open>ZLockHolder\<close> enters in
  its constructor and leaves in its destructor.  \<open>None\<close> is a call that waits.
\<close>

type_synonym lock_state = "(nat \<times> nat) option"

definition ZCritical_lock :: "nat \<Rightarrow> lock_state \<Rightarrow> lock_state option" where
  "ZCritical_lock t l =
     (case l of
        None \<Rightarrow> Some (Some (t, 1))
      | Some (u, k) \<Rightarrow> if u = t then Some (Some (t, k + 1)) else None)"

definition ZCritical_unlock :: "nat \<Rightarrow> lock_state \<Rightarrow> lock_state" where
  "ZCritical_unlock t l =
     (case l of
        None \<Rightarrow> None
      | Some (u, k) \<Rightarrow> if u = t then if k \<le> 1 then None else Some (t, k - 1) else l)"

definition ZLockHolder_scope :: "nat \<Rightarrow> ('s \<Rightarrow> 's) \<Rightarrow> 's \<times> lock_state \<Rightarrow> ('s \<times> lock_state) option" where
  "ZLockHolder_scope t body sl =
     (case ZCritical_lock t (snd sl) of
        None \<Rightarrow> None
      | Some l \<Rightarrow> Some (body (fst sl), ZCritical_unlock t l))"

lemma lock_holder_restores:
  "\<forall>u k. l = Some (u, k) \<longrightarrow> 0 < k \<Longrightarrow> ZLockHolder_scope t body (s, l) = Some (s', l') \<Longrightarrow> l' = l \<and> s' = body s"
  by (auto simp: ZLockHolder_scope_def ZCritical_lock_def ZCritical_unlock_def split: option.splits if_splits)

section \<open>Properties\<close>

text \<open>
  C40: in every interleaving the new thread's call succeeds exactly while the members are set and
  the destructor of the derived class has not run; and the memory of the object is not given back
  before the thread has returned.
\<close>

theorem thread_call_window:
  assumes "treach s" and "thread s = Starting"
  shows "(threadCall (object s) = InCall \<longleftrightarrow> owner s = DerivedCtor 2 \<or> owner s = Built) \<and>
    owner s \<noteq> Joined \<and> owner s \<noteq> Closed"
proof -
  have inv: "thread_inv s" using assms(1) by (rule thread_inv_reach)
  with assms(2) have "owner s \<noteq> Joined" "owner s \<noteq> Closed" by (auto simp: thread_inv_def)
  moreover from inv have "threadCall (object s) = InCall \<longleftrightarrow> owner s = DerivedCtor 2 \<or> owner s = Built"
    by (cases "owner s") (auto simp: thread_inv_def object_at_def threadCall_def)
  ultimately show ?thesis by blast
qed

text \<open>The three races: a thread that is fast, one that is less fast, and an object that lives shortly.\<close>

lemma reach_owner: "treach s \<Longrightarrow> owner_step s = Some s' \<Longrightarrow> treach s'"
  by (blast intro: treach.step tstep.by_owner)

lemma thread_reach_call: "treach s \<Longrightarrow> thread s = Starting \<Longrightarrow> treach (s\<lparr>thread := threadCall (object s)\<rparr>)"
  by (blast intro: treach.step tstep.call)

definition system_at :: "owner_pc \<Rightarrow> thread_system" where
  "system_at pc = \<lparr>object = object_at pc, owner = pc, thread = Starting\<rparr>"

lemma reach_system_at:
  "treach (system_at InBaseCtor)" "treach (system_at (DerivedCtor 0))" "treach (system_at (DerivedCtor 1))"
  "treach (system_at (DerivedCtor 2))" "treach (system_at Built)" "treach (system_at BaseDtor)"
proof -
  show s1: "treach (system_at InBaseCtor)"
    by (rule reach_owner [OF treach.start]) (simp add: owner_step.simps thread_system_new_def system_at_def object_at_def)
  show s2: "treach (system_at (DerivedCtor 0))"
    by (rule reach_owner [OF s1]) (simp add: owner_step.simps system_at_def object_at_def)
  show s3: "treach (system_at (DerivedCtor 1))"
    by (rule reach_owner [OF s2]) (simp add: owner_step.simps system_at_def object_at_def)
  show s4: "treach (system_at (DerivedCtor 2))"
    by (rule reach_owner [OF s3]) (simp add: owner_step.simps system_at_def object_at_def)
  show s5: "treach (system_at Built)"
    by (rule reach_owner [OF s4]) (simp add: owner_step.simps system_at_def object_at_def)
  show "treach (system_at BaseDtor)"
    by (rule reach_owner [OF s5]) (simp add: owner_step.simps system_at_def object_at_def)
qed

text \<open>
  The constructor of \<open>ZThreadBase\<close> starts the thread too early: the call can reach the pure
  virtual function during construction, run with members that are not set, and reach the pure
  virtual function again when the object is destroyed before the thread has made its call.
\<close>

theorem thread_start_races:
  "(\<exists>s. treach s \<and> owner s = InBaseCtor \<and> thread s = Failed PureVirtualCall) \<and>
   (\<exists>s. treach s \<and> owner s = DerivedCtor 1 \<and> thread s = Failed StalePointer) \<and>
   (\<exists>s. treach s \<and> owner s = BaseDtor \<and> thread s = Failed PureVirtualCall)"
proof (intro conjI)
  show "\<exists>s. treach s \<and> owner s = InBaseCtor \<and> thread s = Failed PureVirtualCall"
    using thread_reach_call [OF reach_system_at(1)]
    by (intro exI conjI) (auto simp: system_at_def threadCall_def object_at_def)
  show "\<exists>s. treach s \<and> owner s = DerivedCtor 1 \<and> thread s = Failed StalePointer"
    using thread_reach_call [OF reach_system_at(3)]
    by (intro exI conjI) (auto simp: system_at_def threadCall_def object_at_def)
  show "\<exists>s. treach s \<and> owner s = BaseDtor \<and> thread s = Failed PureVirtualCall"
    using thread_reach_call [OF reach_system_at(6)]
    by (intro exI conjI) (auto simp: system_at_def threadCall_def object_at_def)
qed

theorem thread_call_window_witness:
  "threadCall (object (system_at Built)) = InCall \<and> threadCall (object (system_at InBaseCtor)) \<noteq> InCall"
  using thread_call_window [OF reach_system_at(5)] thread_call_window [OF reach_system_at(1)]
  by (simp add: system_at_def)

end
