(* ===== verification/RefCount.thy ===== *)
theory RefCount
  imports Prelude
begin

text \<open>
  Reference counting: \<open>IBase\<close> and \<open>RefPtr\<close> of src/Commen/RefPtr.h, on which tasks, trees, threads
  and network nodes live.  The store holds the live objects by address and every \<open>RefPtr\<close> that has
  been constructed and not destroyed; a \<open>RefPtr\<close> is a variable of its own or a member of an object.
  Deleting an object destroys its members, which may release further objects: the releases that
  are still to be made are a stack, the members of a deleted object on top.  A call through the
  address of a deleted object is a fault.
\<close>

section \<open>Objects and pointers\<close>

type_synonym addr = nat

record IBase =
  m_bManaged :: bool
  m_nRefCounter :: int

record RefPtr =
  ptr_id :: nat
  ptr_owner :: "addr option"
  m_ptr :: "addr option"

record store =
  objs :: "addr \<Rightarrow> IBase option"
  ptrs :: "RefPtr list"

definition store_new :: store where
  "store_new = \<lparr>objs = (\<lambda>_. None), ptrs = []\<rparr>"

definition IBase_new :: IBase where
  "IBase_new = \<lparr>m_bManaged = True, m_nRefCounter = 0\<rparr>"

definition set_obj :: "addr \<Rightarrow> IBase option \<Rightarrow> store \<Rightarrow> store" where
  "set_obj a x s = s\<lparr>objs := (objs s)(a := x)\<rparr>"

definition setManaged :: "addr \<Rightarrow> bool \<Rightarrow> store \<Rightarrow> store outcome" where
  "setManaged a m s =
     (case objs s a of
        None \<Rightarrow> Inl StalePointer
      | Some x \<Rightarrow> Inr (set_obj a (Some (x\<lparr>m_bManaged := m\<rparr>)) s))"

definition getRef :: "addr \<Rightarrow> store \<Rightarrow> int outcome" where
  "getRef a s = (case objs s a of None \<Rightarrow> Inl StalePointer | Some x \<Rightarrow> Inr (m_nRefCounter x))"

definition addRef :: "addr \<Rightarrow> store \<Rightarrow> store outcome" where
  "addRef a s =
     (case objs s a of
        None \<Rightarrow> Inl StalePointer
      | Some x \<Rightarrow> Inr (set_obj a (Some (x\<lparr>m_nRefCounter := m_nRefCounter x + 1\<rparr>)) s))"

text \<open>The comparisons of two pointers, and of a pointer with an address, look at the addresses only.\<close>

definition RefPtr_eq :: "RefPtr \<Rightarrow> RefPtr \<Rightarrow> bool" where
  "RefPtr_eq p q \<longleftrightarrow> m_ptr p = m_ptr q"

definition RefPtr_eq_raw :: "RefPtr \<Rightarrow> addr option \<Rightarrow> bool" where
  "RefPtr_eq_raw p a \<longleftrightarrow> m_ptr p = a"

definition RefPtr_ne :: "RefPtr \<Rightarrow> RefPtr \<Rightarrow> bool" where
  "RefPtr_ne p q \<longleftrightarrow> m_ptr p \<noteq> m_ptr q"

definition RefPtr_ne_raw :: "RefPtr \<Rightarrow> addr option \<Rightarrow> bool" where
  "RefPtr_ne_raw p a \<longleftrightarrow> m_ptr p \<noteq> a"

section \<open>Releasing\<close>

definition members :: "addr \<Rightarrow> store \<Rightarrow> RefPtr list" where
  "members a s = filter (\<lambda>p. ptr_owner p = Some a) (ptrs s)"

definition member_targets :: "addr \<Rightarrow> store \<Rightarrow> addr list" where
  "member_targets a s = List.map_filter m_ptr (members a s)"

definition destroyThis :: "addr \<Rightarrow> store \<Rightarrow> store" where
  "destroyThis a s = (set_obj a None s)\<lparr>ptrs := filter (\<lambda>p. ptr_owner p \<noteq> Some a) (ptrs s)\<rparr>"

lemma length_map_filter: "length (List.map_filter f xs) \<le> length xs"
  by (simp add: List.map_filter_def)

lemma member_targets_less:
  "length (member_targets a s) + length (ptrs (destroyThis a s)) \<le> length (ptrs s)"
proof -
  have "length (members a s) + length (ptrs (destroyThis a s)) = length (ptrs s)"
    by (simp add: members_def destroyThis_def sum_length_filter_compl)
  then show ?thesis using length_map_filter [of m_ptr "members a s"] by (simp add: member_targets_def)
qed

text \<open>\<open>delRef\<close> of every address on the stack.\<close>

function delRefs :: "addr list \<Rightarrow> store \<Rightarrow> store outcome" where
  "delRefs [] s = Inr s"
| "delRefs (a # as) s =
     (case objs s a of
        None \<Rightarrow> Inl StalePointer
      | Some x \<Rightarrow>
          let n = m_nRefCounter x - 1
          in if n \<le> 0 \<and> m_bManaged x
             then delRefs (member_targets a s @ as) (destroyThis a s)
             else delRefs as (set_obj a (Some (x\<lparr>m_nRefCounter := n\<rparr>)) s))"
  by pat_completeness auto
termination
proof (relation "measure (\<lambda>(as, s). length as + length (ptrs s))", goal_cases)
  case (2 a as s x n)
  show ?case using member_targets_less [of a s] by simp
qed (simp_all add: set_obj_def)

declare delRefs.simps(2) [simp del]

definition delRef :: "addr \<Rightarrow> store \<Rightarrow> store outcome" where
  "delRef a s = delRefs [a] s"

section \<open>RefPtr\<close>

definition find_ptr :: "nat \<Rightarrow> store \<Rightarrow> RefPtr option" where
  "find_ptr i s = List.find (\<lambda>p. ptr_id p = i) (ptrs s)"

definition set_ptr :: "nat \<Rightarrow> addr option \<Rightarrow> store \<Rightarrow> store" where
  "set_ptr i a s = s\<lparr>ptrs := map (\<lambda>p. if ptr_id p = i then p\<lparr>m_ptr := a\<rparr> else p) (ptrs s)\<rparr>"

text \<open>
  Assignment of an address.  The old object is released while the variable still holds its
  address, and the new one is counted only after that.  If the release destroyed the object the
  variable is a member of, writing to the variable is a fault.
\<close>

definition RefPtr_assign :: "nat \<Rightarrow> addr option \<Rightarrow> store \<Rightarrow> store outcome" where
  "RefPtr_assign i a s =
     (case find_ptr i s of
        None \<Rightarrow> Inl StalePointer
      | Some p \<Rightarrow>
          if a = m_ptr p then Inr s
          else bind_outcome (case m_ptr p of None \<Rightarrow> Inr s | Some old \<Rightarrow> delRef old s) (\<lambda>s1.
            if find_ptr i s1 = None then Inl StalePointer
            else case a of None \<Rightarrow> Inr (set_ptr i a s1) | Some b \<Rightarrow> addRef b (set_ptr i a s1)))"

definition RefPtr_new :: "nat \<Rightarrow> addr option \<Rightarrow> addr option \<Rightarrow> store \<Rightarrow> store outcome" where
  "RefPtr_new i owner a s =
     RefPtr_assign i a (s\<lparr>ptrs := \<lparr>ptr_id = i, ptr_owner = owner, m_ptr = None\<rparr> # ptrs s\<rparr>)"

definition RefPtr_copy :: "nat \<Rightarrow> nat \<Rightarrow> store \<Rightarrow> store outcome" where
  "RefPtr_copy i j s =
     (case find_ptr j s of None \<Rightarrow> Inl StalePointer | Some q \<Rightarrow> RefPtr_assign i (m_ptr q) s)"

definition RefPtr_destroy :: "nat \<Rightarrow> store \<Rightarrow> store outcome" where
  "RefPtr_destroy i s =
     (case find_ptr i s of
        None \<Rightarrow> Inl StalePointer
      | Some p \<Rightarrow>
          bind_outcome (case m_ptr p of None \<Rightarrow> Inr s | Some old \<Rightarrow> delRef old s) (\<lambda>s1.
            Inr (s1\<lparr>ptrs := filter (\<lambda>p. ptr_id p \<noteq> i) (ptrs s1)\<rparr>)))"

section \<open>Exact counts\<close>

text \<open>
  The pointers to an object, and the invariant of the releases: every counter is the number of
  pointers plus the releases still to be made.  A variable that is being assigned is left out
  (\<open>skip\<close>); it is a variable of its own.
\<close>

definition refs :: "nat option \<Rightarrow> RefPtr list \<Rightarrow> addr \<Rightarrow> nat" where
  "refs skip ps a = cnt (\<lambda>p. m_ptr p = Some a \<and> Some (ptr_id p) \<noteq> skip) ps"

definition counted :: "addr list \<Rightarrow> nat option \<Rightarrow> store \<Rightarrow> bool" where
  "counted as skip s \<longleftrightarrow>
     (\<forall>a x. objs s a = Some x \<longrightarrow> m_nRefCounter x = int (refs skip (ptrs s) a + count_list as a)) \<and>
     (\<forall>p \<in> set (ptrs s). \<forall>a. m_ptr p = Some a \<longrightarrow> Some (ptr_id p) \<noteq> skip \<longrightarrow> objs s a \<noteq> None) \<and>
     (\<forall>a \<in> set as. objs s a \<noteq> None) \<and>
     (\<forall>p \<in> set (ptrs s). Some (ptr_id p) = skip \<longrightarrow> ptr_owner p = None)"

definition stack_ptrs :: "store \<Rightarrow> RefPtr list" where
  "stack_ptrs s = filter (\<lambda>p. ptr_owner p = None) (ptrs s)"

lemma count_list_map_filter:
  "count_list (List.map_filter m_ptr ps) b = cnt (\<lambda>p. m_ptr p = Some b) ps"
  by (induction ps) (auto simp: List.map_filter_def)

lemma refs_split:
  assumes "\<forall>p \<in> set ps. Some (ptr_id p) = skip \<longrightarrow> ptr_owner p = None"
  shows "refs skip (filter (\<lambda>p. ptr_owner p \<noteq> Some a) ps) b +
      count_list (List.map_filter m_ptr (filter (\<lambda>p. ptr_owner p = Some a) ps)) b = refs skip ps b"
  using assms by (induction ps) (auto simp: refs_def count_list_map_filter)

lemma destroyThis_sel [simp]:
  "objs (destroyThis a s) = (objs s)(a := None)"
  "ptrs (destroyThis a s) = filter (\<lambda>p. ptr_owner p \<noteq> Some a) (ptrs s)"
  "stack_ptrs (destroyThis a s) = stack_ptrs s"
  by (auto simp: destroyThis_def set_obj_def stack_ptrs_def filter_filter intro: filter_cong)

lemma set_obj_sel [simp]:
  "objs (set_obj a x s) = (objs s)(a := x)" "ptrs (set_obj a x s) = ptrs s"
  "stack_ptrs (set_obj a x s) = stack_ptrs s"
  by (simp_all add: set_obj_def stack_ptrs_def)

lemma refs_zero: "refs skip ps a = 0 \<longleftrightarrow> (\<forall>p \<in> set ps. m_ptr p = Some a \<longrightarrow> Some (ptr_id p) = skip)"
  by (auto simp: refs_def cnt_zero)

lemma member_target_iff:
  "b \<in> set (member_targets a s) \<longleftrightarrow> (\<exists>p \<in> set (ptrs s). ptr_owner p = Some a \<and> m_ptr p = Some b)"
  by (force simp: member_targets_def members_def List.map_filter_def image_iff)

lemma counted_destroy:
  assumes inv: "counted (a # as) skip s" and x: "objs s a = Some x" "m_nRefCounter x \<le> 1"
  shows "counted (member_targets a s @ as) skip (destroyThis a s)"
proof -
  from inv x have "int (refs skip (ptrs s) a + count_list (a # as) a) \<le> 1"
    unfolding counted_def by metis
  then have zero: "refs skip (ptrs s) a = 0" "count_list as a = 0" by auto
  from inv have own: "\<forall>p \<in> set (ptrs s). Some (ptr_id p) = skip \<longrightarrow> ptr_owner p = None"
    by (simp add: counted_def)
  have split: "refs skip (filter (\<lambda>p. ptr_owner p \<noteq> Some a) (ptrs s)) b + count_list (member_targets a s) b =
      refs skip (ptrs s) b" for b
    using refs_split [OF own, of a b] by (simp add: member_targets_def members_def)
  have target: "b \<noteq> a \<and> objs s b \<noteq> None" if "b \<in> set (member_targets a s)" for b
  proof -
    from that obtain p where p: "p \<in> set (ptrs s)" "ptr_owner p = Some a" "m_ptr p = Some b"
      by (auto simp: member_target_iff)
    with own have "Some (ptr_id p) \<noteq> skip" by auto
    with p zero(1) inv show ?thesis by (auto simp: refs_zero counted_def)
  qed
  have "a \<notin> set as" using zero(2) by (simp add: count_list_0_iff)
  then show ?thesis
    using inv target split zero(1) unfolding counted_def
    by (auto simp: refs_zero) (metis (no_types, lifting) add.assoc add.commute of_nat_add)+
qed

lemma counted_decrement:
  assumes "counted (a # as) skip s" "objs s a = Some x"
  shows "counted as skip (set_obj a (Some (x\<lparr>m_nRefCounter := m_nRefCounter x - 1\<rparr>)) s)"
  using assms by (auto simp: counted_def)

lemma delRefs_counted:
  "counted as skip s \<Longrightarrow> \<exists>s'. delRefs as s = Inr s' \<and> counted [] skip s' \<and> stack_ptrs s' = stack_ptrs s \<and>
     (\<exists>P. ptrs s' = filter P (ptrs s)) \<and>
     (\<forall>b. refs skip (ptrs s) b + count_list as b = 0 \<longrightarrow> objs s' b = objs s b) \<and>
     (\<forall>b x. objs s' b = Some x \<longrightarrow> m_bManaged x \<longrightarrow> m_nRefCounter x \<le> 0 \<longrightarrow> objs s b = Some x) \<and>
     (\<forall>b x. objs s' b = Some x \<longrightarrow> (\<exists>y. objs s b = Some y \<and> m_bManaged y = m_bManaged x))"
proof (induction as s rule: delRefs.induct)
  case (2 a as s)
  from "2.prems" obtain x where x: "objs s a = Some x" by (auto simp: counted_def)
  show ?case
  proof (cases "m_nRefCounter x - 1 \<le> 0 \<and> m_bManaged x")
    case True
    have own: "\<forall>p \<in> set (ptrs s). Some (ptr_id p) = skip \<longrightarrow> ptr_owner p = None"
      using "2.prems" by (simp add: counted_def)
    have "counted (member_targets a s @ as) skip (destroyThis a s)"
      using True by (intro counted_destroy [OF "2.prems" x]) simp
    with True "2.IH"(1) [OF x refl] obtain s' where s': "delRefs (member_targets a s @ as) (destroyThis a s) = Inr s'"
      "counted [] skip s'" "stack_ptrs s' = stack_ptrs s" "\<exists>P. ptrs s' = filter P (ptrs (destroyThis a s))"
      and keep: "\<forall>b. refs skip (ptrs (destroyThis a s)) b + count_list (member_targets a s @ as) b = 0 \<longrightarrow>
        objs s' b = objs (destroyThis a s) b"
      and zero: "\<forall>b x. objs s' b = Some x \<longrightarrow> m_bManaged x \<longrightarrow> m_nRefCounter x \<le> 0 \<longrightarrow>
        objs (destroyThis a s) b = Some x"
      and man: "\<forall>b x. objs s' b = Some x \<longrightarrow>
        (\<exists>y. objs (destroyThis a s) b = Some y \<and> m_bManaged y = m_bManaged x)"
      by auto
    have "objs s' b = objs s b" if "refs skip (ptrs s) b + count_list (a # as) b = 0" for b
      using that keep refs_split [OF own, of a b]
      by (auto simp: member_targets_def members_def split: if_splits)
    moreover have "objs s b = Some y" if "objs s' b = Some y" "m_bManaged y" "m_nRefCounter y \<le> 0" for b y
    proof -
      from zero that have "objs (destroyThis a s) b = Some y" by blast
      then show ?thesis by (simp split: if_splits)
    qed
    moreover have "delRefs (a # as) s = delRefs (member_targets a s @ as) (destroyThis a s)"
      using True x by (simp add: delRefs.simps(2) [of a as s] Let_def)
    moreover have "\<exists>P. ptrs s' = filter P (ptrs s)" using s'(4) by (auto simp: filter_filter)
    moreover have "\<exists>y. objs s b = Some y \<and> m_bManaged y = m_bManaged x" if "objs s' b = Some x" for b x
      using man [rule_format, OF that] by (auto split: if_splits)
    ultimately show ?thesis using s'(1-3) by metis
  next
    case False
    let ?y = "x\<lparr>m_nRefCounter := m_nRefCounter x - 1\<rparr>"
    have step: "delRefs (a # as) s = delRefs as (set_obj a (Some ?y) s)"
      using False x by (auto simp: delRefs.simps(2) [of a as s] Let_def)
    from False "2.IH"(2) [OF x refl] counted_decrement [OF "2.prems" x] obtain s' where
      s': "delRefs as (set_obj a (Some ?y) s) = Inr s'" "counted [] skip s'" "stack_ptrs s' = stack_ptrs s"
        "\<exists>P. ptrs s' = filter P (ptrs s)"
      and keep: "\<forall>b. refs skip (ptrs s) b + count_list as b = 0 \<longrightarrow> objs s' b = ((objs s)(a \<mapsto> ?y)) b"
      and zero: "\<forall>b y. objs s' b = Some y \<longrightarrow> m_bManaged y \<longrightarrow> m_nRefCounter y \<le> 0 \<longrightarrow>
        ((objs s)(a \<mapsto> ?y)) b = Some y"
      and man: "\<forall>b z. objs s' b = Some z \<longrightarrow>
        (\<exists>y. ((objs s)(a \<mapsto> ?y)) b = Some y \<and> m_bManaged y = m_bManaged z)"
      by auto
    have "objs s b = Some y" if "objs s' b = Some y" "m_bManaged y" "m_nRefCounter y \<le> 0" for b y
    proof -
      from zero that have "((objs s)(a \<mapsto> ?y)) b = Some y" by blast
      with that False show ?thesis by (cases "b = a") auto
    qed
    moreover have "objs s' b = objs s b" if "refs skip (ptrs s) b + count_list (a # as) b = 0" for b
      using that keep by (auto split: if_splits)
    moreover have "\<exists>y. objs s b = Some y \<and> m_bManaged y = m_bManaged z" if "objs s' b = Some z" for b z
      using man [rule_format, OF that] x by (cases "b = a") auto
    ultimately show ?thesis using s' step by metis
  qed
qed (auto intro: exI [of _ "\<lambda>_. True"])

lemma delRefs_total:
  assumes "counted as skip s"
  obtains s' P where "delRefs as s = Inr s'" "counted [] skip s'" "stack_ptrs s' = stack_ptrs s"
    "ptrs s' = filter P (ptrs s)"
    "\<And>b. refs skip (ptrs s) b + count_list as b = 0 \<Longrightarrow> objs s' b = objs s b"
    "\<And>b x. objs s' b = Some x \<Longrightarrow> m_bManaged x \<Longrightarrow> m_nRefCounter x \<le> 0 \<Longrightarrow> objs s b = Some x"
    "\<And>b x. objs s' b = Some x \<Longrightarrow> \<exists>y. objs s b = Some y \<and> m_bManaged y = m_bManaged x"
  using delRefs_counted [OF assms] by auto

section \<open>The operations of a program\<close>

definition ids :: "store \<Rightarrow> nat list" where
  "ids s = map ptr_id (ptrs s)"

definition heap_ok :: "store \<Rightarrow> bool" where
  "heap_ok s \<longleftrightarrow> counted [] None s \<and> distinct (ids s)"

datatype op =
    New addr
  | Construct nat "addr option" "addr option"
  | Assign nat "addr option"
  | Copy nat nat
  | Destroy nat

fun exec :: "op \<Rightarrow> store \<Rightarrow> store outcome" where
  "exec (New a) s = Inr (set_obj a (Some IBase_new) s)"
| "exec (Construct i owner a) s = RefPtr_new i owner a s"
| "exec (Assign i a) s = RefPtr_assign i a s"
| "exec (Copy i j) s = RefPtr_copy i j s"
| "exec (Destroy i) s = RefPtr_destroy i s"

text \<open>
  The programs the counting is made for.  Memory is allocated at a free address.  A variable is
  assigned what another variable holds, or an object nobody has pointed at yet; members are given
  their value when they are constructed, and variables, not members, are destroyed by the program.
\<close>

definition variable :: "nat \<Rightarrow> addr option \<Rightarrow> store \<Rightarrow> bool" where
  "variable i a s \<longleftrightarrow> \<lparr>ptr_id = i, ptr_owner = None, m_ptr = a\<rparr> \<in> set (ptrs s)"

definition is_variable :: "nat \<Rightarrow> store \<Rightarrow> bool" where
  "is_variable i s \<longleftrightarrow> (\<exists>a. variable i a s)"

definition alive :: "addr option \<Rightarrow> store \<Rightarrow> bool" where
  "alive a s \<longleftrightarrow> (case a of None \<Rightarrow> True | Some b \<Rightarrow> objs s b \<noteq> None)"

definition held :: "nat \<Rightarrow> addr option \<Rightarrow> store \<Rightarrow> bool" where
  "held i a s \<longleftrightarrow>
     (case a of None \<Rightarrow> True
      | Some b \<Rightarrow> (objs s b \<noteq> None \<and> refs None (ptrs s) b = 0) \<or> (\<exists>j. j \<noteq> i \<and> variable j a s))"

fun allowed :: "op \<Rightarrow> store \<Rightarrow> bool" where
  "allowed (New a) s \<longleftrightarrow> objs s a = None"
| "allowed (Construct i owner a) s \<longleftrightarrow> i \<notin> set (ids s) \<and> alive owner s \<and> alive a s"
| "allowed (Assign i a) s \<longleftrightarrow> is_variable i s \<and> held i a s"
| "allowed (Copy i j) s \<longleftrightarrow> is_variable i s \<and> is_variable j s"
| "allowed (Destroy i) s \<longleftrightarrow> is_variable i s"

inductive reach :: "store \<Rightarrow> bool" where
  "reach store_new"
| "reach s \<Longrightarrow> allowed op s \<Longrightarrow> exec op s = Inr s' \<Longrightarrow> reach s'"

lemma find_ptr_Some:
  "distinct (ids s) \<Longrightarrow> p \<in> set (ptrs s) \<Longrightarrow> find_ptr (ptr_id p) s = Some p"
proof -
  have "distinct (map ptr_id ps) \<Longrightarrow> p \<in> set ps \<Longrightarrow> List.find (\<lambda>q. ptr_id q = ptr_id p) ps = Some p" for ps
    by (induction ps) (auto simp: image_iff)
  then show "distinct (ids s) \<Longrightarrow> p \<in> set (ptrs s) \<Longrightarrow> find_ptr (ptr_id p) s = Some p"
    by (simp add: find_ptr_def ids_def)
qed

lemma find_variable: "distinct (ids s) \<Longrightarrow> variable i a s \<Longrightarrow> find_ptr i s = Some \<lparr>ptr_id = i, ptr_owner = None, m_ptr = a\<rparr>"
  using find_ptr_Some [of s "\<lparr>ptr_id = i, ptr_owner = None, m_ptr = a\<rparr>"] by (simp add: variable_def)

lemma variable_stack: "variable i a s \<longleftrightarrow> \<lparr>ptr_id = i, ptr_owner = None, m_ptr = a\<rparr> \<in> set (stack_ptrs s)"
  by (simp add: variable_def stack_ptrs_def)

lemma refs_Nil [simp]: "refs skip [] b = 0"
  by (simp add: refs_def)

lemma refs_Cons:
  "refs skip (q # ps) b = refs skip ps b + (if m_ptr q = Some b \<and> Some (ptr_id q) \<noteq> skip then 1 else 0)"
  by (simp add: refs_def)

lemma refs_other: "i \<notin> ptr_id ` set ps \<Longrightarrow> refs (Some i) ps b = refs None ps b"
  by (induction ps) (auto simp: refs_Cons)

lemma refs_skip:
  "distinct (map ptr_id ps) \<Longrightarrow> p \<in> set ps \<Longrightarrow>
     refs None ps b = refs (Some (ptr_id p)) ps b + (if m_ptr p = Some b then 1 else 0)"
  by (induction ps) (auto simp: refs_Cons refs_other)

text \<open>Taking a variable out of the count, with the release of what it holds still to be made.\<close>

lemma counted_skip:
  assumes ok: "heap_ok s" and i: "variable i a s"
  shows "counted (case a of None \<Rightarrow> [] | Some b \<Rightarrow> [b]) (Some i) s"
proof -
  let ?p = "\<lparr>ptr_id = i, ptr_owner = None, m_ptr = a\<rparr>"
  have p: "?p \<in> set (ptrs s)" using i by (simp add: variable_def)
  have d: "distinct (map ptr_id (ptrs s))" using ok by (simp add: heap_ok_def ids_def)
  have uniq: "q = ?p" if "q \<in> set (ptrs s)" "ptr_id q = i" for q
    using d p that inj_onD [of ptr_id "set (ptrs s)" q ?p] by (auto simp: distinct_map)
  let ?as = "case a of None \<Rightarrow> [] | Some b \<Rightarrow> [b]"
  show ?thesis
    unfolding counted_def
  proof (intro conjI allI ballI impI)
    fix c x
    assume "objs s c = Some x"
    with ok have "m_nRefCounter x = int (refs None (ptrs s) c)" by (simp add: heap_ok_def counted_def)
    with refs_skip [OF d p, of c] show "m_nRefCounter x = int (refs (Some i) (ptrs s) c + count_list ?as c)"
      by (cases a) auto
  next
    fix q c
    assume "q \<in> set (ptrs s)" "m_ptr q = Some c"
    with ok show "objs s c \<noteq> None" by (auto simp: heap_ok_def counted_def)
  next
    fix c
    assume "c \<in> set ?as"
    with ok p show "objs s c \<noteq> None" by (force simp: heap_ok_def counted_def split: option.splits)
  next
    fix q
    assume "q \<in> set (ptrs s)" "Some (ptr_id q) = Some i"
    with uniq [of q] show "ptr_owner q = None" by simp
  qed
qed

text \<open>Giving the variable its new value counts it again.\<close>

lemma map_other:
  "i \<notin> ptr_id ` set ps \<Longrightarrow> map (\<lambda>p. if ptr_id p = i then p\<lparr>m_ptr := a\<rparr> else p) ps = ps"
  by (induction ps) auto

lemma refs_set_ptr:
  "distinct (map ptr_id ps) \<Longrightarrow> i \<in> ptr_id ` set ps \<Longrightarrow>
     refs None (map (\<lambda>p. if ptr_id p = i then p\<lparr>m_ptr := a\<rparr> else p) ps) b =
     refs (Some i) ps b + (if a = Some b then 1 else 0)"
proof (induction ps)
  case (Cons q ps)
  show ?case
  proof (cases "ptr_id q = i")
    case True
    with Cons.prems have "i \<notin> ptr_id ` set ps" by auto
    with True show ?thesis by (simp add: refs_Cons map_other refs_other)
  next
    case False
    with Cons show ?thesis by (auto simp: refs_Cons)
  qed
qed simp

definition set_and_count :: "nat \<Rightarrow> addr option \<Rightarrow> store \<Rightarrow> store outcome" where
  "set_and_count i a s = (case a of None \<Rightarrow> Inr (set_ptr i a s) | Some b \<Rightarrow> addRef b (set_ptr i a s))"

lemma set_ptr_sel [simp]: "objs (set_ptr i a s) = objs s" "ids (set_ptr i a s) = ids s"
  by (auto simp: set_ptr_def ids_def)

lemma counted_set:
  assumes inv: "counted [] (Some i) s" and d: "distinct (ids s)" and i: "i \<in> set (ids s)" and a: "alive a s"
  shows "\<exists>s'. set_and_count i a s = Inr s' \<and> heap_ok s' \<and>
    (\<forall>b x. objs s' b = Some x \<longrightarrow> m_nRefCounter x \<le> 0 \<longrightarrow> objs s b = Some x)"
proof -
  have r: "refs None (ptrs (set_ptr i a s)) b = refs (Some i) (ptrs s) b + (if a = Some b then 1 else 0)" for b
    using refs_set_ptr [of "ptrs s" i a b] d i by (simp add: set_ptr_def ids_def)
  have target: "objs s b \<noteq> None" if "p \<in> set (ptrs (set_ptr i a s))" "m_ptr p = Some b" for p b
    using that inv a by (auto simp: set_ptr_def counted_def alive_def split: if_splits)
  show ?thesis
  proof (cases a)
    case None
    with inv d r target show ?thesis
      by (auto simp: set_and_count_def heap_ok_def counted_def)
  next
    case (Some b)
    with a obtain x where x: "objs s b = Some x" by (auto simp: alive_def)
    let ?s = "set_obj b (Some (x\<lparr>m_nRefCounter := m_nRefCounter x + 1\<rparr>)) (set_ptr i a s)"
    have "counted [] None ?s"
      unfolding counted_def
    proof (intro conjI allI ballI impI)
      fix c y
      assume "objs ?s c = Some y"
      with inv x r [of c] Some show "m_nRefCounter y = int (refs None (ptrs ?s) c + count_list [] c)"
        by (auto simp: counted_def split: if_splits)
    next
      fix q c
      assume "q \<in> set (ptrs ?s)" "m_ptr q = Some c"
      with target [of q c] show "objs ?s c \<noteq> None" by simp
    qed simp_all
    moreover have "0 \<le> m_nRefCounter x" using inv x by (auto simp: counted_def)
    moreover have "ids ?s = ids (set_ptr i a s)" unfolding ids_def by simp
    ultimately show ?thesis
      using d x Some by (auto simp: set_and_count_def addRef_def heap_ok_def)
  qed
qed

text \<open>What every operation leaves: the counts, and no managed object newly without a pointer.\<close>

definition good_step :: "store \<Rightarrow> store outcome \<Rightarrow> bool" where
  "good_step s r \<longleftrightarrow> (\<exists>s'. r = Inr s' \<and> heap_ok s' \<and>
     (\<forall>b x. objs s' b = Some x \<longrightarrow> m_bManaged x \<longrightarrow> m_nRefCounter x \<le> 0 \<longrightarrow> objs s b = Some x))"

lemma release_variable:
  assumes ok: "heap_ok s" and i: "variable i old s"
  obtains s' where "(case old of None \<Rightarrow> Inr s | Some b \<Rightarrow> delRef b s) = Inr s'" "counted [] (Some i) s'"
    "distinct (ids s')" "\<And>j a. variable j a s' \<longleftrightarrow> variable j a s"
    "\<And>b. refs None (ptrs s) b = 0 \<Longrightarrow> objs s' b = objs s b"
    "\<And>b x. objs s' b = Some x \<Longrightarrow> m_bManaged x \<Longrightarrow> m_nRefCounter x \<le> 0 \<Longrightarrow> objs s b = Some x"
proof -
  let ?as = "case old of None \<Rightarrow> [] | Some b \<Rightarrow> [b]"
  have inv: "counted ?as (Some i) s" by (rule counted_skip [OF ok i])
  have zero: "refs (Some i) (ptrs s) b + count_list ?as b = 0" if "refs None (ptrs s) b = 0" for b
    using that refs_skip [of "ptrs s" "\<lparr>ptr_id = i, ptr_owner = None, m_ptr = old\<rparr>" b] ok i
    by (cases old) (auto simp: heap_ok_def ids_def variable_def split: if_splits)
  obtain s' P where s': "delRefs ?as s = Inr s'" "counted [] (Some i) s'" "stack_ptrs s' = stack_ptrs s"
    "ptrs s' = filter P (ptrs s)"
    and keep: "\<And>b. refs (Some i) (ptrs s) b + count_list ?as b = 0 \<Longrightarrow> objs s' b = objs s b"
    and leak: "\<And>b x. objs s' b = Some x \<Longrightarrow> m_bManaged x \<Longrightarrow> m_nRefCounter x \<le> 0 \<Longrightarrow> objs s b = Some x"
    by (rule delRefs_total [OF inv]) blast
  show thesis
  proof (rule that)
    show "(case old of None \<Rightarrow> Inr s | Some b \<Rightarrow> delRef b s) = Inr s'"
      using s'(1) by (cases old) (simp_all add: delRef_def)
    show "distinct (ids s')"
      using s'(4) ok by (simp add: ids_def heap_ok_def distinct_map_filter)
    show "variable j a s' \<longleftrightarrow> variable j a s" for j a
      using s'(3) by (simp add: variable_stack)
    show "counted [] (Some i) s'" by (rule s'(2))
    show "objs s' b = objs s b" if "refs None (ptrs s) b = 0" for b
      by (rule keep [OF zero [OF that]])
    show "objs s b = Some x" if "objs s' b = Some x" "m_bManaged x" "m_nRefCounter x \<le> 0" for b x
      using that by (rule leak)
  qed
qed

lemma assign_step:
  assumes ok: "heap_ok s" and i: "variable i old s" and a: "held i a s"
  shows "good_step s (RefPtr_assign i a s)"
proof (cases "a = old")
  case True
  then show ?thesis
    using ok find_variable [OF _ i] by (simp add: RefPtr_assign_def good_step_def heap_ok_def)
next
  case False
  obtain s1 where s1: "(case old of None \<Rightarrow> Inr s | Some b \<Rightarrow> delRef b s) = Inr s1" "counted [] (Some i) s1"
    "distinct (ids s1)" "\<And>j a. variable j a s1 \<longleftrightarrow> variable j a s"
    and keep: "\<And>b. refs None (ptrs s) b = 0 \<Longrightarrow> objs s1 b = objs s b"
    and leak: "\<And>b x. objs s1 b = Some x \<Longrightarrow> m_bManaged x \<Longrightarrow> m_nRefCounter x \<le> 0 \<Longrightarrow> objs s b = Some x"
    using ok i by (rule release_variable) blast
  have "alive a s1"
  proof (cases a)
    case (Some b)
    with a consider "objs s b \<noteq> None" "refs None (ptrs s) b = 0" | j where "j \<noteq> i" "variable j a s"
      by (auto simp: held_def)
    then show ?thesis
    proof cases
      case 1
      with keep Some show ?thesis by (simp add: alive_def)
    next
      case 2
      with s1(4) have "variable j a s1" by blast
      with s1(2) 2 Some show ?thesis by (force simp: alive_def variable_def counted_def)
    qed
  qed (simp add: alive_def)
  moreover have v: "variable i old s1" using s1(4) i by blast
  then have "i \<in> set (ids s1)" by (force simp: variable_def ids_def)
  ultimately obtain s2 where "set_and_count i a s1 = Inr s2" "heap_ok s2"
    "\<forall>b x. objs s2 b = Some x \<longrightarrow> m_nRefCounter x \<le> 0 \<longrightarrow> objs s1 b = Some x"
    using counted_set [OF s1(2,3)] by blast
  with False leak s1(1) find_variable [OF _ i] find_variable [OF s1(3) v] ok show ?thesis
    by (auto simp: RefPtr_assign_def good_step_def heap_ok_def set_and_count_def)
qed

lemma destroy_step:
  assumes ok: "heap_ok s" and i: "variable i old s"
  shows "good_step s (RefPtr_destroy i s)"
proof -
  obtain s1 where s1: "(case old of None \<Rightarrow> Inr s | Some b \<Rightarrow> delRef b s) = Inr s1" "counted [] (Some i) s1"
    "distinct (ids s1)"
    and leak: "\<And>b x. objs s1 b = Some x \<Longrightarrow> m_bManaged x \<Longrightarrow> m_nRefCounter x \<le> 0 \<Longrightarrow> objs s b = Some x"
    using ok i by (rule release_variable) blast
  let ?s = "s1\<lparr>ptrs := filter (\<lambda>p. ptr_id p \<noteq> i) (ptrs s1)\<rparr>"
  have "refs None (filter (\<lambda>p. ptr_id p \<noteq> i) ps) b = refs (Some i) ps b" for ps b
    by (induction ps) (auto simp: refs_Cons)
  with s1(2,3) have "heap_ok ?s"
    by (auto simp: heap_ok_def counted_def ids_def distinct_map_filter)
  with leak s1(1) find_variable [OF _ i] ok show ?thesis
    by (auto simp: RefPtr_destroy_def good_step_def heap_ok_def)
qed

lemma construct_step:
  assumes ok: "heap_ok s" and i: "i \<notin> set (ids s)" and a: "alive a s"
  shows "good_step s (RefPtr_new i owner a s)"
proof -
  let ?s = "s\<lparr>ptrs := \<lparr>ptr_id = i, ptr_owner = owner, m_ptr = None\<rparr> # ptrs s\<rparr>"
  have find: "find_ptr i ?s = Some \<lparr>ptr_id = i, ptr_owner = owner, m_ptr = None\<rparr>"
    by (simp add: find_ptr_def)
  have d: "distinct (ids ?s)" using ok i by (simp add: heap_ok_def ids_def)
  show ?thesis
  proof (cases a)
    case None
    then show ?thesis
      using ok d find by (auto simp: RefPtr_new_def RefPtr_assign_def good_step_def heap_ok_def counted_def refs_Cons)
  next
    case (Some b)
    with a obtain x where x: "objs s b = Some x" by (auto simp: alive_def)
    let ?t = "set_obj b (Some (x\<lparr>m_nRefCounter := m_nRefCounter x + 1\<rparr>)) (set_ptr i a ?s)"
    have p: "ptrs ?t = \<lparr>ptr_id = i, ptr_owner = owner, m_ptr = a\<rparr> # ptrs s"
      using i by (simp add: set_ptr_def ids_def map_other)
    then have r: "refs None (ptrs ?t) c = refs None (ptrs s) c + (if a = Some c then 1 else 0)" for c
      by (simp add: refs_Cons)
    have "counted [] None ?t"
      unfolding counted_def
    proof (intro conjI allI ballI impI)
      fix c y
      assume "objs ?t c = Some y"
      with ok x r [of c] Some show "m_nRefCounter y = int (refs None (ptrs ?t) c + count_list [] c)"
        by (auto simp: heap_ok_def counted_def split: if_splits)
    next
      fix q c
      assume "q \<in> set (ptrs ?t)" "m_ptr q = Some c"
      then show "objs ?t c \<noteq> None"
        unfolding p using ok x Some by (auto simp: heap_ok_def counted_def)
    qed simp_all
    moreover have "distinct (ids ?t)" using d p by (simp add: ids_def)
    moreover have "0 \<le> m_nRefCounter x" using ok x by (auto simp: heap_ok_def counted_def)
    moreover have "RefPtr_new i owner a s = Inr ?t"
      using Some x find by (simp add: RefPtr_new_def RefPtr_assign_def addRef_def)
    ultimately show ?thesis using Some by (auto simp: good_step_def heap_ok_def)
  qed
qed

lemma exec_step:
  assumes ok: "heap_ok s" and allowed: "allowed op s"
  shows "\<exists>s'. exec op s = Inr s' \<and> heap_ok s' \<and>
    (\<forall>b x. objs s' b = Some x \<longrightarrow> m_bManaged x \<longrightarrow> m_nRefCounter x \<le> 0 \<longrightarrow> objs s b = Some x \<or> op = New b)"
proof (cases op)
  case (New a)
  have "refs None (ptrs s) a = 0"
    using ok allowed New by (auto simp: refs_zero heap_ok_def counted_def)
  with New ok allowed show ?thesis
    by (auto simp: heap_ok_def counted_def IBase_new_def ids_def)
next
  case (Construct i owner a)
  with construct_step [OF ok, of i a owner] allowed show ?thesis by (auto simp: good_step_def)
next
  case (Assign i a)
  with assign_step [OF ok, of i _ a] allowed show ?thesis by (force simp: good_step_def is_variable_def)
next
  case (Copy i j)
  then obtain old a where v: "variable i old s" "variable j a s" using allowed by (auto simp: is_variable_def)
  with ok have d: "distinct (ids s)" by (simp add: heap_ok_def)
  have "good_step s (RefPtr_assign i a s)"
  proof (cases "i = j")
    case True
    then have "a = old" using find_variable [OF d v(1)] find_variable [OF d v(2)] by simp
    with ok d find_variable [OF d v(1)] show ?thesis by (simp add: RefPtr_assign_def good_step_def)
  next
    case False
    with v(2) show ?thesis by (intro assign_step [OF ok v(1)]) (auto simp: held_def split: option.split)
  qed
  with Copy find_variable [OF d v(2)] show ?thesis by (auto simp: RefPtr_copy_def good_step_def)
next
  case (Destroy i)
  with destroy_step [OF ok, of i] allowed show ?thesis by (force simp: good_step_def is_variable_def)
qed

lemma reach_ok: "reach s \<Longrightarrow> heap_ok s"
proof (induction rule: reach.induct)
  case 1
  show ?case by (simp add: heap_ok_def counted_def store_new_def ids_def)
next
  case (2 s op s')
  with exec_step [of s op] show ?case by auto
qed

section \<open>Properties\<close>


text \<open>Giving up the only pointer to a node whose member is the only pointer to another deletes both.\<close>

lemma member_goes_too:
  assumes "counted [a] (Some i) s" and "objs s a = Some x" and "objs s b = Some y"
    and "m_bManaged x" and "m_bManaged y" and "m_nRefCounter x = 1" and "m_nRefCounter y = 1"
    and "a \<noteq> b" and "q \<in> set (ptrs s)" "ptr_owner q = Some a" "m_ptr q = Some b"
  obtains s1 where "delRef a s = Inr s1" "objs s1 b = None" "stack_ptrs s1 = stack_ptrs s"
proof -
  have own: "\<forall>p \<in> set (ptrs s). Some (ptr_id p) = Some i \<longrightarrow> ptr_owner p = None"
    using assms(1) by (simp add: counted_def)
  let ?t = "destroyThis a s" and ?as = "member_targets a s @ []"
  have "counted ?as (Some i) ?t" by (rule counted_destroy [OF assms(1,2)]) (simp add: assms(6))
  then obtain s1 P where s1: "delRefs ?as ?t = Inr s1" "counted [] (Some i) s1"
    "stack_ptrs s1 = stack_ptrs ?t" "ptrs s1 = filter P (ptrs ?t)"
    and leak: "\<And>b x. objs s1 b = Some x \<Longrightarrow> m_bManaged x \<Longrightarrow> m_nRefCounter x \<le> 0 \<Longrightarrow> objs ?t b = Some x"
    and man: "\<And>b x. objs s1 b = Some x \<Longrightarrow> \<exists>y. objs ?t b = Some y \<and> m_bManaged y = m_bManaged x"
    by (rule delRefs_total) blast
  have "refs (Some i) (ptrs s) b \<le> 1"
    using assms(1,3,7,8) by (auto simp: counted_def)
  moreover have "b \<in> set (member_targets a s)"
    using assms(9-11) by (auto simp: member_target_iff)
  then have "count_list (member_targets a s) b \<noteq> 0" by (simp add: count_list_0_iff)
  ultimately have "refs (Some i) (ptrs ?t) b = 0"
    using refs_split [OF own, of a b] by (simp add: member_targets_def members_def)
  then have gone: "refs (Some i) (ptrs s1) b = 0" using s1(4) by (auto simp: refs_zero)
  have "objs s1 b = None"
  proof (rule ccontr)
    assume "objs s1 b \<noteq> None"
    then obtain z where z: "objs s1 b = Some z" by blast
    with gone s1(2) have "m_nRefCounter z = 0" by (auto simp: counted_def)
    moreover have "m_bManaged z" using man [OF z] assms(3,5,8) by auto
    ultimately show False using leak [OF z] assms(3,7,8) by auto
  qed
  moreover have "delRef a s = Inr s1"
    using s1(1) assms(2,4,6) by (simp add: delRef_def delRefs.simps(2))
  moreover have "stack_ptrs s1 = stack_ptrs s" by (simp only: s1(3) destroyThis_sel)
  ultimately show ?thesis using that by blast
qed

text \<open>
  Walking along a chain, \<open>p = p->next\<close>, is a use after free when \<open>p\<close> is the only pointer to its
  node: the assignment deletes the node, with it the only pointer to the next one, and then
  counts a pointer to that.
\<close>

theorem walking_assignment_faults:
  assumes "heap_ok s" and "variable i (Some a) s" and "objs s a = Some x" and "objs s b = Some y"
    and "m_bManaged x" and "m_bManaged y" and "m_nRefCounter x = 1" and "m_nRefCounter y = 1"
    and "a \<noteq> b" and "q \<in> set (ptrs s)" "ptr_owner q = Some a" "m_ptr q = Some b"
  shows "RefPtr_assign i (Some b) s = Inl StalePointer"
proof -
  have p: "find_ptr i s = Some \<lparr>ptr_id = i, ptr_owner = None, m_ptr = Some a\<rparr>"
    using assms(1,2) by (intro find_variable) (auto simp: heap_ok_def)
  have "counted [a] (Some i) s" using counted_skip [OF assms(1,2)] by simp
  from member_goes_too [OF this assms(3-12)]
  obtain s1 where s1: "delRef a s = Inr s1" "objs s1 b = None" "stack_ptrs s1 = stack_ptrs s" .
  have "variable i (Some a) s1" using assms(2) by (simp only: variable_stack s1(3))
  then have "\<lparr>ptr_id = i, ptr_owner = None, m_ptr = Some a\<rparr> \<in> set (ptrs s1)"
    by (simp add: variable_def)
  then have "find_ptr i s1 \<noteq> None" by (auto simp: find_ptr_def find_None_iff intro!: bexI)
  with s1(1,2) p assms(9) show ?thesis by (simp add: RefPtr_assign_def addRef_def)
qed

text \<open>A variable that holds a node whose only member holds a second node.\<close>

definition two_nodes :: store where
  "two_nodes =
     \<lparr>objs = (\<lambda>a. if a < 2 then Some \<lparr>m_bManaged = True, m_nRefCounter = 1\<rparr> else None),
      ptrs = [\<lparr>ptr_id = 1, ptr_owner = Some 0, m_ptr = Some 1\<rparr>, \<lparr>ptr_id = 0, ptr_owner = None, m_ptr = Some 0\<rparr>]\<rparr>"

lemma two_nodes_ok: "heap_ok two_nodes"
  by (auto simp: two_nodes_def heap_ok_def counted_def refs_def ids_def cnt_def split: if_splits)

theorem walking_assignment_faults_witness: "RefPtr_assign 0 (Some 1) two_nodes = Inl StalePointer"
proof (rule walking_assignment_faults)
  show "heap_ok two_nodes" by (rule two_nodes_ok)
  show "variable 0 (Some 0) two_nodes" by (simp add: variable_def two_nodes_def)
  show "objs two_nodes 0 = Some \<lparr>m_bManaged = True, m_nRefCounter = 1\<rparr>"
    "objs two_nodes 1 = Some \<lparr>m_bManaged = True, m_nRefCounter = 1\<rparr>"
    by (simp_all add: two_nodes_def)
  show "\<lparr>ptr_id = 1, ptr_owner = Some 0, m_ptr = Some 1\<rparr> \<in> set (ptrs two_nodes)"
    by (simp add: two_nodes_def)
qed simp_all

definition one_node :: store where
  "one_node = \<lparr>objs = (\<lambda>_. None)(5 \<mapsto> \<lparr>m_bManaged = True, m_nRefCounter = 1\<rparr>),
     ptrs = [\<lparr>ptr_id = 0, ptr_owner = None, m_ptr = Some 5\<rparr>]\<rparr>"

lemma one_node_reached: "reach one_node"
proof -
  have "reach (set_obj 5 (Some IBase_new) store_new)"
    by (rule reach.intros(2) [OF reach.intros(1), of "New 5"]) (simp_all add: store_new_def)
  then show ?thesis
    by (rule reach.intros(2) [of _ "Construct 0 None (Some 5)"])
      (auto simp: one_node_def store_new_def IBase_new_def set_obj_def ids_def alive_def RefPtr_new_def
        RefPtr_assign_def find_ptr_def addRef_def set_ptr_def)
qed


end
