(* ===== verification/Floats.thy ===== *)
theory Floats
  imports DataTree Guid
begin

text \<open>
  The floating-point accessors of src/LZData/LZData.cpp and acm/Utilities.cpp.
  A finite \<open>double\<close> or \<open>float\<close> is the rational it stands for; the two roundings of the machine,
  to the nearest double and to the nearest float, are arguments.  \<open>%lf\<close> prints as \<open>%f\<close>.
\<close>

record roundings =
  to_double :: "rat \<Rightarrow> rat"
  to_float :: "rat \<Rightarrow> rat"

section \<open>Reading a number\<close>

text \<open>A leading sign, and what follows it.\<close>

definition take_sign :: "string \<Rightarrow> bool \<times> string" where
  "take_sign s =
     (case s of
        [] \<Rightarrow> (False, s)
      | c # u \<Rightarrow> if c = CHR ''-'' then (True, u) else if c = CHR ''+'' then (False, u) else (False, s))"

text \<open>The exponent counts only if it has a digit; the runtime library also takes \<open>d\<close> for \<open>e\<close>.\<close>

definition exponent :: "string \<Rightarrow> rat" where
  "exponent s =
     (case s of
        [] \<Rightarrow> 1
      | c # u \<Rightarrow>
          if c \<in> {CHR ''e'', CHR ''E'', CHR ''d'', CHR ''D''}
          then (let (neg, ds) = take_sign u; p = 10 ^ read_digits ds in if neg then 1 / p else p)
          else 1)"

definition decimal :: "string \<Rightarrow> rat" where
  "decimal s =
     (let ip = takeWhile is_digit s; r = dropWhile is_digit s;
          dot = (r \<noteq> [] \<and> hd r = CHR ''.'');
          fp = (if dot then takeWhile is_digit (tl r) else []);
          r' = (if dot then dropWhile is_digit (tl r) else r)
      in if ip = [] \<and> fp = [] then 0
         else (of_nat (read_digits ip) + of_nat (read_digits fp) / 10 ^ length fp) * exponent r')"

definition atof :: "roundings \<Rightarrow> string \<Rightarrow> rat" where
  "atof m s =
     (let (neg, u) = take_sign (dropWhile is_space s)
      in to_double m (if neg then - decimal u else decimal u))"

section \<open>Entries of the configuration tree\<close>

definition LZData_convertToString :: "string \<Rightarrow> fmt_arg \<Rightarrow> string outcome" where
  "LZData_convertToString fmt data = sprintf_s 256 fmt [data]"

definition LZData_asDouble :: "roundings \<Rightarrow> lzdata \<Rightarrow> rat" where
  "LZData_asDouble m n = atof m (c_str (m_value n))"

definition LZData_asFloat :: "roundings \<Rightarrow> lzdata \<Rightarrow> rat" where
  "LZData_asFloat m n = to_float m (LZData_asDouble m n)"

definition LZData_setDouble :: "rat \<Rightarrow> lzdata \<Rightarrow> lzdata outcome" where
  "LZData_setDouble data n =
     bind_outcome (LZData_convertToString ''%f'' (ArgFloat data)) (\<lambda>s. Inr (setValue s n))"

definition LZData_setFloat :: "rat \<Rightarrow> lzdata \<Rightarrow> lzdata outcome" where
  "LZData_setFloat data n =
     bind_outcome (LZData_convertToString ''%f'' (ArgFloat data)) (\<lambda>s. Inr (setValue s n))"

definition LZData_readDouble :: "roundings \<Rightarrow> lzdata \<Rightarrow> string \<Rightarrow> rat \<Rightarrow> rat" where
  "LZData_readDouble m n tag def =
     (case LZData_read n tag of None \<Rightarrow> def | Some ptr \<Rightarrow> LZData_asDouble m ptr)"

definition LZData_readFloat :: "roundings \<Rightarrow> lzdata \<Rightarrow> string \<Rightarrow> rat \<Rightarrow> rat" where
  "LZData_readFloat m n tag def =
     (case LZData_read n tag of None \<Rightarrow> def | Some ptr \<Rightarrow> LZData_asFloat m ptr)"

text \<open>The entry is written first; the change through the returned pointer may end the program.\<close>

definition write_through ::
    "lzdata \<Rightarrow> string \<Rightarrow> (lzdata \<Rightarrow> lzdata outcome) \<Rightarrow> lzdata outcome" where
  "write_through n tag f =
     (let (n', p) = LZData_write n tag ''''
      in case node_at n' p of
           None \<Rightarrow> Inl NullPointer
         | Some ptr \<Rightarrow> bind_outcome (f ptr) (\<lambda>ptr'. Inr (update_at n' p (\<lambda>_. ptr'))))"

definition LZData_writeDouble :: "lzdata \<Rightarrow> string \<Rightarrow> rat \<Rightarrow> lzdata outcome" where
  "LZData_writeDouble n tag data = write_through n tag (LZData_setDouble data)"

definition LZData_writeFloat :: "lzdata \<Rightarrow> string \<Rightarrow> rat \<Rightarrow> lzdata outcome" where
  "LZData_writeFloat n tag data = write_through n tag (LZData_setFloat data)"

section \<open>StringTool\<close>

definition StringTool_asDouble :: "roundings \<Rightarrow> StringTool \<Rightarrow> rat" where
  "StringTool_asDouble m s = atof m (c_str (st_value s))"

definition StringTool_asFloat :: "roundings \<Rightarrow> StringTool \<Rightarrow> rat" where
  "StringTool_asFloat m s = to_float m (StringTool_asDouble m s)"

definition StringTool_asText :: "StringTool \<Rightarrow> string" where
  "StringTool_asText s = c_str (st_value s)"

definition StringTool_setDouble :: "rat \<Rightarrow> StringTool \<Rightarrow> StringTool outcome" where
  "StringTool_setDouble data s =
     bind_outcome (convertToString ''%f'' (ArgFloat data)) (\<lambda>v. Inr (s\<lparr>st_value := v\<rparr>))"

definition StringTool_setFloat :: "rat \<Rightarrow> StringTool \<Rightarrow> StringTool outcome" where
  "StringTool_setFloat data s =
     bind_outcome (convertToString ''%f'' (ArgFloat data)) (\<lambda>v. Inr (s\<lparr>st_value := v\<rparr>))"

section \<open>The text of a number and back\<close>

lemma length_pad6: "n < 1000000 \<Longrightarrow> length (pad_zero 6 (show_nat n)) = 6"
  using length_show_nat [of n 6] by (simp add: length_pad_zero)

lemma takeWhile_digits:
  assumes "\<forall>c \<in> set s. is_digit c"
  shows "takeWhile is_digit (s @ CHR ''.'' # t) = s" "dropWhile is_digit (s @ CHR ''.'' # t) = CHR ''.'' # t"
    "takeWhile is_digit s = s" "dropWhile is_digit s = []"
proof -
  have dot: "\<not> is_digit (CHR ''.'')" by (simp add: is_digit_def)
  show "takeWhile is_digit (s @ CHR ''.'' # t) = s" "dropWhile is_digit (s @ CHR ''.'' # t) = CHR ''.'' # t"
    using assms dot by (simp_all add: takeWhile_append2 dropWhile_append2)
  show "takeWhile is_digit s = s" "dropWhile is_digit s = []"
    using assms by (simp_all add: takeWhile_eq_all_conv dropWhile_eq_Nil_conv)
qed

lemma decimal_fixed: "decimal (show_nat q @ CHR ''.'' # pad_zero 6 (show_nat r)) =
    (of_nat q + of_nat r / 10 ^ length (pad_zero 6 (show_nat r)))"
  by (simp add: decimal_def Let_def exponent_def read_digits_show_nat read_digits_pad [of "[]", simplified]
      takeWhile_digits(1,2) [OF show_nat_digits] takeWhile_digits(3,4) [OF pad_digits])

text \<open>Six decimals of a number.\<close>

definition micro :: "rat \<Rightarrow> rat" where
  "micro r = (if r < 0 then - 1 else 1) * of_int (round (\<bar>r\<bar> * 1000000)) / 1000000"

lemma atof_show_fixed6: "atof m (show_fixed6 r) = to_double m (micro r)"
proof -
  define k where "k = nat (round (\<bar>r\<bar> * 1000000))"
  have "0 \<le> round (\<bar>r\<bar> * 1000000)"
    using round_mono [of 0 "\<bar>r\<bar> * 1000000"] by simp
  then have k: "of_int (round (\<bar>r\<bar> * 1000000)) = (of_nat k :: rat)"
    by (simp add: k_def)
  let ?t = "show_nat (k div 1000000) @ CHR ''.'' # pad_zero 6 (show_nat (k mod 1000000))"
  have "decimal ?t = of_nat (k div 1000000) + of_nat (k mod 1000000) / 1000000"
    by (simp add: decimal_fixed length_pad6)
  also have "\<dots> = of_nat (1000000 * (k div 1000000) + k mod 1000000) / 1000000"
    by (simp only: of_nat_add of_nat_mult) (simp add: field_simps)
  finally have d: "decimal ?t = of_nat k / 1000000" by (simp only: mult_div_mod_eq)
  have micro: "micro r = (if r < 0 then - 1 else 1) * of_nat k / 1000000" by (simp only: micro_def k)
  obtain c cs where c: "show_nat (k div 1000000) = c # cs" "is_digit c" by (rule hd_show_nat)
  note nd = digit_not_special [OF c(2)]
  have minus: "\<not> is_space (CHR ''-'')" by (simp add: is_space_def)
  show ?thesis
  proof (cases "r < 0")
    case True
    then have "show_fixed6 r = CHR ''-'' # ?t" by (simp add: show_fixed6_def Let_def k_def)
    with minus True show ?thesis by (simp add: atof_def take_sign_def micro d)
  next
    case False
    then have "show_fixed6 r = ?t" by (simp add: show_fixed6_def Let_def k_def)
    moreover have "take_sign (dropWhile is_space ?t) = (False, ?t)"
      using c nd by (simp add: take_sign_def)
    ultimately show ?thesis using False by (simp add: atof_def micro d)
  qed
qed

lemma micro_exact: "r * 1000000 = of_int i \<Longrightarrow> micro r = r"
proof -
  assume i: "r * 1000000 = of_int i"
  have "\<bar>r\<bar> * 1000000 = \<bar>r * 1000000\<bar>" by (simp add: abs_mult)
  also have "\<dots> = of_int \<bar>i\<bar>" by (simp add: i)
  finally have "of_int (round (\<bar>r\<bar> * 1000000)) = \<bar>r\<bar> * (1000000 :: rat)"
    by (simp only: round_of_int)
  then show ?thesis by (simp add: micro_def)
qed

lemma show_fixed6_c_str: "c_str (show_fixed6 r) = show_fixed6 r"
proof (rule c_str_id)
  have "\<not> is_digit (CHR 0x00)" by (simp add: is_digit_def)
  then have "CHR 0x00 \<notin> set (show_nat q)" "CHR 0x00 \<notin> set (pad_zero 6 (show_nat q))" for q
    using show_nat_digits [of q] pad_digits [of 6 q] by metis+
  then show "CHR 0x00 \<notin> set (show_fixed6 r)" by (auto simp: show_fixed6_def Let_def)
qed

lemma format_f: "c_format ''%f'' [ArgFloat r] = Some (show_fixed6 r)"
  by (simp add: show_arg_def)

lemma sprintf_f: "sprintf_s cap ''%f'' [ArgFloat r] =
    (if length (show_fixed6 r) < cap then Inr (show_fixed6 r) else Inl InvalidParameter)"
  by (simp add: sprintf_s_def format_f del: c_format.simps)

text \<open>A number comes back as its six decimals, for a \<open>StringTool\<close> and for an entry of the tree.\<close>

lemma setDouble_asDouble:
  "StringTool_setDouble r s = Inr s' \<Longrightarrow> StringTool_asDouble m s' = to_double m (micro r)"
  by (auto simp: StringTool_setDouble_def convertToString_def sprintf_f StringTool_asDouble_def
      show_fixed6_c_str atof_show_fixed6 split: if_splits)

lemma update_at_const: "node_at n p = Some m \<Longrightarrow> update_at n p (\<lambda>_. f m) = update_at n p f"
  by (induction n p f rule: update_at.induct) (auto split: if_splits)

lemma writeDouble_then_readDouble:
  assumes "\<not> at_first_slot n tag" and "LZData_writeDouble n tag r = Inr n'"
  shows "LZData_readDouble m n' tag d = to_double m (micro r)"
proof -
  let ?w = "LZData_write n tag ''''"
  let ?f = "setValue (show_fixed6 r)"
  from assms(1) obtain p where p: "node_at (fst ?w) (snd ?w) = Some p"
    "lookup (update_at (fst ?w) (snd ?w) ?f) (path_names tag) = Some (?f p)"
    using store_update_lookup [of "path_names tag" n ?f "''''"]
    by (auto simp: at_first_slot_def LZData_write_store)
  from assms(2) p(1) have "n' = update_at (fst ?w) (snd ?w) (\<lambda>_. ?f p)"
    by (auto simp: LZData_writeDouble_def write_through_def LZData_setDouble_def
        LZData_convertToString_def sprintf_f case_prod_beta split: if_splits)
  with update_at_const [OF p(1), of ?f] p(2) show ?thesis
    by (simp add: LZData_readDouble_def LZData_read_lookup LZData_asDouble_def show_fixed6_c_str
        atof_show_fixed6)
qed

section \<open>Numbers that do not fit\<close>

lemma show_nat_longer: "10 ^ k \<le> n \<Longrightarrow> k < length (show_nat n)"
proof (induction k arbitrary: n)
  case 0
  then show ?case by (simp add: length_greater_0_conv)
next
  case (Suc k)
  have "\<not> n < 10" using one_le_power [of "10 :: nat" k] Suc.prems unfolding power_Suc by linarith
  moreover from Suc.prems have "10 ^ k \<le> n div 10" by (simp add: less_eq_div_iff_mult_less_eq mult.commute)
  ultimately show ?case using Suc.IH [of "n div 10"] by (subst show_nat.simps) simp
qed

lemma show_fixed6_longer:
  assumes "10 ^ k \<le> \<bar>r\<bar>"
  shows "k + 7 < length (show_fixed6 r)"
proof -
  define n where "n = nat (round (\<bar>r\<bar> * 1000000))"
  have "(of_int (10 ^ k * 1000000) :: rat) \<le> \<bar>r\<bar> * 1000000" using assms by simp
  from round_mono [OF this] have "int (10 ^ k * 1000000) \<le> round (\<bar>r\<bar> * 1000000)"
    by (simp only: round_of_int) simp
  from nat_mono [OF this] have "10 ^ k * 1000000 \<le> n" by (simp only: n_def nat_int)
  then have "10 ^ k \<le> n div 1000000" by (simp add: less_eq_div_iff_mult_less_eq)
  from show_nat_longer [OF this] show ?thesis
    by (simp add: show_fixed6_def n_def [symmetric] Let_def length_pad6)
qed

text \<open>Both \<open>setDouble\<close> calls end the program on a large number, long before the range of double ends.\<close>

lemma large_double_aborts:
  "10 ^ 56 \<le> \<bar>r\<bar> \<Longrightarrow> StringTool_setDouble r s = Inl InvalidParameter"
  "10 ^ 248 \<le> \<bar>r\<bar> \<Longrightarrow> LZData_setDouble r n = Inl InvalidParameter"
  using show_fixed6_longer [of 56 r] show_fixed6_longer [of 248 r]
  by (simp_all add: StringTool_setDouble_def convertToString_def LZData_setDouble_def
      LZData_convertToString_def sprintf_f)

end
