(* ===== verification/Logging.thy ===== *)
theory Logging
  imports StringUtil
begin

text \<open>
  The log file of src/acm/Log.cpp and Commen/Log.h.  The state is the text written so far and whether
  the log can be used; the local time is an argument of the calls that read it.  The literals are
  the GBK bytes of the source; the mutexes, under which each call runs as a whole, are left out.
\<close>

record SYSTEMTIME =
  wYear :: nat
  wMonth :: nat
  wDay :: nat
  wHour :: nat
  wMinute :: nat
  wSecond :: nat

definition systemtime_ok :: "SYSTEMTIME \<Rightarrow> bool" where
  "systemtime_ok t \<longleftrightarrow> wYear t < 65536 \<and> wMonth t \<le> 12 \<and> wDay t \<le> 31 \<and> wHour t < 24 \<and> wMinute t < 60 \<and>
     wSecond t < 60"

record cLog =
  m_fLog :: string
  m_bUsefull :: bool

definition cLog_new :: cLog where
  "cLog_new = \<lparr>m_fLog = '''', m_bUsefull = False\<rparr>"

definition MAX_SIZE_BUFFER :: nat where
  "MAX_SIZE_BUFFER = 4096"

definition time_text :: "SYSTEMTIME \<Rightarrow> string" where
  "time_text t =
     ''['' @ pad_zero 2 (show_nat (wHour t)) @ '':'' @ pad_zero 2 (show_nat (wMinute t)) @ '':'' @
     pad_zero 2 (show_nat (wSecond t)) @ '']: ''"

definition fits :: "nat \<Rightarrow> string \<Rightarrow> string outcome" where
  "fits cap s = (if length s < cap then Inr s else Inl InvalidParameter)"

definition generateTimeHead :: "SYSTEMTIME \<Rightarrow> string outcome" where
  "generateTimeHead t =
     bind_outcome (fits 128 (time_text t)) (\<lambda>s.
       Inr (trimPartString (s @ replicate (128 - length s) (CHR 0x00)) (CHR 0x00)))"

definition cLog_write :: "SYSTEMTIME \<Rightarrow> string \<Rightarrow> cLog \<Rightarrow> cLog outcome" where
  "cLog_write t buffer lg =
     (if \<not> m_bUsefull lg then Inr lg
      else bind_outcome (generateTimeHead t) (\<lambda>header.
        Inr (lg\<lparr>m_fLog := m_fLog lg @ header @ buffer @ [CHR 0x0A]\<rparr>)))"

definition day_text :: "SYSTEMTIME \<Rightarrow> string" where
  "day_text t = ''['' @ show_nat (wYear t) @ ''-'' @ show_nat (wMonth t) @ ''-'' @ show_nat (wDay t) @ '']''"

definition log_system :: string where
  "log_system = map char_of [0xC8, 0xD5, 0xD6, 0xBE, 0xCF, 0xB5, 0xCD, 0xB3 :: nat]"

definition cLog_init :: "bool \<Rightarrow> SYSTEMTIME \<Rightarrow> cLog \<Rightarrow> (bool \<times> cLog) outcome" where
  "cLog_init opened t lg =
     (if m_bUsefull lg then Inr (False, lg)
      else if \<not> opened then Inr (False, lg)
      else
        bind_outcome (fits 128 (''---'' @ day_text t @ log_system @
            map char_of [0xC6, 0xF4, 0xB6, 0xAF :: nat] @ ''---'' @ [CHR 0x0A])) (\<lambda>s.
        bind_outcome (cLog_write t s (lg\<lparr>m_fLog := '''', m_bUsefull := True\<rparr>)) (\<lambda>lg1. Inr (True, lg1))))"

definition cLog_unload :: "SYSTEMTIME \<Rightarrow> cLog \<Rightarrow> cLog outcome" where
  "cLog_unload t lg =
     (if \<not> m_bUsefull lg then Inr lg
      else
        bind_outcome (fits 128 (''***'' @ day_text t @ log_system @
            map char_of [0xCD, 0xA3, 0xD6, 0xB9 :: nat] @ ''***'' @ [CHR 0x0A, CHR 0x0A])) (\<lambda>s.
        bind_outcome (cLog_write t s lg) (\<lambda>lg1. Inr (lg1\<lparr>m_bUsefull := False\<rparr>))))"

definition cLog_writeA :: "(string \<Rightarrow> string) \<Rightarrow> SYSTEMTIME \<Rightarrow> string \<Rightarrow> cLog \<Rightarrow> cLog outcome" where
  "cLog_writeA mb t buffer lg = cLog_write t (charToWChar mb buffer) lg"

definition cLog_writeW :: "SYSTEMTIME \<Rightarrow> tstring \<Rightarrow> cLog \<Rightarrow> cLog outcome" where
  "cLog_writeW t buffer lg = cLog_write t buffer lg"

definition cLog_xwriteA ::
    "(string \<Rightarrow> string) \<Rightarrow> SYSTEMTIME \<Rightarrow> string \<Rightarrow> fmt_arg list \<Rightarrow> cLog \<Rightarrow> cLog outcome" where
  "cLog_xwriteA mb t fmt args lg =
     bind_outcome (sprintf_s MAX_SIZE_BUFFER fmt args) (\<lambda>s. cLog_writeA mb t (c_str s) lg)"

definition cLog_xwriteW :: "SYSTEMTIME \<Rightarrow> tstring \<Rightarrow> fmt_arg list \<Rightarrow> cLog \<Rightarrow> cLog outcome" where
  "cLog_xwriteW t fmt args lg =
     bind_outcome (sprintf_s MAX_SIZE_BUFFER fmt args) (\<lambda>s. cLog_writeW t (c_str s) lg)"

section \<open>What a log line looks like\<close>

lemma length_pad2: "n < 60 \<Longrightarrow> length (pad_zero 2 (show_nat n)) = 2"
  using length_show_nat [of n 2] by (simp add: length_pad_zero)

lemma digits_no_NUL: "CHR 0x00 \<notin> set (pad_zero k (show_nat n))"
  using show_nat_digits [of n] by (auto simp: pad_zero_def is_digit_def)

lemma time_head: "systemtime_ok t \<Longrightarrow> generateTimeHead t = Inr (time_text t)"
proof -
  assume t: "systemtime_ok t"
  have len: "length (time_text t) = 12"
    using t by (simp add: time_text_def systemtime_ok_def length_pad2)
  have "CHR 0x00 \<notin> set (time_text t)" by (simp add: time_text_def digits_no_NUL)
  then have "c \<noteq> CHR 0x00" if "c \<in> set (time_text t)" for c
    using that by metis
  then have "trimPartString (time_text t @ replicate (Suc k) (CHR 0x00)) (CHR 0x00) = time_text t" for k
    by (simp add: trimPartString_NUL c_str_def takeWhile_append2)
  from this [of 115] len show ?thesis by (simp add: generateTimeHead_def fits_def)
qed

text \<open>A usable log gains one line per call, whose head has a fixed width; no call ends the program.\<close>

lemma write_line:
  "systemtime_ok t \<Longrightarrow> m_bUsefull lg \<Longrightarrow>
     cLog_write t buffer lg = Inr (lg\<lparr>m_fLog := m_fLog lg @ time_text t @ buffer @ [CHR 0x0A]\<rparr>)"
  by (simp add: cLog_write_def time_head)

lemma length_show_nat_year: "n < 65536 \<Longrightarrow> length (show_nat n) \<le> 5"
  by (intro length_show_nat) auto

lemma init_total:
  assumes "systemtime_ok t"
  shows "\<exists>r. cLog_init opened t lg = Inr r \<and> (fst r \<longleftrightarrow> opened \<and> \<not> m_bUsefull lg)"
proof -
  have "length (show_nat (wYear t)) \<le> 5" "length (show_nat (wMonth t)) \<le> 5" "length (show_nat (wDay t)) \<le> 5"
    using assms by (auto simp: systemtime_ok_def intro!: length_show_nat_year)
  then show ?thesis
    by (simp add: cLog_init_def fits_def day_text_def log_system_def write_line [OF assms])
qed

text \<open>A text of 4096 characters or more ends the program, whether or not the log is in use.\<close>

lemma long_log_line:
  "c_format fmt args = Some s \<Longrightarrow> 4096 \<le> length s \<Longrightarrow> cLog_xwriteW t fmt args lg = Inl InvalidParameter"
  by (simp add: cLog_xwriteW_def sprintf_s_overflow MAX_SIZE_BUFFER_def)

end
